(* ===== verification/Pxc_Prelude.thy ===== *)
theory Pxc_Prelude
  imports Complex_Main "HOL-Library.Word"
begin

text \<open>
  Shared ground of the development: the failures a C++ operation can end in, the
  error monad the operations are written in, loops over containers, and the
  collections of simplification rules the component theories fill.

  A C++ function that can throw or run into undefined behaviour returns a value of
  \<open>'a result\<close>: \<open>Inl\<close> carries the failure, \<open>Inr\<close> the value. \<open>UB\<close> marks undefined
  behaviour in the sense of the C++ standard (an iterator equal to \<open>end()\<close> that is
  dereferenced, a pointer to a deleted object, a read past an array, a sort whose order is
  none); \<open>Throw\<close> marks an exception of the source.
\<close>

section \<open>Failures and results\<close>

datatype ub = NullDeref | EndDeref | UseAfterFree | OutOfBounds | UninitRead
  | DivByZero | BadShift | BadIterator | BadOrder | Relock | BadCast

datatype exn = VersionException string | ConnException string | LogicError | SystemError

datatype fault = UB ub | Throw exn

type_synonym 'a result = "fault + 'a"

definition bindR :: "'a result \<Rightarrow> ('a \<Rightarrow> 'b result) \<Rightarrow> 'b result" where
  "bindR m f = (case m of Inl e \<Rightarrow> Inl e | Inr x \<Rightarrow> f x)"

definition guardR :: "bool \<Rightarrow> fault \<Rightarrow> unit result" where
  "guardR b e = (if b then Inr () else Inl e)"

definition ofOption :: "fault \<Rightarrow> 'a option \<Rightarrow> 'a result" where
  "ofOption e x = (case x of None \<Rightarrow> Inl e | Some y \<Rightarrow> Inr y)"

definition okR :: "'a result \<Rightarrow> bool" where
  "okR m = (case m of Inl _ \<Rightarrow> False | Inr _ \<Rightarrow> True)"

text \<open>A loop over a container whose body may fail: it stops at the first failure.\<close>

fun foldR :: "('s \<Rightarrow> 'a \<Rightarrow> 's result) \<Rightarrow> 'a list \<Rightarrow> 's \<Rightarrow> 's result" where
  "foldR f [] s = Inr s"
| "foldR f (x # xs) s = bindR (f s x) (foldR f xs)"

lemma bindR_simps [simp]:
  "bindR (Inl e) f = Inl e"
  "bindR (Inr x) f = f x"
  by (simp_all add: bindR_def)

lemma bindR_eq_Inr: "bindR m f = Inr y \<longleftrightarrow> (\<exists>x. m = Inr x \<and> f x = Inr y)"
  by (cases m) auto

lemma bindR_eq_Inl: "bindR m f = Inl e \<longleftrightarrow> m = Inl e \<or> (\<exists>x. m = Inr x \<and> f x = Inl e)"
  by (cases m) auto

lemma bindR_assoc: "bindR (bindR m f) g = bindR m (\<lambda>x. bindR (f x) g)"
  by (cases m) auto

lemma bindR_Inr [simp]: "bindR m Inr = m"
  by (cases m) auto

lemma guardR_simps [simp]:
  "guardR True e = Inr ()"
  "guardR False e = Inl e"
  by (simp_all add: guardR_def)

lemma ofOption_simps [simp]:
  "ofOption e None = Inl e"
  "ofOption e (Some x) = Inr x"
  by (simp_all add: ofOption_def)

lemma ofOption_eq_Inr [simp]: "ofOption e x = Inr y \<longleftrightarrow> x = Some y"
  by (cases x) auto

lemma okR_simps [simp]:
  "\<not> okR (Inl e)"
  "okR (Inr x)"
  by (simp_all add: okR_def)

lemma okR_iff: "okR m \<longleftrightarrow> (\<exists>x. m = Inr x)"
  by (cases m) auto

lemma okR_bind: "okR (bindR m f) \<longleftrightarrow> (\<exists>x. m = Inr x \<and> okR (f x))"
  by (cases m) auto

lemma foldR_append: "foldR f (xs @ ys) s = bindR (foldR f xs s) (foldR f ys)"
proof (induction xs arbitrary: s)
  case Nil
  then show ?case by simp
next
  case (Cons x xs)
  then have "foldR f (xs @ ys) = (\<lambda>s. bindR (foldR f xs s) (foldR f ys))" by blast
  then show ?case by (simp add: bindR_assoc)
qed

text \<open>
  The two loop rules the components use: an invariant every successful body keeps holds
  of the result, and a body that never fails under an invariant gives a loop that never
  fails.
\<close>

lemma foldR_invariant:
  assumes "foldR f xs s = Inr t" and "P s"
    and "\<And>s x s'. x \<in> set xs \<Longrightarrow> P s \<Longrightarrow> f s x = Inr s' \<Longrightarrow> P s'"
  shows "P t"
  using assms
proof (induction xs arbitrary: s)
  case Nil
  then show ?case by simp
next
  case (Cons x xs)
  from Cons.prems(1) obtain s' where s': "f s x = Inr s'" and rest: "foldR f xs s' = Inr t"
    by (auto simp: bindR_eq_Inr)
  have "P s'" by (rule Cons.prems(3) [OF _ Cons.prems(2) s']) simp
  with rest show ?case by (rule Cons.IH) (rule Cons.prems(3), auto)
qed

lemma foldR_total:
  assumes "P s"
    and "\<And>s x. x \<in> set xs \<Longrightarrow> P s \<Longrightarrow> \<exists>s'. f s x = Inr s' \<and> P s'"
  shows "\<exists>t. foldR f xs s = Inr t \<and> P t"
  using assms
proof (induction xs arbitrary: s)
  case Nil
  then show ?case by simp
next
  case (Cons x xs)
  then obtain s' where "f s x = Inr s'" and "P s'" by force
  moreover have "\<exists>t. foldR f xs s' = Inr t \<and> P t"
    using \<open>P s'\<close> by (rule Cons.IH) (use Cons.prems(2) in auto)
  ultimately show ?case by simp
qed

lemma foldR_pure: "foldR (\<lambda>s x. Inr (g s x)) xs s = Inr (foldl g s xs)"
  by (induction xs arbitrary: s) auto

section \<open>Rule collections\<close>

text \<open>
  \<open>model_defs\<close> collects the definitions of straight-line operations, to be unfolded
  together; \<open>frame_simps\<close> collects what an operation leaves unchanged.
\<close>

named_theorems model_defs
named_theorems frame_simps

section \<open>Lists\<close>

lemma filter_fst_neq_map: "map fst (filter (\<lambda>p. fst p \<noteq> k) m) = filter (\<lambda>a. a \<noteq> k) (map fst m)"
  by (induction m) auto

lemma map_of_filter_fst:
  "map_of (filter (\<lambda>p. fst p \<noteq> k) m) k' = (if k' = k then None else map_of m k')"
  by (induction m) auto

lemma takeWhile_append_stop: "\<forall>x\<in>set xs. P x \<Longrightarrow> \<not> P y \<Longrightarrow> takeWhile P (xs @ y # ys) = xs"
  by (induction xs) auto

section \<open>Runs that simulate a specification\<close>

text \<open>An event is only asked for where its condition holds in the specification's state.\<close>

fun all_ok :: "('e \<Rightarrow> 'a \<Rightarrow> bool) \<Rightarrow> ('e \<Rightarrow> 'a \<Rightarrow> 'a) \<Rightarrow> 'e list \<Rightarrow> 'a \<Rightarrow> bool" where
  "all_ok ok spec [] a = True"
| "all_ok ok spec (e # es) a = (ok e a \<and> all_ok ok spec es (spec e a))"

text \<open>What a component promises: a handler of events keeps its invariant, does not fail and does
  to the state's abstraction what the specification says.\<close>

locale event_refinement =
  fixes handle :: "'e \<Rightarrow> 's \<Rightarrow> 's result"
    and spec :: "'e \<Rightarrow> 'a \<Rightarrow> 'a"
    and abs :: "'s \<Rightarrow> 'a"
    and inv :: "'s \<Rightarrow> bool"
    and ok :: "'e \<Rightarrow> 'a \<Rightarrow> bool"
  assumes simulates: "inv s \<Longrightarrow> ok e (abs s) \<Longrightarrow>
    \<exists>s'. handle e s = Inr s' \<and> inv s' \<and> abs s' = spec e (abs s)"
begin

lemma runs_simulate:
  "inv s \<Longrightarrow> all_ok ok spec es (abs s) \<Longrightarrow>
   \<exists>s'. foldR (\<lambda>s e. handle e s) es s = Inr s' \<and> inv s' \<and> abs s' = fold spec es (abs s)"
proof (induction es arbitrary: s)
  case (Cons e es)
  then obtain s1 where s1: "handle e s = Inr s1" "inv s1" "abs s1 = spec e (abs s)"
    using simulates [of s e] by auto
  then show ?case using Cons.IH [of s1] Cons.prems by simp
qed simp

text \<open>Any stretch of a run starts in a state that satisfies the invariant.\<close>

lemma runs_append:
  "inv s \<Longrightarrow> all_ok ok spec (es @ fs) (abs s) \<Longrightarrow>
   \<exists>s1 s2. foldR (\<lambda>s e. handle e s) es s = Inr s1 \<and> inv s1 \<and>
     foldR (\<lambda>s e. handle e s) fs s1 = Inr s2 \<and> inv s2 \<and> abs s2 = fold spec fs (abs s1)"
proof (induction es arbitrary: s)
  case Nil
  then show ?case using runs_simulate by simp
next
  case (Cons e es)
  then obtain s1 where s1: "handle e s = Inr s1" "inv s1" "abs s1 = spec e (abs s)"
    using simulates [of s e] by auto
  then show ?case using Cons.IH [of s1] Cons.prems by simp
qed

end

end
