(* ===== verification/Std_Map.thy ===== *)
theory Std_Map
  imports Pxc_Prelude "HOL-Library.Char_ord" "HOL-Library.List_Lexorder"
begin

text \<open>
  The associative container the program uses everywhere, \<open>std::map\<close>, as an association
  list kept in strictly ascending key order, so that iteration visits the keys in the
  order the C++ container does. \<open>mp_assign\<close> is \<open>m[k] = v\<close> (it overwrites), \<open>mp_insert\<close> is
  \<open>m.insert({k, v})\<close> (it does not), \<open>mp_erase\<close> erases the element of a key, and an
  iterator obtained from \<open>m.find(k)\<close> is the option \<open>mp_find m k\<close>, \<open>None\<close> for \<open>end()\<close>.
\<close>

type_synonym ('k, 'v) omap = "('k \<times> 'v) list"

definition mp_ok :: "('k::linorder, 'v) omap \<Rightarrow> bool" where
  "mp_ok m = sorted_wrt (<) (map fst m)"

definition mp_find :: "('k, 'v) omap \<Rightarrow> 'k \<Rightarrow> 'v option" where
  "mp_find m k = map_of m k"

fun mp_assign :: "'k::linorder \<Rightarrow> 'v \<Rightarrow> ('k, 'v) omap \<Rightarrow> ('k, 'v) omap" where
  "mp_assign k v [] = [(k, v)]"
| "mp_assign k v (p # m) =
     (if fst p < k then p # mp_assign k v m
      else if fst p = k then (k, v) # m
      else (k, v) # p # m)"

definition mp_insert :: "'k::linorder \<Rightarrow> 'v \<Rightarrow> ('k, 'v) omap \<Rightarrow> ('k, 'v) omap" where
  "mp_insert k v m = (if mp_find m k = None then mp_assign k v m else m)"

definition mp_erase :: "'k \<Rightarrow> ('k, 'v) omap \<Rightarrow> ('k, 'v) omap" where
  "mp_erase k m = filter (\<lambda>p. fst p \<noteq> k) m"

text \<open>\<open>m.erase(m.find(k))\<close>: erasing \<open>end()\<close> is undefined.\<close>

definition mp_erase_it :: "'k \<Rightarrow> ('k, 'v) omap \<Rightarrow> ('k, 'v) omap result" where
  "mp_erase_it k m = (if mp_find m k = None then Inl (UB EndDeref) else Inr (mp_erase k m))"

section \<open>The interface\<close>

text \<open>
  What the components rely on. \<open>find\<close> is the container's content; the other laws say how
  each operation changes it and that each keeps the representation invariant.
\<close>

locale std_map =
  fixes find :: "'m \<Rightarrow> 'k \<Rightarrow> 'v option"
    and assign :: "'k \<Rightarrow> 'v \<Rightarrow> 'm \<Rightarrow> 'm"
    and erase :: "'k \<Rightarrow> 'm \<Rightarrow> 'm"
    and empty :: "'m"
    and ok :: "'m \<Rightarrow> bool"
  assumes find_empty: "find empty k = None"
    and find_assign: "find (assign k v m) k' = (if k' = k then Some v else find m k')"
    and find_erase: "find (erase k m) k' = (if k' = k then None else find m k')"
    and ok_empty: "ok empty"
    and ok_assign: "ok m \<Longrightarrow> ok (assign k v m)"
    and ok_erase: "ok m \<Longrightarrow> ok (erase k m)"
begin

lemma find_assign_fun: "find (assign k v m) = (find m)(k \<mapsto> v)"
  by (rule ext) (simp add: find_assign)

lemma find_erase_fun: "find (erase k m) = (find m)(k := None)"
  by (rule ext) (simp add: find_erase)

lemma dom_assign: "dom (find (assign k v m)) = insert k (dom (find m))"
  by (simp add: find_assign_fun)

lemma dom_erase: "dom (find (erase k m)) = dom (find m) - {k}"
  by (simp add: find_erase_fun)

lemma assign_all_keep:
  "find m k = Some v \<Longrightarrow> k \<notin> set (map fst ps) \<Longrightarrow>
   find (foldl (\<lambda>m p. assign (fst p) (snd p) m) m ps) k = Some v"
  by (induction ps arbitrary: m) (auto simp: find_assign)

lemma erase_assign_absent:
  "find m k = None \<Longrightarrow> find (erase k (assign k v m)) = find m"
  by (rule ext) (simp add: find_assign find_erase)

end

section \<open>The association list provides it\<close>

lemma mp_ok_Nil [simp]: "mp_ok []"
  by (simp add: mp_ok_def)

lemma mp_ok_Cons: "mp_ok (p # m) \<longleftrightarrow> (\<forall>q\<in>set m. fst p < fst q) \<and> mp_ok m"
  by (auto simp: mp_ok_def)

lemma mp_find_Nil [simp]: "mp_find [] k = None"
  by (simp add: mp_find_def)

lemma mp_find_Cons [simp]: "mp_find (p # m) k = (if k = fst p then Some (snd p) else mp_find m k)"
  by (cases p) (simp add: mp_find_def)

lemma mp_find_assign [simp]:
  "mp_find (mp_assign k v m) k' = (if k' = k then Some v else mp_find m k')"
  by (induction m) auto

lemma set_mp_assign: "set (mp_assign k v m) \<subseteq> insert (k, v) (set m)"
  by (induction m) auto

lemma mp_ok_assign: "mp_ok m \<Longrightarrow> mp_ok (mp_assign k v m)"
proof (induction m)
  case Nil
  then show ?case by (simp add: mp_ok_Cons)
next
  case (Cons p m)
  then have "mp_ok (mp_assign k v m)" and lt: "\<forall>q\<in>set m. fst p < fst q"
    by (auto simp: mp_ok_Cons)
  moreover have "fst p < k \<Longrightarrow> \<forall>q\<in>set (mp_assign k v m). fst p < fst q"
    using lt set_mp_assign [of k v m] by fastforce
  ultimately show ?case
    using Cons.prems by (auto simp: mp_ok_Cons intro: less_trans)
qed

lemma mp_find_erase [simp]:
  "mp_find (mp_erase k m) k' = (if k' = k then None else mp_find m k')"
  by (simp add: mp_find_def mp_erase_def map_of_filter_fst)

lemma mp_ok_erase: "mp_ok m \<Longrightarrow> mp_ok (mp_erase k m)"
  by (simp add: mp_ok_def mp_erase_def filter_fst_neq_map sorted_wrt_filter)

interpretation mp: std_map mp_find mp_assign mp_erase "[] :: ('k::linorder, 'v) omap" mp_ok
  by unfold_locales (simp_all add: mp_ok_assign mp_ok_erase)

lemma mp_find_insert [simp]:
  "mp_find (mp_insert k v m) k' =
     (if k' = k \<and> mp_find m k = None then Some v else mp_find m k')"
  by (auto simp: mp_insert_def)

lemma mp_ok_insert: "mp_ok m \<Longrightarrow> mp_ok (mp_insert k v m)"
  by (simp add: mp_insert_def mp_ok_assign)

lemma mp_find_Some_set: "mp_find m k = Some v \<Longrightarrow> (k, v) \<in> set m"
  by (simp add: mp_find_def map_of_SomeD)

lemma mp_ok_distinct: "mp_ok m \<Longrightarrow> distinct (map fst m)"
  by (simp add: mp_ok_def strict_sorted_iff)

lemma mp_find_iff_set: "mp_ok m \<Longrightarrow> mp_find m k = Some v \<longleftrightarrow> (k, v) \<in> set m"
  by (simp add: mp_find_def mp_ok_distinct)

lemma mp_find_None_iff: "mp_find m k = None \<longleftrightarrow> k \<notin> fst ` set m"
  by (simp add: mp_find_def map_of_eq_None_iff)

lemma mp_find_ex_iff: "k \<in> fst ` set m \<longleftrightarrow> (\<exists>v. mp_find m k = Some v)"
  using mp_find_None_iff [of m k] by (cases "mp_find m k") auto

lemma dom_mp_find: "dom (mp_find m) = fst ` set m"
  by (induction m) (auto simp: dom_def)

lemma finite_dom_mp_find [simp]: "finite (dom (mp_find m))"
  by (simp add: dom_mp_find)

lemma mp_erase_it_Inr [simp]:
  "mp_erase_it k m = Inr m' \<longleftrightarrow> mp_find m k \<noteq> None \<and> m' = mp_erase k m"
  by (auto simp: mp_erase_it_def)

lemma mp_erase_it_ok: "mp_find m k = Some v \<Longrightarrow> mp_erase_it k m = Inr (mp_erase k m)"
  by (simp add: mp_erase_it_def)

text \<open>
  Filling a map from a vector with \<open>insert\<close> keeps the first entry of each key: the map
  then looks up exactly as the vector searched from its front.
\<close>

definition mp_insert_all :: "('k::linorder \<times> 'v) list \<Rightarrow> ('k, 'v) omap \<Rightarrow> ('k, 'v) omap" where
  "mp_insert_all ps m = foldl (\<lambda>m p. mp_insert (fst p) (snd p) m) m ps"

lemma mp_insert_all_simps [simp]:
  "mp_insert_all [] m = m"
  "mp_insert_all (p # ps) m = mp_insert_all ps (mp_insert (fst p) (snd p) m)"
  by (simp_all add: mp_insert_all_def)

lemma mp_ok_insert_all: "mp_ok m \<Longrightarrow> mp_ok (mp_insert_all ps m)"
  by (induction ps arbitrary: m) (auto simp: mp_ok_insert)

lemma mp_find_insert_all:
  "mp_find (mp_insert_all ps m) k =
     (case mp_find m k of Some v \<Rightarrow> Some v | None \<Rightarrow> map_of ps k)"
proof (induction ps arbitrary: m)
  case Nil
  then show ?case by (simp split: option.splits)
next
  case (Cons p ps)
  then show ?case by (cases p) (auto split: option.splits)
qed

end
