(* ===== verification/Cpp_Heap.thy ===== *)
theory Cpp_Heap
  imports Std_Map
begin

text \<open>
  Objects that the program reaches through several pointers (a user held both by the
  router and by a zone) live in a store from addresses to objects. \<open>new\<close> takes the next
  address, never one used before; reading or writing through the pointer of a deleted
  object is undefined behaviour, and so is deleting twice.
\<close>

type_synonym addr = nat

record 'a store =
  st_objs :: "(addr, 'a) omap"
  st_next :: addr

definition st_empty :: "'a store" where
  "st_empty = \<lparr>st_objs = [], st_next = 0\<rparr>"

definition st_ok :: "'a store \<Rightarrow> bool" where
  "st_ok h = (mp_ok (st_objs h) \<and> (\<forall>a\<in>fst ` set (st_objs h). a < st_next h))"

definition st_look :: "'a store \<Rightarrow> addr \<Rightarrow> 'a option" where
  "st_look h a = mp_find (st_objs h) a"

definition st_new :: "'a \<Rightarrow> 'a store \<Rightarrow> addr \<times> 'a store" where
  "st_new x h = (st_next h,
     h\<lparr>st_objs := mp_assign (st_next h) x (st_objs h), st_next := Suc (st_next h)\<rparr>)"

definition st_get :: "'a store \<Rightarrow> addr \<Rightarrow> 'a result" where
  "st_get h a = ofOption (UB UseAfterFree) (st_look h a)"

definition st_put :: "addr \<Rightarrow> 'a \<Rightarrow> 'a store \<Rightarrow> 'a store" where
  "st_put a x h = h\<lparr>st_objs := mp_assign a x (st_objs h)\<rparr>"

definition st_delete :: "addr \<Rightarrow> 'a store \<Rightarrow> 'a store result" where
  "st_delete a h =
     (case st_look h a of None \<Rightarrow> Inl (UB UseAfterFree)
      | Some _ \<Rightarrow> Inr (h\<lparr>st_objs := mp_erase a (st_objs h)\<rparr>))"

text \<open>The contract of such a store, independent of how it is kept.\<close>

locale object_store =
  fixes look :: "'h \<Rightarrow> addr \<Rightarrow> 'a option"
    and new :: "'a \<Rightarrow> 'h \<Rightarrow> addr \<times> 'h"
    and put :: "addr \<Rightarrow> 'a \<Rightarrow> 'h \<Rightarrow> 'h"
    and delete :: "addr \<Rightarrow> 'h \<Rightarrow> 'h result"
    and ok :: "'h \<Rightarrow> bool"
  assumes new_fresh: "ok h \<Longrightarrow> new x h = (a, h') \<Longrightarrow> look h a = None"
    and look_new: "new x h = (a, h') \<Longrightarrow> look h' b = (if b = a then Some x else look h b)"
    and look_put: "look (put a x h) b = (if b = a then Some x else look h b)"
    and look_delete: "delete a h = Inr h' \<Longrightarrow> look h' b = (if b = a then None else look h b)"
    and delete_live: "delete a h = Inr h' \<Longrightarrow> look h a \<noteq> None"
    and ok_new: "ok h \<Longrightarrow> new x h = (a, h') \<Longrightarrow> ok h'"
    and ok_put: "ok h \<Longrightarrow> look h a \<noteq> None \<Longrightarrow> ok (put a x h)"
    and ok_delete: "ok h \<Longrightarrow> delete a h = Inr h' \<Longrightarrow> ok h'"
begin

lemma new_keeps: "ok h \<Longrightarrow> new x h = (a, h') \<Longrightarrow> look h b = Some y \<Longrightarrow> look h' b = Some y \<and> b \<noteq> a"
  using new_fresh [of h x a h'] look_new [of x h a h' b] by auto

lemma no_double_delete: "delete a h = Inr h' \<Longrightarrow> delete a h' \<noteq> Inr h''"
  using look_delete [of a h h' a] delete_live [of a h' h''] by auto

lemma delete_dangles: "delete a h = Inr h' \<Longrightarrow> look h' a = None"
  by (simp add: look_delete)

end

lemma st_look_put [simp]: "st_look (st_put a x h) b = (if b = a then Some x else st_look h b)"
  by (simp add: st_look_def st_put_def)

lemma st_look_empty [simp]: "st_look st_empty a = None"
  by (simp add: st_look_def st_empty_def)

lemma st_ok_empty [simp]: "st_ok st_empty"
  by (simp add: st_ok_def st_empty_def)

lemma st_ok_new: "st_ok h \<Longrightarrow> st_new x h = (a, h') \<Longrightarrow> st_ok h'"
  using set_mp_assign [of "st_next h" x "st_objs h"]
  by (auto simp: st_ok_def st_new_def mp_ok_assign)
     (metis (no_types, lifting) fst_conv image_eqI insertE less_Suc_eq subsetD)

lemma st_ok_put: "st_ok h \<Longrightarrow> st_look h a \<noteq> None \<Longrightarrow> st_ok (st_put a x h)"
  using set_mp_assign [of a x "st_objs h"]
  by (auto simp: st_ok_def st_put_def mp_ok_assign st_look_def mp_find_None_iff)
     (metis (no_types, lifting) fst_conv image_eqI insertE mp_find_Some_set subsetD)

lemma st_ok_delete: "st_ok h \<Longrightarrow> st_delete a h = Inr h' \<Longrightarrow> st_ok h'"
  using mp_ok_erase [of "st_objs h" a]
  by (fastforce simp: st_ok_def st_delete_def mp_erase_def split: option.splits)

lemma st_next_free: "st_ok h \<Longrightarrow> st_look h (st_next h) = None"
  by (auto simp: st_ok_def st_look_def mp_find_None_iff)

interpretation st: object_store st_look st_new st_put st_delete st_ok
proof (unfold_locales, goal_cases)
  case (1 h x a h')
  then show ?case using st_next_free by (auto simp: st_new_def)
next
  case (2 x h a h' b)
  then show ?case by (auto simp: st_new_def st_look_def)
next
  case (3 a x h b)
  then show ?case by simp
next
  case (4 a h h' b)
  then show ?case by (auto simp: st_delete_def st_look_def split: option.splits)
next
  case (5 a h h')
  then show ?case by (auto simp: st_delete_def split: option.splits)
qed (blast intro: st_ok_new st_ok_put st_ok_delete)+

lemma st_get_Inr [simp]: "st_get h a = Inr x \<longleftrightarrow> st_look h a = Some x"
  by (simp add: st_get_def)

lemma st_get_freed: "st_look h a = None \<Longrightarrow> st_get h a = Inl (UB UseAfterFree)"
  by (simp add: st_get_def)

lemma st_delete_ok: "st_look h a = Some x \<Longrightarrow> \<exists>h'. st_delete a h = Inr h'"
  by (simp add: st_delete_def)

end
