(* ===== verification/Wire.thy ===== *)
theory Wire
  imports Cpp_Heap
begin

text \<open>
  Bytes as \<open>memcpy\<close> lays them out on the little-endian LP64 machine the program is built
  for (\<open>int\<close> 4 bytes, \<open>size_t\<close>, \<open>double\<close> and pointers 8), the fields of a \<open>Datagram\<close>
  class (conexion/include/Datagram.h) with their alignment and padding, and the packets
  both connection classes build from them (conexion/source/TCPConnection.cpp and
  TCPConnectionSecurity.cpp).

  A \<open>double\<close> crosses the wire as its 64 bits. Memory the code reads without having
  written it (padding, the bytes behind an object or behind a string) is an argument.
\<close>

type_synonym byte = "8 word"

section \<open>Little-endian integers\<close>

fun le_encode :: "nat \<Rightarrow> nat \<Rightarrow> byte list" where
  "le_encode 0 n = []"
| "le_encode (Suc k) n = of_nat (n mod 256) # le_encode k (n div 256)"

fun le_decode :: "byte list \<Rightarrow> nat" where
  "le_decode [] = 0"
| "le_decode (b # bs) = unat b + 256 * le_decode bs"

lemma length_le_encode [simp]: "length (le_encode k n) = k"
  by (induction k arbitrary: n) auto

lemma le_decode_encode: "le_decode (le_encode k n) = n mod 256 ^ k"
proof (induction k arbitrary: n)
  case 0
  then show ?case by simp
next
  case (Suc k)
  have "unat (of_nat (n mod 256) :: byte) = n mod 256"
    by (simp add: unat_of_nat)
  then show ?case by (simp add: Suc mod_mult2_eq)
qed

lemma le_decode_bound: "le_decode bs < 256 ^ length bs"
proof (induction bs)
  case Nil
  then show ?case by simp
next
  case (Cons b bs)
  have "unat b < 256" using unsigned_less [of b, where ?'a = nat] by simp
  moreover have "256 * le_decode bs + 256 \<le> 256 * 256 ^ length bs"
    using Cons by simp
  ultimately show ?case by simp
qed

lemma le_encode_decode: "le_encode (length bs) (le_decode bs) = bs"
proof (induction bs)
  case Nil
  then show ?case by simp
next
  case (Cons b bs)
  have "unat b < 256" using unsigned_less [of b, where ?'a = nat] by simp
  with Cons show ?case by simp
qed

definition int_bytes :: "32 word \<Rightarrow> byte list" where
  "int_bytes w = le_encode 4 (unat w)"

definition bytes_int :: "byte list \<Rightarrow> 32 word" where
  "bytes_int bs = of_nat (le_decode bs)"

definition size_bytes :: "64 word \<Rightarrow> byte list" where
  "size_bytes w = le_encode 8 (unat w)"

definition bytes_size :: "byte list \<Rightarrow> 64 word" where
  "bytes_size bs = of_nat (le_decode bs)"

lemma length_int_bytes [simp]: "length (int_bytes w) = 4"
  by (simp add: int_bytes_def)

lemma length_size_bytes [simp]: "length (size_bytes w) = 8"
  by (simp add: size_bytes_def)

lemma bytes_int_bytes [simp]: "bytes_int (int_bytes w) = w"
proof -
  have "unat w < 256 ^ 4" using unsigned_less [of w, where ?'a = nat] by simp
  then show ?thesis by (simp add: bytes_int_def int_bytes_def le_decode_encode)
qed

lemma bytes_size_bytes [simp]: "bytes_size (size_bytes w) = w"
proof -
  have "unat w < 256 ^ 8" using unsigned_less [of w, where ?'a = nat] by simp
  then show ?thesis by (simp add: bytes_size_def size_bytes_def le_decode_encode)
qed

section \<open>C strings in fixed buffers\<close>

text \<open>
  \<open>memcpy(dst, s.c_str(), n)\<close>: the string, its terminator, then whatever lies behind it.
  A buffer read as a C string ends at its first zero byte; without one the read runs off
  the buffer.
\<close>

definition char_byte :: "char \<Rightarrow> byte" where
  "char_byte c = of_nat (of_char c)"

definition byte_char :: "byte \<Rightarrow> char" where
  "byte_char b = char_of (unat b)"

definition cstr_field :: "nat \<Rightarrow> byte list \<Rightarrow> string \<Rightarrow> byte list" where
  "cstr_field n behind s = take n (map char_byte s @ 0 # behind)"

definition read_cstr :: "byte list \<Rightarrow> string result" where
  "read_cstr bs =
     (if 0 \<in> set bs then Inr (map byte_char (takeWhile (\<lambda>b. b \<noteq> 0) bs)) else Inl (UB OutOfBounds))"

definition nul_free :: "string \<Rightarrow> bool" where
  "nul_free s = (CHR 0x00 \<notin> set s)"

lemma byte_char_byte [simp]: "byte_char (char_byte c) = c"
proof -
  have "of_char c < (256 :: nat)" by simp
  then show ?thesis by (simp add: byte_char_def char_byte_def unat_of_nat)
qed

lemma char_byte_neq_0: "c \<noteq> CHR 0x00 \<Longrightarrow> char_byte c \<noteq> 0"
proof
  assume "c \<noteq> CHR 0x00" and "char_byte c = 0"
  have "byte_char 0 = CHR 0x00" by (simp only: byte_char_def unsigned_0) (simp add: char_of_def)
  then have "c = CHR 0x00" using byte_char_byte [of c] \<open>char_byte c = 0\<close> by simp
  with \<open>c \<noteq> CHR 0x00\<close> show False ..
qed

lemma nul_free_bytes: "nul_free s \<Longrightarrow> 0 \<notin> set (map char_byte s)"
proof
  assume "nul_free s" and "0 \<in> set (map char_byte s)"
  then obtain c where "c \<in> set s" and "char_byte c = 0" by auto
  with \<open>nul_free s\<close> show False
    using char_byte_neq_0 [of c] unfolding nul_free_def by metis
qed

lemma read_cstr_field:
  assumes "nul_free s" and "length s < n"
  shows "read_cstr (cstr_field n behind s @ rest) = Inr s"
proof -
  have take: "cstr_field n behind s = map char_byte s @ 0 # take (n - Suc (length s)) behind"
    using assms(2) by (simp add: cstr_field_def take_Cons' min_def)
  have "\<forall>b\<in>set (map char_byte s). b \<noteq> 0"
    using nul_free_bytes [OF assms(1)] by (auto simp del: set_map)
  then have "takeWhile (\<lambda>b. b \<noteq> 0) (cstr_field n behind s @ rest) = map char_byte s"
    using takeWhile_append_stop [of "map char_byte s" "\<lambda>b. b \<noteq> 0" "0 :: byte"] by (simp add: take)
  moreover have "0 \<in> set (cstr_field n behind s @ rest)" by (simp add: take)
  ultimately show ?thesis by (simp add: read_cstr_def o_def)
qed

lemma read_cstr_full:
  "nul_free s \<Longrightarrow> length s = n \<Longrightarrow> read_cstr (cstr_field n behind s) = Inl (UB OutOfBounds)"
  using nul_free_bytes [of s] by (simp add: read_cstr_def cstr_field_def)

lemma length_cstr_field: "n \<le> length s + 1 + length behind \<Longrightarrow> length (cstr_field n behind s) = n"
  by (simp add: cstr_field_def)

section \<open>The memory image of a Datagram's fields\<close>

datatype ftype = FInt | FDouble | FChars nat

datatype fval = VInt "32 word" | VDouble "64 word" | VChars "byte list"

fun ft_size :: "ftype \<Rightarrow> nat" where
  "ft_size FInt = 4"
| "ft_size FDouble = 8"
| "ft_size (FChars n) = n"

fun ft_align :: "ftype \<Rightarrow> nat" where
  "ft_align FInt = 4"
| "ft_align FDouble = 8"
| "ft_align (FChars n) = 1"

fun val_type :: "fval \<Rightarrow> ftype" where
  "val_type (VInt _) = FInt"
| "val_type (VDouble _) = FDouble"
| "val_type (VChars bs) = FChars (length bs)"

fun val_bytes :: "fval \<Rightarrow> byte list" where
  "val_bytes (VInt w) = int_bytes w"
| "val_bytes (VDouble w) = size_bytes w"
| "val_bytes (VChars bs) = bs"

fun read_val :: "ftype \<Rightarrow> byte list \<Rightarrow> fval" where
  "read_val FInt bs = VInt (bytes_int (take 4 bs))"
| "read_val FDouble bs = VDouble (bytes_size (take 8 bs))"
| "read_val (FChars n) bs = VChars (take n bs)"

text \<open>Padding in front of a field at offset \<open>off\<close>, and the offset behind all fields.\<close>

definition pad_to :: "nat \<Rightarrow> nat \<Rightarrow> nat" where
  "pad_to a off = (a - off mod a) mod a"

fun fields_end :: "nat \<Rightarrow> ftype list \<Rightarrow> nat" where
  "fields_end off [] = off"
| "fields_end off (t # ts) = fields_end (off + pad_to (ft_align t) off + ft_size t) ts"

definition fields_size :: "ftype list \<Rightarrow> nat" where
  "fields_size ts = (let e = fields_end 0 ts in e + pad_to 8 e)"

text \<open>\<open>pad\<close> gives the (never written) padding byte at an offset.\<close>

fun fimage_from :: "(nat \<Rightarrow> byte) \<Rightarrow> nat \<Rightarrow> fval list \<Rightarrow> byte list" where
  "fimage_from pad off [] = map pad [off..<off + pad_to 8 off]"
| "fimage_from pad off (v # vs) =
     (let o' = off + pad_to (ft_align (val_type v)) off
      in map pad [off..<o'] @ val_bytes v @ fimage_from pad (o' + ft_size (val_type v)) vs)"

definition fimage :: "(nat \<Rightarrow> byte) \<Rightarrow> fval list \<Rightarrow> byte list" where
  "fimage pad vs = fimage_from pad 0 vs"

fun read_fields :: "nat \<Rightarrow> ftype list \<Rightarrow> byte list \<Rightarrow> fval list" where
  "read_fields off [] bs = []"
| "read_fields off (t # ts) bs =
     (let p = pad_to (ft_align t) off; bs' = drop p bs
      in read_val t bs' # read_fields (off + p + ft_size t) ts (drop (ft_size t) bs'))"

lemma length_val_bytes [simp]: "length (val_bytes v) = ft_size (val_type v)"
  by (cases v) auto

lemma read_val_bytes [simp]: "read_val (val_type v) (val_bytes v @ rest) = v"
  by (cases v) auto

lemma length_image_from:
  "off + length (fimage_from pad off vs) =
     (let e = fields_end off (map val_type vs) in e + pad_to 8 e)"
proof (induction vs arbitrary: off)
  case Nil
  then show ?case by simp
next
  case (Cons v vs)
  from Cons.IH [of "off + pad_to (ft_align (val_type v)) off + ft_size (val_type v)"]
  show ?case by (simp add: Let_def add.assoc)
qed

lemma length_fimage: "length (fimage pad vs) = fields_size (map val_type vs)"
  using length_image_from [of 0 pad vs] by (simp add: fimage_def fields_size_def Let_def)

lemma read_fields_image_from:
  "read_fields off (map val_type vs) (fimage_from pad off vs @ rest) = vs"
  by (induction vs arbitrary: off) (simp_all add: Let_def)

text \<open>
  A field list read from an image with anything behind it is the field list written:
  padding contents and trailing bytes do not matter.
\<close>

lemma read_fields_fimage: "read_fields 0 (map val_type vs) (fimage pad vs @ rest) = vs"
  by (simp add: fimage_def read_fields_image_from)

lemma fields_end_ge: "off \<le> fields_end off ts"
proof (induction ts arbitrary: off)
  case Nil
  then show ?case by simp
next
  case (Cons t ts)
  from Cons.IH [of "off + pad_to (ft_align t) off + ft_size t"] show ?case by simp
qed

lemma read_fields_take:
  "fields_end off ts - off \<le> n \<Longrightarrow> read_fields off ts (take n bs) = read_fields off ts bs"
proof (induction ts arbitrary: off n bs)
  case Nil
  then show ?case by simp
next
  case (Cons t ts)
  let ?p = "pad_to (ft_align t) off"
  let ?o = "off + ?p + ft_size t"
  have ge: "?o \<le> fields_end ?o ts" by (rule fields_end_ge)
  with Cons.prems have "ft_size t \<le> n - ?p" by simp
  then have "read_val t (take (n - ?p) (drop ?p bs)) = read_val t (drop ?p bs)"
    by (cases t) (simp_all add: min_def)
  moreover have "read_fields ?o ts (take (n - ?p - ft_size t) (drop (ft_size t) (drop ?p bs)))
    = read_fields ?o ts (drop (ft_size t) (drop ?p bs))"
    by (rule Cons.IH) (use Cons.prems in simp)
  ultimately show ?case by (simp add: Let_def drop_take drop_drop add.commute)
qed

end
