(* ===== verification/Transferable.thy ===== *)
theory Transferable
  imports Wire
begin

text \<open>
  The instruction layer of conexion/: \<open>Datagram<T>\<close> and its \<open>Creator\<close>
  (conexion/include/Datagram.h), \<open>TransferableProfile\<close> and the singleton
  \<open>TransferableFactory\<close> (conexion/include/Transferable.h,
  conexion/source/TransferableProfile.cpp and TransferableFactory.cpp).

  An instruction class is described by its registered name, the fields it adds to
  \<open>Datagram<T>\<close> and whether it overrides the virtual \<open>exec(Connection*) const\<close>: a class
  that declares \<open>exec\<close> without \<open>const\<close> does not, and a call through a \<open>Transferable*\<close> runs
  the empty body of \<open>Datagram\<close>. \<open>base\<close> is \<open>sizeof(Datagram<T>)\<close>, which depends on the
  library's \<open>std::string\<close> and is an argument.
\<close>

section \<open>Datagram and Creator\<close>

record dclass =
  dc_name :: string
  dc_fields :: "ftype list"
  dc_exec :: bool

definition dg_sizeof :: "nat \<Rightarrow> dclass \<Rightarrow> nat" where
  "dg_sizeof base cls = base + fields_size (dc_fields cls)"

text \<open>\<open>size()\<close> returns \<open>mSize\<close>, which the constructor sets to \<open>sizeof(T)\<close>.\<close>

definition dg_size :: "nat \<Rightarrow> dclass \<Rightarrow> nat" where
  "dg_size base cls = dg_sizeof base cls"

definition creator_typeSize :: "nat \<Rightarrow> dclass \<Rightarrow> nat" where
  "creator_typeSize base cls = dg_sizeof base cls - base"

text \<open>
  The \<open>size()\<close> bytes from \<open>transferableObject()\<close> on: the fields start there, but only
  \<open>sizeof(T) - sizeof(Datagram<T>)\<close> bytes of the object are left; the rest is the memory
  \<open>behind\<close> it.
\<close>

definition dg_payload :: "nat \<Rightarrow> dclass \<Rightarrow> (nat \<Rightarrow> byte) \<Rightarrow> fval list \<Rightarrow> byte list \<Rightarrow> byte list" where
  "dg_payload base cls pad vals behind = take (dg_size base cls) (fimage pad vals @ behind)"

text \<open>
  \<open>create(orig)\<close> copies \<open>typeSize()\<close> bytes from the buffer into the fresh object; a
  shorter buffer is read past its end.
\<close>

definition creator_create :: "nat \<Rightarrow> dclass \<Rightarrow> byte list \<Rightarrow> (dclass \<times> fval list) result" where
  "creator_create base cls orig =
     (if length orig < creator_typeSize base cls then Inl (UB OutOfBounds)
      else Inr (cls, read_fields 0 (dc_fields cls) (take (creator_typeSize base cls) orig)))"

definition dg_targetId :: int where
  "dg_targetId = -1"

lemma creator_typeSize_eq [simp]: "creator_typeSize base cls = fields_size (dc_fields cls)"
  by (simp add: creator_typeSize_def dg_sizeof_def)

lemma dg_size_eq [simp]: "dg_size base cls = base + fields_size (dc_fields cls)"
  by (simp add: dg_size_def dg_sizeof_def)

lemma fields_end_le_size: "fields_end 0 ts \<le> fields_size ts"
  by (simp add: fields_size_def Let_def)

lemma creator_create_fimage:
  assumes "map val_type vals = dc_fields cls"
  shows "creator_create base cls (fimage pad vals @ rest) = Inr (cls, vals)"
proof -
  have "length (fimage pad vals) = fields_size (dc_fields cls)"
    using length_fimage [of pad vals] assms by simp
  moreover have "read_fields 0 (dc_fields cls) (fimage pad vals) = vals"
    using read_fields_fimage [of vals pad "[]"] assms by simp
  ultimately show ?thesis by (simp add: creator_create_def)
qed

lemma dg_payload_split:
  assumes "map val_type vals = dc_fields cls"
  shows "dg_payload base cls pad vals behind = fimage pad vals @ take base behind"
proof -
  have "length (fimage pad vals) = fields_size (dc_fields cls)"
    using length_fimage [of pad vals] assms by simp
  then show ?thesis by (simp add: dg_payload_def)
qed

section \<open>Profiles\<close>

record profile =
  pf_creators :: "(int \<times> dclass) list"
  pf_ids :: "(string \<times> int) list"

definition profile_new :: profile where
  "profile_new = \<lparr>pf_creators = [], pf_ids = []\<rparr>"

definition getCreators :: "profile \<Rightarrow> string \<Rightarrow> (int \<times> dclass) list result" where
  "getCreators p protocol = Inr (pf_creators p)"

definition getCreatorIds :: "profile \<Rightarrow> string \<Rightarrow> (string \<times> int) list result" where
  "getCreatorIds p protocol = Inr (pf_ids p)"

text \<open>The base destructor deletes every creator still in the vector.\<close>

definition profile_destroy :: "profile \<Rightarrow> dclass list" where
  "profile_destroy p = map snd (pf_creators p)"

section \<open>The factory\<close>

record factory =
  tf_profile :: "profile option"
  tf_protocol :: string
  tf_creators :: "(int, dclass) omap"
  tf_sendingType :: "(string, int) omap"

definition NO_PROTOCOL :: string where
  "NO_PROTOCOL = ''none''"

definition LAST_VERSION :: string where
  "LAST_VERSION = ''0.1a''"

definition tf_new :: factory where
  "tf_new = \<lparr>tf_profile = None, tf_protocol = NO_PROTOCOL, tf_creators = [], tf_sendingType = []\<rparr>"

definition tf_clear :: "factory \<Rightarrow> factory" where
  "tf_clear f = f\<lparr>tf_protocol := NO_PROTOCOL, tf_creators := [], tf_sendingType := []\<rparr>"

definition tf_setProfile :: "profile option \<Rightarrow> factory \<Rightarrow> factory" where
  "tf_setProfile p f = f\<lparr>tf_profile := p\<rparr>"

definition tf_destroy :: "factory \<Rightarrow> factory" where
  "tf_destroy f = tf_setProfile None (tf_clear f)"

definition tf_type :: "factory \<Rightarrow> string \<Rightarrow> int result" where
  "tf_type f name =
     (if tf_profile f = None then
        Inl (Throw (VersionException ''No Profile set for TransferableFactory''))
      else if tf_protocol f = NO_PROTOCOL then
        Inl (Throw (VersionException ''No protocol stablished''))
      else (case mp_find (tf_sendingType f) name of
              None \<Rightarrow> Inl (Throw (VersionException ''Sending type not found''))
            | Some t \<Rightarrow> Inr t))"

definition tf_creator :: "factory \<Rightarrow> int \<Rightarrow> dclass result" where
  "tf_creator f creatorType =
     (if tf_profile f = None then
        Inl (Throw (VersionException ''No Profile set for TransferableFactory''))
      else if tf_protocol f = NO_PROTOCOL then
        Inl (Throw (VersionException ''No protocol stablished''))
      else (case mp_find (tf_creators f) creatorType of
              Some c \<Rightarrow> Inr c
            | None \<Rightarrow> Inl (Throw (VersionException ''Creator not found''))))"

text \<open>Both \<open>Datagram::type\<close> and \<open>Creator::type\<close> ask the factory for the sending type.\<close>

definition dg_type :: "factory \<Rightarrow> dclass \<Rightarrow> int result" where
  "dg_type f cls = tf_type f (dc_name cls)"

definition creator_type :: "factory \<Rightarrow> dclass \<Rightarrow> int result" where
  "creator_type f cls = tf_type f (dc_name cls)"

definition tf_addCreator :: "dclass \<Rightarrow> factory \<Rightarrow> factory \<times> unit result" where
  "tf_addCreator c f =
     (case creator_type f c of
        Inl e \<Rightarrow> (f, Inl e)
      | Inr t \<Rightarrow>
          (if mp_find (tf_creators f) t \<noteq> None
           then (f\<lparr>tf_creators := mp_insert t c (tf_creators f)\<rparr>, Inr ())
           else (f, Inl (Throw (VersionException ''Creator already in factory'')))))"

text \<open>
  The handler of a version exception calls \<open>setProtocol(NULL)\<close>, which constructs a
  \<open>std::string\<close> from a null pointer and throws \<open>std::logic_error\<close>; no profile throws there, so
  the branch is never taken.
\<close>

definition tf_setProtocol :: "string \<Rightarrow> factory \<Rightarrow> factory \<times> unit result" where
  "tf_setProtocol version f =
     (let f1 = tf_clear f in
      case tf_profile f1 of
        None \<Rightarrow> (f1, Inl (Throw (VersionException ''No Profile set for TransferableFactory'')))
      | Some p \<Rightarrow>
          (if version \<noteq> NO_PROTOCOL then
             (case bindR (getCreators p version)
                     (\<lambda>cs. bindR (getCreatorIds p version) (\<lambda>ids. Inr (cs, ids))) of
                Inl (Throw (VersionException m)) \<Rightarrow> (tf_clear f1, Inl (Throw LogicError))
              | Inl e \<Rightarrow> (f1, Inl e)
              | Inr (cs, ids) \<Rightarrow>
                  (f1\<lparr>tf_creators := mp_insert_all cs (tf_creators f1),
                      tf_sendingType := mp_insert_all ids (tf_sendingType f1),
                      tf_protocol := version\<rparr>, Inr ()))
           else (f1, Inr ())))"

definition tf_setLatestVersion :: "factory \<Rightarrow> factory \<times> unit result" where
  "tf_setLatestVersion f = tf_setProtocol LAST_VERSION f"

definition tf_getProtocol :: "factory \<Rightarrow> string" where
  "tf_getProtocol f = tf_protocol f"

section \<open>What the factory guarantees\<close>

lemmas factory_defs = tf_setProtocol_def tf_clear_def getCreators_def getCreatorIds_def Let_def

lemma setProtocol_result:
  "tf_profile f = Some p \<Longrightarrow> v \<noteq> NO_PROTOCOL \<Longrightarrow>
   tf_setProtocol v f =
     (\<lparr>tf_profile = Some p, tf_protocol = v, tf_creators = mp_insert_all (pf_creators p) [],
       tf_sendingType = mp_insert_all (pf_ids p) []\<rparr>, Inr ())"
  by (simp add: factory_defs)

lemma creator_after_setProtocol:
  assumes "tf_profile f = Some p" and "v \<noteq> NO_PROTOCOL"
  shows "tf_creator (fst (tf_setProtocol v f)) i =
    (case map_of (pf_creators p) i of Some c \<Rightarrow> Inr c
     | None \<Rightarrow> Inl (Throw (VersionException ''Creator not found'')))"
  using assms by (simp add: setProtocol_result tf_creator_def mp_find_insert_all)

lemma type_after_setProtocol:
  assumes "tf_profile f = Some p" and "v \<noteq> NO_PROTOCOL"
  shows "tf_type (fst (tf_setProtocol v f)) n =
    (case map_of (pf_ids p) n of Some t \<Rightarrow> Inr t
     | None \<Rightarrow> Inl (Throw (VersionException ''Sending type not found'')))"
  using assms by (simp add: setProtocol_result tf_type_def mp_find_insert_all)

definition factory_ready :: "profile \<Rightarrow> factory \<Rightarrow> bool" where
  "factory_ready p f \<longleftrightarrow> tf_profile f = Some p \<and> tf_protocol f \<noteq> NO_PROTOCOL \<and>
     tf_creators f = mp_insert_all (pf_creators p) [] \<and>
     tf_sendingType f = mp_insert_all (pf_ids p) []"

lemma factory_ready_setProtocol:
  "tf_profile f = Some p \<Longrightarrow> v \<noteq> NO_PROTOCOL \<Longrightarrow> factory_ready p (fst (tf_setProtocol v f))"
  by (simp add: setProtocol_result factory_ready_def)

lemma factory_ready_creator:
  "factory_ready p f \<Longrightarrow> tf_creator f i =
    (case map_of (pf_creators p) i of Some c \<Rightarrow> Inr c
     | None \<Rightarrow> Inl (Throw (VersionException ''Creator not found'')))"
  by (simp add: factory_ready_def tf_creator_def mp_find_insert_all)

lemma factory_ready_type:
  "factory_ready p f \<Longrightarrow> tf_type f n =
    (case map_of (pf_ids p) n of Some t \<Rightarrow> Inr t
     | None \<Rightarrow> Inl (Throw (VersionException ''Sending type not found'')))"
  by (simp add: factory_ready_def tf_type_def mp_find_insert_all)

lemma addCreator_same: "fst (tf_addCreator c f) = f"
proof (cases "creator_type f c")
  case (Inl e)
  then show ?thesis by (simp add: tf_addCreator_def)
next
  case (Inr t)
  then show ?thesis
    by (cases "mp_find (tf_creators f) t") (simp_all add: tf_addCreator_def mp_insert_def)
qed

end
