(* ===== verification/Connection.thy ===== *)
theory Connection
  imports Transferable
begin

text \<open>
  What both connection classes share (conexion/include/Connection.h): operations that may
  block, the events a connection causes outside itself, an outgoing message, and the way a
  received header is turned into the creator of the instruction it announces.
\<close>

section \<open>Operations that may block\<close>

datatype 'a io = Pending | Fails fault | Ret 'a

definition bindIO :: "'a io \<Rightarrow> ('a \<Rightarrow> 'b io) \<Rightarrow> 'b io" where
  "bindIO m f = (case m of Pending \<Rightarrow> Pending | Fails e \<Rightarrow> Fails e | Ret x \<Rightarrow> f x)"

lemma bindIO_simps [simp]:
  "bindIO Pending f = Pending"
  "bindIO (Fails e) f = Fails e"
  "bindIO (Ret x) f = f x"
  by (simp_all add: bindIO_def)

lemma bindIO_eq_Ret: "bindIO m f = Ret y \<longleftrightarrow> (\<exists>x. m = Ret x \<and> f x = Ret y)"
  by (cases m) auto

section \<open>Events and messages\<close>

datatype conn_event = CallOnClose | JoinListen | StartListen

text \<open>
  An outgoing message is what its virtual methods return: its class (for \<open>type()\<close>) and
  the \<open>size()\<close> bytes from \<open>transferableObject()\<close> on.
\<close>

record message =
  ms_class :: dclass
  ms_bytes :: "byte list"

definition INT_MAX :: nat where
  "INT_MAX = 2147483647"

section \<open>From a header to a creator\<close>

datatype recv_outcome = RecvClosed | RecvDone | RecvThrew exn

text \<open>The header is decoded, the factory is switched to the received protocol and asked
  for the creator; a version exception becomes a \<open>ConnectionException\<close>.\<close>

definition lookup_creator :: "byte list \<Rightarrow> int \<Rightarrow> factory \<Rightarrow> factory \<times> dclass result" where
  "lookup_creator protocol instruction f =
     (case read_cstr protocol of
        Inl e \<Rightarrow> (f, Inl e)
      | Inr v \<Rightarrow>
          (case tf_setProtocol v f of
             (f1, Inl e) \<Rightarrow> (f1, Inl e)
           | (f1, Inr u) \<Rightarrow> (f1, tf_creator f1 instruction)))"

definition lift_result :: "'a result \<Rightarrow> 'a io" where
  "lift_result m = (case m of Inl e \<Rightarrow> Fails e | Inr x \<Rightarrow> Ret x)"

lemma lift_result_simps [simp]:
  "lift_result (Inl e) = Fails e"
  "lift_result (Inr x) = Ret x"
  by (simp_all add: lift_result_def)

section \<open>Header fields\<close>

lemma sint_of_int32: "- (2 ^ 31) \<le> i \<Longrightarrow> i < 2 ^ 31 \<Longrightarrow> sint (of_int i :: 32 word) = i"
  by (simp add: signed_take_bit_int_eq_self signed_of_int)

lemma sint_of_nat32: "n < 2 ^ 31 \<Longrightarrow> sint (of_nat n :: 32 word) = int n"
  using sint_of_int32 [of "int n"] by simp

definition field_ok :: "byte list \<Rightarrow> string \<Rightarrow> bool" where
  "field_ok behind v \<longleftrightarrow> nul_free v \<and> length v < 8 \<and> 7 \<le> length v + length behind"

lemma length_protocol_field: "field_ok behind v \<Longrightarrow> length (cstr_field 8 behind v) = 8"
  by (simp add: length_cstr_field field_ok_def)

lemma lookup_creator_field:
  assumes "field_ok behind v" and "tf_profile f = Some p" and "v \<noteq> NO_PROTOCOL"
  shows "lookup_creator (cstr_field 8 behind v) i f =
    (fst (tf_setProtocol v f),
     case map_of (pf_creators p) i of Some c \<Rightarrow> Inr c
     | None \<Rightarrow> Inl (Throw (VersionException ''Creator not found'')))"
proof -
  have "read_cstr (cstr_field 8 behind v) = Inr v"
    using read_cstr_field [of v 8 behind "[]"] assms(1) by (simp add: field_ok_def)
  then show ?thesis
    using assms creator_after_setProtocol [OF assms(2,3), of i] setProtocol_result [OF assms(2,3)]
    by (simp add: lookup_creator_def)
qed

end
