(* ===== verification/Tcp_Plain.thy ===== *)
theory Tcp_Plain
  imports Connection
begin

text \<open>
  \<open>TCPConnection\<close> (conexion/source/TCPConnection.cpp), the unencrypted connection over an
  OpenSSL BIO. As in the TLS class the environment's answers are lists in the state: each
  \<open>BIO_write\<close> and \<open>BIO_do_connect\<close> gives its return value and what \<open>BIO_should_retry\<close> says
  then, each \<open>BIO_read\<close> also the bytes it stored at the start of the buffer.

  \<open>receiveTransfThread\<close> keeps the result of \<open>BIO_read\<close>, an \<open>int\<close>, in a \<open>size_t\<close>; the
  model keeps it in a \<open>64 word\<close>, on which \<open><\<close> is the unsigned comparison.
\<close>

record tcp =
  tp_sbio :: bool
  tp_online :: bool
  tp_listen :: bool
  tp_port :: string
  tp_callback :: "nat option"
  tp_closed :: "nat option"
  tp_reads :: "(int \<times> byte list \<times> bool) list"
  tp_writes :: "(int \<times> bool) list"
  tp_sent :: "byte list"
  tp_delivered :: "(nat option \<times> dclass \<times> fval list) list"
  tp_events :: "conn_event list"

definition tcp_isLinkOnline :: "tcp \<Rightarrow> bool" where
  "tcp_isLinkOnline s = tp_online s"

definition tcp_setLinkOnline :: "bool \<Rightarrow> tcp \<Rightarrow> tcp" where
  "tcp_setLinkOnline b s = s\<lparr>tp_online := b\<rparr>"

definition tcp_getPort :: "tcp \<Rightarrow> string" where
  "tcp_getPort s = tp_port s"

definition tcp_base :: "tcp \<Rightarrow> tcp" where
  "tcp_base raw = raw\<lparr>tp_callback := None, tp_port := '''', tp_sent := [], tp_delivered := [],
     tp_events := []\<rparr>"

definition tcp_new :: "tcp \<Rightarrow> tcp" where
  "tcp_new raw = tcp_setLinkOnline False
     ((tcp_base raw)\<lparr>tp_listen := False, tp_sbio := False, tp_closed := None\<rparr>)"

definition tcp_new_accepted :: "bool \<Rightarrow> string \<Rightarrow> tcp \<Rightarrow> tcp" where
  "tcp_new_accepted b port raw = tcp_setLinkOnline True
     ((tcp_base raw)\<lparr>tp_sbio := b, tp_listen := False, tp_port := port, tp_closed := None\<rparr>)"

definition tcp_close :: "bool \<Rightarrow> tcp \<Rightarrow> tcp" where
  "tcp_close threadListen s =
     (let s1 = tcp_setLinkOnline False s in
      if tp_sbio s1 then
        let s2 = (if \<not> threadListen \<and> tp_listen s1
                  then s1\<lparr>tp_events := tp_events s1 @ [JoinListen]\<rparr> else s1);
            s3 = s2\<lparr>tp_listen := False\<rparr>;
            s4 = (if tp_closed s3 \<noteq> None
                  then s3\<lparr>tp_events := tp_events s3 @ [CallOnClose]\<rparr> else s3)
        in s4\<lparr>tp_sbio := False\<rparr>
      else s1)"

definition tcp_close_public :: "tcp \<Rightarrow> tcp" where
  "tcp_close_public s = tcp_close False s"

definition tcp_destroy :: "tcp \<Rightarrow> tcp" where
  "tcp_destroy s = (if tcp_isLinkOnline s then tcp_close False s else s)"

definition tcp_receive :: "tcp \<Rightarrow> tcp" where
  "tcp_receive s =
     (if \<not> tp_listen s then s\<lparr>tp_listen := True, tp_events := tp_events s @ [StartListen]\<rparr> else s)"

section \<open>Connecting\<close>

fun tcp_connect_loop :: "tcp \<Rightarrow> (int \<times> bool) list \<Rightarrow> (tcp \<times> bool) io" where
  "tcp_connect_loop s [] = Pending"
| "tcp_connect_loop s ((r, should_retry) # rs) =
     (if r \<noteq> 1 then
        (if should_retry then tcp_connect_loop s rs
         else Ret (tcp_close False s, False))
      else Ret (tcp_receive (tcp_setLinkOnline True s), True))"

definition tcp_connect :: "bool \<Rightarrow> (int \<times> bool) list \<Rightarrow> string \<Rightarrow> tcp \<Rightarrow> (tcp \<times> bool) io" where
  "tcp_connect bio_new rs port s =
     (let s1 = (if tp_sbio s then tcp_close_public s else s);
          s2 = s1\<lparr>tp_port := port, tp_sbio := bio_new\<rparr> in
      if \<not> tp_sbio s2 then Ret (tcp_close False s2, False)
      else tcp_connect_loop s2 rs)"

section \<open>Sending\<close>

definition tcp_packet :: "byte list \<Rightarrow> string \<Rightarrow> int \<Rightarrow> byte list \<Rightarrow> byte list" where
  "tcp_packet behind protocol type payload =
     size_bytes (of_nat (length payload)) @ cstr_field 8 behind protocol @
     int_bytes (of_int type) @ payload"

text \<open>The whole packet is offered to each \<open>BIO_write\<close>; a short write closes the link.\<close>

fun tcp_write_loop :: "bool \<Rightarrow> byte list \<Rightarrow> tcp \<Rightarrow> (int \<times> bool) list \<Rightarrow> tcp io" where
  "tcp_write_loop thread packet s [] =
     (if \<not> tcp_isLinkOnline s
      then (if packet = [] then Ret s else Ret (tcp_close thread s)) else Pending)"
| "tcp_write_loop thread packet s ((r, should_retry) # ws) =
     (if \<not> tcp_isLinkOnline s
      then (if packet = [] then Ret s else Ret (tcp_close thread s))
      else let s1 = s\<lparr>tp_writes := ws, tp_sent := tp_sent s @ take (nat r) packet\<rparr> in
        if r = int (length packet) then Ret s1
        else if r = 0 then Ret (tcp_close thread s1)
        else if r < 0 then
          (if \<not> should_retry then Ret (tcp_close thread s1)
           else tcp_write_loop thread packet s1 ws)
        else Ret (tcp_close thread s1))"

definition tcp_send_body :: "bool \<Rightarrow> byte list \<Rightarrow> factory \<Rightarrow> message \<Rightarrow> tcp \<Rightarrow> tcp io" where
  "tcp_send_body thread behind f m s =
     (let protocol = tf_getProtocol f in
      if 8 < length protocol then Ret s
      else (case dg_type f (ms_class m) of
              Inl e \<Rightarrow> Ret s
            | Inr type \<Rightarrow>
                tcp_write_loop thread (tcp_packet behind protocol type (ms_bytes m)) s
                  (tp_writes s)))"

definition tcp_send :: "byte list \<Rightarrow> factory \<Rightarrow> message \<Rightarrow> tcp \<Rightarrow> tcp io" where
  "tcp_send behind f m s = tcp_send_body False behind f m s"

definition tcp_sendAnswer :: "byte list \<Rightarrow> factory \<Rightarrow> message \<Rightarrow> tcp \<Rightarrow> tcp io" where
  "tcp_sendAnswer behind f m s = tcp_send_body True behind f m s"

section \<open>Receiving\<close>

text \<open>\<open>None\<close>: the loop closed the link. Every pass reads into the start of the buffer.\<close>

fun tcp_read_loop ::
    "nat \<Rightarrow> tcp \<Rightarrow> (int \<times> byte list \<times> bool) list \<Rightarrow> (tcp \<times> byte list option) io" where
  "tcp_read_loop len s [] =
     (if \<not> tcp_isLinkOnline s
      then (if len = 0 then Ret (s, Some []) else Ret (tcp_close True s, None)) else Pending)"
| "tcp_read_loop len s ((ret, bs, should_retry) # rs) =
     (if \<not> tcp_isLinkOnline s
      then (if len = 0 then Ret (s, Some []) else Ret (tcp_close True s, None))
      else let s1 = s\<lparr>tp_reads := rs\<rparr>; r = (of_int ret :: 64 word) in
        if r = of_nat len then Ret (s1, Some (take len bs))
        else if r = 0 then Ret (tcp_close True s1, None)
        else if r < 0 \<and> \<not> should_retry then Ret (tcp_close True s1, None)
        else tcp_read_loop len s1 rs)"

definition tcp_deliver :: "nat \<Rightarrow> dclass \<Rightarrow> byte list \<Rightarrow> tcp \<Rightarrow> tcp result" where
  "tcp_deliver base cls buf s =
     bindR (creator_create base cls buf)
       (\<lambda>t. Inr (s\<lparr>tp_delivered := tp_delivered s @ [(tp_callback s, t)]\<rparr>))"

text \<open>\<open>stack\<close> is the room for the body's variable-length array.\<close>

definition tcp_receiveTransfThread ::
    "nat \<Rightarrow> nat \<Rightarrow> tcp \<times> factory \<Rightarrow> ((tcp \<times> factory) \<times> recv_outcome) io" where
  "tcp_receiveTransfThread stack base sf =
     (let (s, f) = sf in
      bindIO (tcp_read_loop 20 s (tp_reads s))
        (\<lambda>(s1, hdr). case hdr of
           None \<Rightarrow> Ret ((s1, f), RecvClosed)
         | Some h \<Rightarrow>
             (let sizeMessage = unat (bytes_size (take 8 h));
                  protocol = take 8 (drop 8 h);
                  instruction = sint (bytes_int (drop 16 h)) in
              case lookup_creator protocol instruction f of
                (f1, Inl (Throw (VersionException m))) \<Rightarrow>
                  Ret ((s1, f1), RecvThrew (ConnException m))
              | (f1, Inl e) \<Rightarrow> Fails e
              | (f1, Inr c) \<Rightarrow>
                  (if stack < sizeMessage then Fails (UB OutOfBounds)
                   else bindIO (tcp_read_loop sizeMessage s1 (tp_reads s1))
                     (\<lambda>(s2, body). case body of
                        None \<Rightarrow> Ret ((s2, f1), RecvClosed)
                      | Some b \<Rightarrow>
                          bindIO (lift_result (tcp_deliver base c b s2))
                            (\<lambda>s3. Ret ((s3, f1), RecvDone)))))))"

fun tcp_receiveThread :: "nat \<Rightarrow> nat \<Rightarrow> nat \<Rightarrow> tcp \<times> factory \<Rightarrow> (tcp \<times> factory) io" where
  "tcp_receiveThread stack base 0 sf = (if tcp_isLinkOnline (fst sf) then Pending else Ret sf)"
| "tcp_receiveThread stack base (Suc fuel) sf =
     (if tcp_isLinkOnline (fst sf)
      then bindIO (tcp_receiveTransfThread stack base sf)
             (\<lambda>(sf', r). tcp_receiveThread stack base fuel sf')
      else Ret sf)"

section \<open>Lemmas\<close>

lemmas tcp_close_defs = tcp_close_def tcp_setLinkOnline_def tcp_isLinkOnline_def

lemma tcp_close_result [simp]:
  "\<not> tp_online (tcp_close th s)" "\<not> tp_sbio (tcp_close th s)"
  "tp_sent (tcp_close th s) = tp_sent s" "tp_delivered (tcp_close th s) = tp_delivered s"
  by (simp_all add: tcp_close_defs Let_def)

lemma tcp_read_whole:
  "tp_online s \<Longrightarrow> length bs = n \<Longrightarrow> n < 2 ^ 31 \<Longrightarrow>
   tcp_read_loop n s ((int n, bs, q) # rs) = Ret (s\<lparr>tp_reads := rs\<rparr>, Some bs)"
  by (simp add: tcp_isLinkOnline_def)

lemma of_int_64_eq:
  "- (2 ^ 63) \<le> i \<Longrightarrow> i < 2 ^ 63 \<Longrightarrow> - (2 ^ 63) \<le> j \<Longrightarrow> j < 2 ^ 63 \<Longrightarrow>
   (of_int i :: 64 word) = of_int j \<longleftrightarrow> i = j"
proof
  assume b: "- (2 ^ 63) \<le> i" "i < 2 ^ 63" "- (2 ^ 63) \<le> j" "j < 2 ^ 63"
    and eq: "(of_int i :: 64 word) = of_int j"
  from b have "sint (of_int i :: 64 word) = i" and "sint (of_int j :: 64 word) = j"
    by (simp_all add: signed_of_int signed_take_bit_int_eq_self)
  with eq show "i = j" by metis
qed simp

text \<open>An answer that is neither the whole length nor the end of the stream.\<close>

definition short_read :: "nat \<Rightarrow> int \<times> byte list \<times> bool \<Rightarrow> bool" where
  "short_read len e = (fst e \<noteq> int len \<and> fst e \<noteq> 0 \<and> - (2 ^ 31) \<le> fst e \<and> fst e < 2 ^ 31)"

lemma tcp_read_loop_reads [simp]:
  "tp_online s \<Longrightarrow> tcp_read_loop len (s\<lparr>tp_reads := x\<rparr>) rs = tcp_read_loop len s rs"
  by (cases rs) (auto simp: tcp_isLinkOnline_def Let_def)

lemma tcp_read_loop_short:
  "tp_online s \<Longrightarrow> len < 2 ^ 31 \<Longrightarrow> \<forall>e\<in>set es. short_read len e \<Longrightarrow>
   tcp_read_loop len s (es @ rs) = tcp_read_loop len s rs"
proof (induction es)
  case Nil
  then show ?case by simp
next
  case (Cons e es)
  obtain ret bs q where e: "e = (ret, bs, q)" by (cases e) auto
  from Cons.prems(3) e have ret: "ret \<noteq> int len" "ret \<noteq> 0" "- (2 ^ 31) \<le> ret" "ret < 2 ^ 31"
    by (simp_all add: short_read_def)
  have "(of_int ret :: 64 word) \<noteq> of_int (int len)" and "(of_int ret :: 64 word) \<noteq> of_int 0"
    using ret Cons.prems(2) by (subst of_int_64_eq; simp)+
  then have "tcp_read_loop len s ((e # es) @ rs) = tcp_read_loop len s (es @ rs)"
    using Cons.prems(1) e by (simp add: tcp_isLinkOnline_def)
  with Cons show ?case by simp
qed

lemma tcp_packet_parts:
  assumes "field_ok behind v"
  shows "length (tcp_packet behind v t payload) = 20 + length payload"
  using assms by (simp add: tcp_packet_def length_protocol_field)

lemma tcp_write_loop_outcome:
  "tcp_write_loop th packet s ws = Ret s' \<Longrightarrow> packet \<noteq> [] \<Longrightarrow>
   (tp_online s' \<and> tp_sent s' = tp_sent s @ packet) \<or>
   (\<not> tp_online s' \<and> (\<exists>k. tp_sent s' = tp_sent s @ take k packet))"
proof (induction th packet s ws rule: tcp_write_loop.induct)
  case (1 th packet s)
  then show ?case by (auto split: if_splits intro: exI [of _ 0])
next
  case (2 th packet s r q ws)
  let ?s = "s\<lparr>tp_writes := ws, tp_sent := tp_sent s @ take (nat r) packet\<rparr>"
  show ?case
  proof (cases "tp_online s \<and> r < 0 \<and> q")
    case True
    then have "tcp_write_loop th packet ?s ws = Ret s'"
      using "2.prems" by (simp add: tcp_isLinkOnline_def split: if_splits)
    with "2.IH" [of ?s] True "2.prems"(2) show ?thesis
      by (auto simp: tcp_isLinkOnline_def)
  next
    case False
    with "2.prems" show ?thesis
      by (auto simp: tcp_isLinkOnline_def Let_def intro: exI [of _ 0] split: if_splits)
  qed
qed

section \<open>Properties\<close>

text \<open>Fragments are not put together: while the link is up, a \<open>BIO_read\<close> that returns
  anything but the whole length or 0 (a fragment of the packet, or an error, retryable or
  not) has no effect on what the receive loop returns, so any number of them before the
  remaining answers is as if they had not happened; a header or body that arrives in pieces
  is lost and a failing socket is polled for ever.\<close>

lemma tcp_read_loop_drops_fragments:
  assumes "tp_online s" and "len < 2 ^ 31" and "\<forall>e\<in>set es. short_read len e"
  shows "tcp_read_loop len s (es @ rs) = tcp_read_loop len s rs \<and>
    tcp_read_loop len s es = Pending"
  using tcp_read_loop_short [OF assms, of rs] tcp_read_loop_short [OF assms, of "[]"] assms(1)
  by (simp add: tcp_isLinkOnline_def)

definition ex_tcp :: tcp where
  "ex_tcp = \<lparr>tp_sbio = True, tp_online = True, tp_listen = True, tp_port = ''3455'',
     tp_callback = None, tp_closed = Some 1, tp_reads = [], tp_writes = [], tp_sent = [],
     tp_delivered = [], tp_events = []\<rparr>"

lemma tcp_read_loop_drops_fragments_example:
  "tcp_read_loop 4 ex_tcp [(2, [1, 2], False), (2, [3, 4], False), (-1, [], False)] = Pending"
  by (rule tcp_read_loop_drops_fragments [THEN conjunct2])
     (simp_all add: ex_tcp_def short_read_def)

text \<open>A packet that one \<open>BIO_read\<close> returns whole, header and then body, is delivered with
  the sender's field values: the plain connection's framing (\<open>size_t\<close> length, eight protocol
  bytes, \<open>int\<close> number) is inverted by its receiver.\<close>

lemma tcp_receive_whole_packet:
  assumes "tp_online s" and "field_ok behind v" and "v \<noteq> NO_PROTOCOL" and "tf_profile f = Some p"
    and "- (2 ^ 31) \<le> t" and "t < 2 ^ 31" and "0 < length payload"
    and "length payload < 2 ^ 31" and "length payload \<le> stack"
    and "map_of (pf_creators p) t = Some cls"
    and "map val_type vals = dc_fields cls" and "payload = fimage pad vals @ trailing"
    and "tcp_packet behind v t payload = header @ payload"
    and "tp_reads s = (20, header, q) # (int (length payload), payload, q') # rs"
  shows "tcp_receiveTransfThread stack base (s, f) =
    Ret ((s\<lparr>tp_reads := rs, tp_delivered := tp_delivered s @ [(tp_callback s, cls, vals)]\<rparr>,
          fst (tf_setProtocol v f)), RecvDone)"
proof -
  have header: "header = size_bytes (of_nat (length payload)) @ cstr_field 8 behind v @
      int_bytes (of_int t)"
    using assms(13) by (simp add: tcp_packet_def)
  then have "length header = 20" using assms(2) by (simp add: length_protocol_field)
  then have h: "tcp_read_loop 20 s (tp_reads s) =
      Ret (s\<lparr>tp_reads := (int (length payload), payload, q') # rs\<rparr>, Some header)"
    using tcp_read_whole [of s header 20 q "(int (length payload), payload, q') # rs"] assms(1,14)
    by simp
  have b: "tcp_read_loop (length payload) s' ((int (length payload), payload, q') # rs) =
      Ret (s'\<lparr>tp_reads := rs\<rparr>, Some payload)" if "tp_online s'" for s'
    using tcp_read_whole [of s' payload "length payload" q' rs] that assms(8) by simp
  have size: "unat (of_nat (length payload) :: 64 word) = length payload"
    using assms(8) by (simp add: unat_of_nat)
  have create: "creator_create base cls payload = Inr (cls, vals)"
    using creator_create_fimage [OF assms(11)] assms(12) by simp
  show ?thesis
    using assms(1-9,10) h b size create
    by (simp add: tcp_receiveTransfThread_def Let_def header length_protocol_field sint_of_int32
        lookup_creator_field tcp_deliver_def del: tcp_read_loop.simps)
qed

definition ex_tcp_profile :: profile where
  "ex_tcp_profile = \<lparr>pf_creators = [(7, \<lparr>dc_name = ''X'', dc_fields = [FInt], dc_exec = True\<rparr>)],
     pf_ids = []\<rparr>"

lemma tcp_receive_whole_packet_example:
  defines "pl \<equiv> fimage (\<lambda>_. 0) [VInt 6]"
  defines "h \<equiv> size_bytes (of_nat (length pl)) @ cstr_field 8 [0, 0, 0] ''0.1a'' @ int_bytes (of_int 7)"
  shows "\<exists>s' f'. tcp_receiveTransfThread 100 24
      (ex_tcp\<lparr>tp_reads := [(20, h, True), (8, pl, True)]\<rparr>, tf_setProfile (Some ex_tcp_profile) tf_new) =
      Ret ((s', f'), RecvDone) \<and>
    map (\<lambda>(_, _, vals). vals) (tp_delivered s') = [[VInt 6]]"
proof -
  have len: "length pl = 8"
    using length_fimage [of "\<lambda>_. 0" "[VInt 6]"] by (simp add: pl_def fields_size_def Let_def pad_to_def)
  let ?s = "ex_tcp\<lparr>tp_reads := [(20, h, True), (int (length pl), pl, True)]\<rparr>"
  let ?f = "tf_setProfile (Some ex_tcp_profile) tf_new"
  let ?c = "\<lparr>dc_name = ''X'', dc_fields = [FInt], dc_exec = True\<rparr>"
  have "tcp_receiveTransfThread 100 24 (?s, ?f) =
      Ret ((?s\<lparr>tp_reads := [], tp_delivered := tp_delivered ?s @ [(tp_callback ?s, ?c, [VInt 6])]\<rparr>,
            fst (tf_setProtocol ''0.1a'' ?f)), RecvDone)"
  proof (rule tcp_receive_whole_packet [where behind = "[0, 0, 0]" and v = "''0.1a''" and t = 7
        and p = ex_tcp_profile and payload = pl and header = h and pad = "\<lambda>_. 0" and trailing = "[]"
        and q = True and q' = True])
    show "field_ok [0, 0, 0] ''0.1a''" by (simp add: field_ok_def nul_free_def)
    show "tcp_packet [0, 0, 0] ''0.1a'' 7 pl = h @ pl" by (simp add: tcp_packet_def h_def)
  qed (simp_all add: ex_tcp_def ex_tcp_profile_def tf_setProfile_def NO_PROTOCOL_def len,
       simp add: pl_def)
  then show ?thesis by (simp add: len ex_tcp_def del: tcp_receiveThread.simps)
qed

text \<open>A plain send either offers the whole packet to the socket in one write and keeps the
  link, or ends with the link closed, having written at most a prefix in the last try.\<close>

lemma tcp_send_outcome:
  assumes "factory_ready p f" and "field_ok behind (tf_protocol f)"
    and "map_of (pf_ids p) (dc_name (ms_class m)) = Some t"
    and "tcp_send behind f m s = Ret s'"
  shows "(tp_online s' \<and> tp_sent s' = tp_sent s @ tcp_packet behind (tf_protocol f) t (ms_bytes m)) \<or>
    (\<not> tp_online s' \<and> (\<exists>k. tp_sent s' = tp_sent s @ take k (tcp_packet behind (tf_protocol f) t (ms_bytes m))))"
proof -
  let ?p = "tcp_packet behind (tf_protocol f) t (ms_bytes m)"
  have "?p \<noteq> []" using tcp_packet_parts [OF assms(2), of t "ms_bytes m"] by auto
  moreover have "tcp_write_loop False ?p s (tp_writes s) = Ret s'"
    using assms by (simp add: tcp_send_def tcp_send_body_def tf_getProtocol_def dg_type_def
        factory_ready_type field_ok_def Let_def)
  ultimately show ?thesis using tcp_write_loop_outcome by blast
qed

lemma tcp_send_outcome_example:
  defines "f \<equiv> fst (tf_setProtocol ''0.1a'' (tf_setProfile
      (Some \<lparr>pf_creators = [], pf_ids = [(''X'', 7)]\<rparr>) tf_new))"
  defines "m \<equiv> \<lparr>ms_class = \<lparr>dc_name = ''X'', dc_fields = [], dc_exec = False\<rparr>, ms_bytes = [5]\<rparr>"
  shows "\<exists>s'. tcp_send [0, 0, 0] f m (ex_tcp\<lparr>tp_writes := [(-1, True), (21, False)]\<rparr>) = Ret s' \<and>
    ((tp_online s' \<and> tp_sent s' = tcp_packet [0, 0, 0] ''0.1a'' 7 [5]) \<or> \<not> tp_online s')"
proof -
  let ?p = "\<lparr>pf_creators = [], pf_ids = [(''X'', 7)]\<rparr>"
  let ?s = "ex_tcp\<lparr>tp_writes := [(-1, True), (21, False)]\<rparr>"
  have ready: "factory_ready ?p f"
    by (simp add: f_def factory_ready_setProtocol tf_setProfile_def NO_PROTOCOL_def)
  have proto: "tf_protocol f = ''0.1a''"
    by (simp add: f_def setProtocol_result [of _ ?p] tf_setProfile_def NO_PROTOCOL_def)
  have field: "field_ok [0, 0, 0] (tf_protocol f)" by (simp add: proto field_ok_def nul_free_def)
  have t: "map_of (pf_ids ?p) (dc_name (ms_class m)) = Some 7" by (simp add: m_def)
  have "length (tcp_packet [0, 0, 0] ''0.1a'' 7 [5]) = 21"
    using tcp_packet_parts [OF field, of 7 "[5]"] by (simp add: proto)
  then obtain s' where "tcp_send [0, 0, 0] f m ?s = Ret s'"
    using ready t by (simp add: tcp_send_def tcp_send_body_def tf_getProtocol_def dg_type_def
        factory_ready_type proto ex_tcp_def m_def tcp_isLinkOnline_def)
  with tcp_send_outcome [OF ready field t this] show ?thesis
    by (auto simp: proto m_def ex_tcp_def)
qed

end
