(* ===== verification/Tcp_Secure.thy ===== *)
theory Tcp_Secure
  imports Connection
begin

text \<open>
  \<open>TCPConnectionSecurity\<close> (conexion/source/TCPConnectionSecurity.cpp), the TLS connection
  every server and the client talk over. The OpenSSL calls are the environment: what the
  next calls of \<open>SSL_read\<close>, \<open>SSL_write\<close> and \<open>SSL_shutdown\<close> return is part of the state
  (\<open>ts_reads\<close>, \<open>ts_writes\<close>, \<open>ts_shuts\<close>), what they were given is recorded in \<open>ts_sent\<close>,
  and the results of the set-up calls are arguments. A call whose answer has not come
  blocks: the operation is \<open>Pending\<close>.

  The mutexes serialise whole operations, so an operation is one step here; which thread
  runs it matters only for \<open>close\<close>, whose argument says that the listening thread itself
  closes. Console output is left out.
\<close>

section \<open>State\<close>

text \<open>\<open>SSL_read(ssl, p, 1)\<close> with \<open>SSL_get_error\<close>: one byte, or one of the error classes the
  code distinguishes; \<open>SSL_write(ssl, p, 1)\<close> likewise, with the case of a success that
  reports another count than 1.\<close>

datatype ssl_read = RByte byte | RZeroReturn | RSyscall | RProblem

datatype ssl_write = WOne | WIncomplete | WProblem

record tcps =
  ts_ssl :: bool
  ts_online :: bool
  ts_listen :: bool
  ts_port :: string
  ts_callback :: "nat option"
  ts_closed :: "nat option"
  ts_reads :: "ssl_read list"
  ts_writes :: "ssl_write list"
  ts_shuts :: "int list"
  ts_sent :: "byte list"
  ts_delivered :: "(nat option \<times> dclass \<times> fval list) list"
  ts_events :: "conn_event list"

definition tcps_isLinkOnline :: "tcps \<Rightarrow> bool" where
  "tcps_isLinkOnline s = ts_online s"

definition tcps_setLinkOnline :: "bool \<Rightarrow> tcps \<Rightarrow> tcps" where
  "tcps_setLinkOnline b s = s\<lparr>ts_online := b\<rparr>"

definition tcps_getPort :: "tcps \<Rightarrow> string" where
  "tcps_getPort s = ts_port s"

definition conn_setCallbackFunction :: "nat option \<Rightarrow> tcps \<Rightarrow> tcps" where
  "conn_setCallbackFunction t s = s\<lparr>ts_callback := t\<rparr>"

definition conn_setCloseFunction :: "nat option \<Rightarrow> tcps \<Rightarrow> tcps" where
  "conn_setCloseFunction t s = s\<lparr>ts_closed := t\<rparr>"

text \<open>\<open>raw\<close> is the object's memory before the constructor, whose values survive in the
  members a constructor does not write.\<close>

definition conn_base :: "tcps \<Rightarrow> tcps" where
  "conn_base raw = raw\<lparr>ts_callback := None, ts_port := '''', ts_sent := [], ts_delivered := [],
     ts_events := []\<rparr>"

definition tcps_new :: "tcps \<Rightarrow> tcps" where
  "tcps_new raw =
     tcps_setLinkOnline False ((conn_base raw)\<lparr>ts_listen := False, ts_closed := None\<rparr>)"

record tls_setup =
  su_cert :: bool
  su_key :: bool
  su_ca :: bool
  su_dhfile :: bool
  su_dh :: int

definition tcps_new_cert :: "tls_setup \<Rightarrow> tcps \<Rightarrow> tcps" where
  "tcps_new_cert e raw =
     (let s = (conn_base raw)\<lparr>ts_listen := False, ts_closed := None\<rparr> in
      if \<not> su_cert e then s
      else if \<not> su_key e then s
      else if \<not> su_dhfile e then s
      else if su_dh e < 0 then s
      else tcps_setLinkOnline False s)"

definition tcps_new_accepted :: "string \<Rightarrow> tcps \<Rightarrow> tcps" where
  "tcps_new_accepted port raw =
     tcps_setLinkOnline True
       ((conn_base raw)\<lparr>ts_ssl := True, ts_port := port, ts_closed := None, ts_listen := False\<rparr>)"

section \<open>Closing\<close>

text \<open>\<open>SSL_shutdown\<close> is called until it returns something else than 0.\<close>

fun tcps_shutdown_loop :: "tcps \<Rightarrow> int list \<Rightarrow> tcps io" where
  "tcps_shutdown_loop s [] = Pending"
| "tcps_shutdown_loop s (r # rs) =
     (if r = 0 then tcps_shutdown_loop s rs
      else Ret (s\<lparr>ts_shuts := rs, ts_ssl := False, ts_online := False,
             ts_events := ts_events s @ (if ts_closed s \<noteq> None then [CallOnClose] else [])\<rparr>))"

definition tcps_join :: "bool \<Rightarrow> tcps \<Rightarrow> tcps" where
  "tcps_join threadListen s =
     (if \<not> threadListen \<and> ts_listen s
      then s\<lparr>ts_listen := False, ts_events := ts_events s @ [JoinListen]\<rparr> else s)"

definition tcps_close :: "bool \<Rightarrow> tcps \<Rightarrow> tcps io" where
  "tcps_close threadListen s =
     (if tcps_isLinkOnline s then
        bindIO (let s1 = tcps_setLinkOnline False s in
                if ts_ssl s1 then tcps_shutdown_loop s1 (ts_shuts s1)
                else Ret (tcps_setLinkOnline False s1))
          (\<lambda>s2. Ret (tcps_join threadListen s2))
      else Ret (tcps_join threadListen (s\<lparr>ts_ssl := False\<rparr>)))"

definition tcps_close_public :: "tcps \<Rightarrow> tcps io" where
  "tcps_close_public s = tcps_close False s"

definition tcps_destroy :: "tcps \<Rightarrow> tcps io" where
  "tcps_destroy s = tcps_close False s"

section \<open>Connecting\<close>

definition tcps_receive :: "tcps \<Rightarrow> tcps" where
  "tcps_receive s =
     (if \<not> ts_listen s then s\<lparr>ts_listen := True, ts_events := ts_events s @ [StartListen]\<rparr> else s)"

definition to_lower :: "char \<Rightarrow> char" where
  "to_lower c =
     (let n = of_char c :: nat in if 65 \<le> n \<and> n \<le> 90 then char_of (n + 32) else c)"

text \<open>Nonzero when the strings differ, as \<open>strcasecmp\<close> compares them.\<close>

definition strcasecmp_differs :: "string \<Rightarrow> string \<Rightarrow> bool" where
  "strcasecmp_differs a b = (map to_lower a \<noteq> map to_lower b)"

text \<open>
  What the peer's certificate says: the verification result (0 is \<open>X509_V_OK\<close>) and the
  common name in the buffer, \<open>None\<close> when the peer sent no certificate (the name is then
  read through a null pointer).
\<close>

record peer_cert =
  pc_verify :: int
  pc_cn :: "string option"

definition tcps_checkCertificate :: "peer_cert \<Rightarrow> string \<Rightarrow> bool result" where
  "tcps_checkCertificate pc nameHost =
     (let fakeNameHost = ''127.0.0.1'' in
      if pc_verify pc \<noteq> 0 then Inr False
      else (case pc_cn pc of
              None \<Rightarrow> Inl (UB NullDeref)
            | Some cn \<Rightarrow> Inr (\<not> strcasecmp_differs cn fakeNameHost)))"

definition tcps_connect ::
    "int \<Rightarrow> int \<Rightarrow> peer_cert \<Rightarrow> string \<Rightarrow> string \<Rightarrow> tcps \<Rightarrow> (tcps \<times> bool) result" where
  "tcps_connect r_connect r_ssl pc ipAddr port s =
     (if r_connect < 0 then Inr (s, False)
      else let s1 = s\<lparr>ts_ssl := True\<rparr> in
        if r_ssl \<le> 0 then Inr (s1, False)
        else bindR (tcps_checkCertificate pc ipAddr)
               (\<lambda>good. if \<not> good then Inr (s1, False)
                 else Inr (tcps_receive (tcps_setLinkOnline True (s1\<lparr>ts_port := port\<rparr>)), True)))"

section \<open>Sending\<close>

definition tcps_packet :: "byte list \<Rightarrow> string \<Rightarrow> int \<Rightarrow> byte list \<Rightarrow> byte list" where
  "tcps_packet behind protocol type payload =
     int_bytes (of_nat (length payload)) @ cstr_field 8 behind protocol @
     int_bytes (of_int type) @ payload"

text \<open>One byte per \<open>SSL_write\<close>; anything but one byte written closes the connection.\<close>

fun tcps_write_loop :: "bool \<Rightarrow> byte list \<Rightarrow> tcps \<Rightarrow> tcps io" where
  "tcps_write_loop thread [] s = Ret s"
| "tcps_write_loop thread (b # bs) s =
     (if \<not> ts_ssl s then Fails (UB NullDeref)
      else case ts_writes s of
        [] \<Rightarrow> Pending
      | WOne # ws \<Rightarrow>
          tcps_write_loop thread bs (s\<lparr>ts_writes := ws, ts_sent := ts_sent s @ [b]\<rparr>)
      | WIncomplete # ws \<Rightarrow> tcps_close thread (s\<lparr>ts_writes := ws\<rparr>)
      | WProblem # ws \<Rightarrow> tcps_close thread (s\<lparr>ts_writes := ws\<rparr>))"

definition tcps_send_body :: "bool \<Rightarrow> byte list \<Rightarrow> factory \<Rightarrow> message \<Rightarrow> tcps \<Rightarrow> tcps io" where
  "tcps_send_body thread behind f m s =
     (let protocol = tf_getProtocol f in
      if INT_MAX < 16 + length (ms_bytes m) then Fails (UB OutOfBounds)
      else if 8 < length protocol then Ret s
      else (case dg_type f (ms_class m) of
              Inl e \<Rightarrow> Ret s
            | Inr type \<Rightarrow>
                tcps_write_loop thread (tcps_packet behind protocol type (ms_bytes m)) s))"

definition tcps_send :: "byte list \<Rightarrow> factory \<Rightarrow> message \<Rightarrow> tcps \<Rightarrow> tcps io" where
  "tcps_send behind f m s =
     (if tcps_isLinkOnline s then tcps_send_body False behind f m s else Ret s)"

text \<open>\<open>sendAnswer\<close> runs on the listening thread and does not ask whether the link is up.\<close>

definition tcps_sendAnswer :: "byte list \<Rightarrow> factory \<Rightarrow> message \<Rightarrow> tcps \<Rightarrow> tcps io" where
  "tcps_sendAnswer behind f m s = tcps_send_body True behind f m s"

section \<open>Receiving\<close>

text \<open>\<open>None\<close>: the connection was closed by the loop.\<close>

fun tcps_read_loop :: "nat \<Rightarrow> byte list \<Rightarrow> tcps \<Rightarrow> (tcps \<times> byte list option) io" where
  "tcps_read_loop 0 buf s = Ret (s, Some buf)"
| "tcps_read_loop (Suc n) buf s =
     (if \<not> ts_ssl s then Fails (UB NullDeref)
      else case ts_reads s of
        [] \<Rightarrow> Pending
      | RByte b # rs \<Rightarrow> tcps_read_loop n (buf @ [b]) (s\<lparr>ts_reads := rs\<rparr>)
      | RZeroReturn # rs \<Rightarrow>
          bindIO (tcps_close True (s\<lparr>ts_reads := rs\<rparr>)) (\<lambda>s'. Ret (s', None))
      | RSyscall # rs \<Rightarrow>
          bindIO (tcps_close True (s\<lparr>ts_reads := rs\<rparr>)) (\<lambda>s'. Ret (s', None))
      | RProblem # rs \<Rightarrow>
          bindIO (tcps_close True (s\<lparr>ts_reads := rs\<rparr>)) (\<lambda>s'. Ret (s', None)))"

text \<open>
  The created object is executed and deleted here when no callback is set, and handed to
  the callback otherwise: \<open>ts_delivered\<close> records to whom it went.
\<close>

definition deliver :: "nat \<Rightarrow> dclass \<Rightarrow> byte list \<Rightarrow> tcps \<Rightarrow> tcps result" where
  "deliver base cls buf s =
     bindR (creator_create base cls buf)
       (\<lambda>t. Inr (s\<lparr>ts_delivered := ts_delivered s @ [(ts_callback s, t)]\<rparr>))"

text \<open>\<open>look\<close> is what \<open>setProtocol\<close> and \<open>creator\<close> come to.\<close>

definition tcps_receive_with ::
    "(byte list \<Rightarrow> int \<Rightarrow> factory \<Rightarrow> factory \<times> dclass result) \<Rightarrow>
     nat \<Rightarrow> tcps \<times> factory \<Rightarrow> ((tcps \<times> factory) \<times> recv_outcome) io" where
  "tcps_receive_with look base sf =
     (let (s, f) = sf in
      bindIO (tcps_read_loop 16 [] s)
        (\<lambda>(s1, hdr). case hdr of
           None \<Rightarrow> Ret ((s1, f), RecvClosed)
         | Some h \<Rightarrow>
             (let sizeMessage = sint (bytes_int (take 4 h));
                  protocol = take 8 (drop 4 h);
                  instruction = sint (bytes_int (drop 12 h)) in
              case look protocol instruction f of
                (f1, Inl (Throw (VersionException m))) \<Rightarrow>
                  Ret ((s1, f1), RecvThrew (ConnException m))
              | (f1, Inl e) \<Rightarrow> Fails e
              | (f1, Inr c) \<Rightarrow>
                  (if sizeMessage < 0 then Fails (UB OutOfBounds)
                   else bindIO (tcps_read_loop (nat sizeMessage) [] s1)
                     (\<lambda>(s2, body). case body of
                        None \<Rightarrow> Ret ((s2, f1), RecvClosed)
                      | Some b \<Rightarrow>
                          bindIO (lift_result (deliver base c b s2))
                            (\<lambda>s3. Ret ((s3, f1), RecvDone)))))))"

definition tcps_receiveTransfThread ::
    "nat \<Rightarrow> tcps \<times> factory \<Rightarrow> ((tcps \<times> factory) \<times> recv_outcome) io" where
  "tcps_receiveTransfThread base sf = tcps_receive_with lookup_creator base sf"

lemmas receive_defs = tcps_receiveTransfThread_def tcps_receive_with_def

text \<open>
  The thread: receive while the link is up; an exception is printed and the loop goes
  on. \<open>fuel\<close> bounds the number of receptions looked at (\<open>Pending\<close> when it is used up).
\<close>

fun tcps_receiveThread :: "nat \<Rightarrow> nat \<Rightarrow> tcps \<times> factory \<Rightarrow> (tcps \<times> factory) io" where
  "tcps_receiveThread base 0 sf = (if tcps_isLinkOnline (fst sf) then Pending else Ret sf)"
| "tcps_receiveThread base (Suc fuel) sf =
     (if tcps_isLinkOnline (fst sf)
      then bindIO (tcps_receiveTransfThread base sf)
             (\<lambda>(sf', r). tcps_receiveThread base fuel sf')
      else Ret sf)"

section \<open>The byte source\<close>

text \<open>
  What framing needs of a connection: when bytes are available, reading that many returns
  exactly them. \<open>avail xs s s'\<close> says that \<open>s\<close> has \<open>xs\<close> to offer and is \<open>s'\<close> afterwards.
\<close>

locale byte_source =
  fixes rd :: "nat \<Rightarrow> 's \<Rightarrow> ('s \<times> byte list option) io"
    and avail :: "byte list \<Rightarrow> 's \<Rightarrow> 's \<Rightarrow> bool"
  assumes rd_avail: "avail xs s s' \<Longrightarrow> rd (length xs) s = Ret (s', Some xs)"
    and avail_append: "avail (xs @ ys) s s'' \<longleftrightarrow> (\<exists>s'. avail xs s s' \<and> avail ys s' s'')"
begin

text \<open>A header of fixed length and a body whose length the header announces.\<close>

lemma rd_header_body:
  assumes "avail (h @ b) s s''" and "length h = n" and "length b = m"
  shows "\<exists>s'. rd n s = Ret (s', Some h) \<and> rd m s' = Ret (s'', Some b)"
  using assms rd_avail by (auto simp: avail_append)

lemma rd_frames:
  "avail (concat xss) s s' \<Longrightarrow> xss = xs # yss \<Longrightarrow>
   \<exists>s1. rd (length xs) s = Ret (s1, Some xs) \<and> avail (concat yss) s1 s'"
  using rd_avail by (auto simp: avail_append)

end

definition tcps_avail :: "byte list \<Rightarrow> tcps \<Rightarrow> tcps \<Rightarrow> bool" where
  "tcps_avail xs s s' \<longleftrightarrow> ts_ssl s \<and>
     (\<exists>rest. ts_reads s = map RByte xs @ rest \<and> s' = s\<lparr>ts_reads := rest\<rparr>)"

lemma tcps_read_loop_bytes:
  "ts_ssl s \<Longrightarrow> ts_reads s = map RByte xs @ rest \<Longrightarrow> n = length xs \<Longrightarrow>
   tcps_read_loop n buf s = Ret (s\<lparr>ts_reads := rest\<rparr>, Some (buf @ xs))"
  by (induction xs arbitrary: s buf n) auto

interpretation ssl: byte_source "\<lambda>n. tcps_read_loop n []" tcps_avail
proof (unfold_locales, goal_cases)
  case (1 xs s s')
  then show ?case
    by (auto simp: tcps_avail_def tcps_read_loop_bytes [where xs = xs])
next
  case (2 xs ys s s'')
  show ?case
  proof
    assume "tcps_avail (xs @ ys) s s''"
    then obtain rest where r: "ts_ssl s" "ts_reads s = map RByte xs @ map RByte ys @ rest"
      and s'': "s'' = s\<lparr>ts_reads := rest\<rparr>"
      by (auto simp: tcps_avail_def)
    then have "tcps_avail xs s (s\<lparr>ts_reads := map RByte ys @ rest\<rparr>)"
      and "tcps_avail ys (s\<lparr>ts_reads := map RByte ys @ rest\<rparr>) s''"
      by (auto simp: tcps_avail_def)
    then show "\<exists>s'. tcps_avail xs s s' \<and> tcps_avail ys s' s''" by blast
  qed (auto simp: tcps_avail_def)
qed

section \<open>Packets\<close>

text \<open>Reading the sixteen header bytes of a packet and taking them apart again.\<close>

lemma packet_header:
  assumes "ts_ssl s" and "field_ok behind v"
    and "ts_reads s = map RByte (tcps_packet behind v t payload) @ rest"
  shows "tcps_read_loop 16 [] s = Ret (s\<lparr>ts_reads := map RByte payload @ rest\<rparr>,
    Some (int_bytes (of_nat (length payload)) @ cstr_field 8 behind v @ int_bytes (of_int t)))"
  using tcps_read_loop_bytes [of s "int_bytes (of_nat (length payload)) @ cstr_field 8 behind v @
      int_bytes (of_int t)" "map RByte payload @ rest" 16 "[]"] assms
  by (simp add: tcps_packet_def length_protocol_field)

lemmas header_parts = length_protocol_field sint_of_int32 sint_of_nat32

lemma receive_packet:
  assumes s: "ts_ssl s" "ts_reads s = map RByte (tcps_packet behind v t payload) @ rest"
    and v: "field_ok behind v" "v \<noteq> NO_PROTOCOL" and p: "tf_profile f = Some p"
    and t: "- (2 ^ 31) \<le> t" "t < 2 ^ 31" and len: "length payload < 2 ^ 31"
    and c: "map_of (pf_creators p) t = Some cls"
    and vals: "map val_type vals = dc_fields cls" "payload = fimage pad vals @ trailing"
  shows "tcps_receiveTransfThread base (s, f) =
    Ret ((s\<lparr>ts_reads := rest, ts_delivered := ts_delivered s @ [(ts_callback s, cls, vals)]\<rparr>,
          fst (tf_setProtocol v f)), RecvDone)"
proof -
  let ?s1 = "s\<lparr>ts_reads := map RByte payload @ rest\<rparr>"
  have body: "tcps_read_loop (length payload) [] ?s1 = Ret (s\<lparr>ts_reads := rest\<rparr>, Some payload)"
    using tcps_read_loop_bytes [of ?s1 payload rest "length payload" "[]"] s(1) by simp
  have create: "creator_create base cls payload = Inr (cls, vals)"
    using creator_create_fimage [OF vals(1)] vals(2) by simp
  show ?thesis
    using v p t len c body create packet_header [OF s(1) v(1) s(2)]
    by (simp add: receive_defs Let_def header_parts lookup_creator_field
        deliver_def)
qed

section \<open>Sending a packet\<close>

lemma write_loop_all:
  "ts_ssl s \<Longrightarrow> ts_writes s = replicate (length bs) WOne @ ws \<Longrightarrow>
   tcps_write_loop th bs s = Ret (s\<lparr>ts_writes := ws, ts_sent := ts_sent s @ bs\<rparr>)"
  by (induction bs arbitrary: s) auto

lemma length_tcps_packet:
  "field_ok behind v \<Longrightarrow> length (tcps_packet behind v t payload) = 16 + length payload"
  by (simp add: tcps_packet_def length_protocol_field)

lemma shutdown_loop_closes:
  "tcps_shutdown_loop s rs = Ret s' \<Longrightarrow>
   \<not> ts_online s' \<and> \<not> ts_ssl s' \<and> ts_sent s' = ts_sent s \<and> ts_closed s' = ts_closed s \<and>
   ts_listen s' = ts_listen s \<and>
   ts_events s' = ts_events s @ (if ts_closed s \<noteq> None then [CallOnClose] else [])"
  by (induction s rs rule: tcps_shutdown_loop.induct) (auto split: if_splits)

lemmas close_defs = tcps_close_def tcps_join_def tcps_isLinkOnline_def tcps_setLinkOnline_def

lemma close_result:
  assumes "tcps_close th s = Ret s'"
  shows "\<not> ts_online s' \<and> \<not> ts_ssl s' \<and> ts_sent s' = ts_sent s"
  using assms shutdown_loop_closes
  by (fastforce simp: close_defs Let_def bindIO_eq_Ret split: if_splits)

lemma close_not_listening:
  assumes "tcps_close th s = Ret s'" and "\<not> ts_listen s"
  shows "\<not> ts_listen s'"
proof (cases "ts_online s \<and> ts_ssl s")
  case True
  with assms(1) obtain s2 where "tcps_shutdown_loop (s\<lparr>ts_online := False\<rparr>) (ts_shuts s) = Ret s2"
    and "s' = tcps_join th s2"
    by (auto simp: tcps_close_def tcps_isLinkOnline_def tcps_setLinkOnline_def Let_def bindIO_eq_Ret)
  with shutdown_loop_closes assms(2) show ?thesis by (fastforce simp: tcps_join_def)
next
  case False
  with assms show ?thesis by (auto simp: close_defs Let_def split: if_splits)
qed

lemma close_offline_events:
  assumes "tcps_close th s = Ret s'" and "\<not> ts_online s"
  shows "filter (\<lambda>e. e = CallOnClose) (ts_events s') = filter (\<lambda>e. e = CallOnClose) (ts_events s)"
  using assms by (auto simp: close_defs)

lemma close_online_events:
  assumes "tcps_close th s = Ret s'" and "ts_online s" and "ts_ssl s" and "ts_closed s \<noteq> None"
  shows "filter (\<lambda>e. e = CallOnClose) (ts_events s') =
    filter (\<lambda>e. e = CallOnClose) (ts_events s) @ [CallOnClose]"
proof -
  from assms obtain s2 where "tcps_shutdown_loop (s\<lparr>ts_online := False\<rparr>) (ts_shuts s) = Ret s2"
    and s': "s' = tcps_join th s2"
    by (auto simp: tcps_close_def tcps_isLinkOnline_def tcps_setLinkOnline_def Let_def bindIO_eq_Ret)
  then have "ts_events s2 = ts_events s @ [CallOnClose]"
    using shutdown_loop_closes assms(4) by fastforce
  with s' show ?thesis by (simp add: tcps_join_def)
qed

lemma write_loop_prefix:
  assumes "tcps_write_loop th bs s = Ret s'" and "ts_online s"
  shows "(ts_sent s' = ts_sent s @ bs \<and> ts_online s') \<or>
    (\<not> ts_online s' \<and> (\<exists>k<length bs. ts_sent s' = ts_sent s @ take k bs))"
  using assms
proof (induction th bs s rule: tcps_write_loop.induct)
  case (1 th s)
  then show ?case by simp
next
  case (2 th b bs s)
  then consider ws where "ts_writes s = WOne # ws"
    | ws where "ts_writes s = WIncomplete # ws \<or> ts_writes s = WProblem # ws"
    by (auto split: if_splits list.splits ssl_write.splits)
  then show ?case
  proof cases
    case 1
    let ?s = "s\<lparr>ts_writes := ws, ts_sent := ts_sent s @ [b]\<rparr>"
    from "2.prems" 1 have r: "tcps_write_loop th bs ?s = Ret s'" and ssl: "ts_ssl s"
      by (auto split: if_splits)
    from "2.IH" [of WOne ws] ssl 1 r "2.prems"(2)
    have "(ts_sent s' = ts_sent s @ b # bs \<and> ts_online s') \<or>
      (\<not> ts_online s' \<and> (\<exists>k<length bs. ts_sent s' = ts_sent s @ b # take k bs))" by simp
    then show ?thesis
    proof
      assume "\<not> ts_online s' \<and> (\<exists>k<length bs. ts_sent s' = ts_sent s @ b # take k bs)"
      then obtain k where "\<not> ts_online s'" "k < length bs" "ts_sent s' = ts_sent s @ take (Suc k) (b # bs)"
        by auto
      then show ?thesis by (auto intro: exI [of _ "Suc k"])
    qed simp
  next
    case 2
    with "2.prems"(1) have "tcps_close th (s\<lparr>ts_writes := ws\<rparr>) = Ret s'"
      by (auto split: if_splits)
    from close_result [OF this] have "\<not> ts_online s' \<and> ts_sent s' = ts_sent s @ take 0 (b # bs)"
      by simp
    then show ?thesis by blast
  qed
qed

lemma send_packet:
  assumes "factory_ready p f" and "tf_protocol f = v" and "field_ok behind v"
    and "map_of (pf_ids p) (dc_name (ms_class m)) = Some t"
    and "16 + length (ms_bytes m) \<le> INT_MAX"
    and "ts_online s"
  shows "tcps_send behind f m s = tcps_write_loop False (tcps_packet behind v t (ms_bytes m)) s"
  using assms by (simp add: tcps_send_def tcps_send_body_def tcps_isLinkOnline_def
      tf_getProtocol_def dg_type_def factory_ready_type field_ok_def Let_def)

section \<open>Many packets\<close>

text \<open>One message on the wire as the receiver sees it: its number, its class, the field
  values and the bytes that carry them.\<close>

type_synonym wire_msg = "int \<times> dclass \<times> fval list \<times> byte list"

definition wire_ok :: "profile \<Rightarrow> wire_msg \<Rightarrow> bool" where
  "wire_ok p m = (case m of (t, cls, vals, payload) \<Rightarrow>
     - (2 ^ 31) \<le> t \<and> t < 2 ^ 31 \<and> length payload < 2 ^ 31 \<and>
     map_of (pf_creators p) t = Some cls \<and> map val_type vals = dc_fields cls \<and>
     (\<exists>pad trailing. payload = fimage pad vals @ trailing))"

definition wire_stream :: "byte list \<Rightarrow> string \<Rightarrow> wire_msg list \<Rightarrow> byte list" where
  "wire_stream behind v ms = concat (map (\<lambda>(t, _, _, payload). tcps_packet behind v t payload) ms)"

lemma wire_stream_Cons:
  "wire_stream behind v ((t, cls, vals, payload) # ms) =
     tcps_packet behind v t payload @ wire_stream behind v ms"
  by (simp add: wire_stream_def)

lemma receive_end_of_stream:
  assumes "ts_ssl s" and "ts_online s" and "ts_reads s = RZeroReturn # rest"
    and "ts_shuts s = r # rs" and "r \<noteq> 0"
  shows "\<exists>s'. tcps_receiveTransfThread base (s, f) = Ret ((s', f), RecvClosed) \<and>
    \<not> ts_online s' \<and> ts_delivered s' = ts_delivered s"
  using assms
  by (simp add: receive_defs numeral_eq_Suc close_defs)

lemma receiveThread_stream:
  assumes "ts_ssl s" and "ts_online s" and "field_ok behind v" and "v \<noteq> NO_PROTOCOL"
    and "tf_profile f = Some p" and "\<forall>m\<in>set ms. wire_ok p m"
    and "ts_reads s = map RByte (wire_stream behind v ms) @ RZeroReturn # rest"
    and "ts_shuts s = r # rs" and "r \<noteq> 0"
  shows "\<exists>s' f'. tcps_receiveThread base (length ms + 1) (s, f) = Ret (s', f') \<and> \<not> ts_online s' \<and>
    ts_delivered s' = ts_delivered s @ map (\<lambda>(t, cls, vals, _). (ts_callback s, cls, vals)) ms"
  using assms
proof (induction ms arbitrary: s f)
  case Nil
  then obtain s' where "tcps_receiveTransfThread base (s, f) = Ret ((s', f), RecvClosed)"
    and "\<not> ts_online s'" and "ts_delivered s' = ts_delivered s"
    using receive_end_of_stream [of s rest r rs base f] by (auto simp: wire_stream_def)
  with Nil.prems(2) show ?case by (simp add: tcps_isLinkOnline_def)
next
  case (Cons m ms)
  obtain t cls vals payload where m: "m = (t, cls, vals, payload)" by (cases m) auto
  let ?rest = "map RByte (wire_stream behind v ms) @ RZeroReturn # rest"
  let ?s = "s\<lparr>ts_reads := ?rest, ts_delivered := ts_delivered s @ [(ts_callback s, cls, vals)]\<rparr>"
  let ?f = "fst (tf_setProtocol v f)"
  from Cons.prems(6) have ok: "wire_ok p m" by simp
  with m obtain pad trailing where pl: "payload = fimage pad vals @ trailing"
    by (auto simp: wire_ok_def)
  have "tcps_receiveTransfThread base (s, f) = Ret ((?s, ?f), RecvDone)"
    by (rule receive_packet [where behind = behind and v = v and t = t and p = p])
       (use Cons.prems ok m pl in \<open>auto simp: wire_ok_def wire_stream_Cons\<close>)
  moreover have "\<exists>s' f'. tcps_receiveThread base (length ms + 1) (?s, ?f) = Ret (s', f') \<and>
    \<not> ts_online s' \<and> ts_delivered s' = ts_delivered ?s @
      map (\<lambda>(t, cls, vals, _). (ts_callback ?s, cls, vals)) ms"
    by (rule Cons.IH)
       (use Cons.prems in \<open>auto simp: setProtocol_result [OF Cons.prems(5,4)]\<close>)
  ultimately show ?case using Cons.prems(2) m by (simp add: tcps_isLinkOnline_def)
qed

section \<open>Concrete instances\<close>

definition ex_class :: dclass where
  "ex_class = \<lparr>dc_name = ''NewUserRcvd'', dc_fields = [FInt, FInt], dc_exec = True\<rparr>"

definition ex_class_out :: dclass where
  "ex_class_out = \<lparr>dc_name = ''NewClientSend'', dc_fields = [FInt, FInt], dc_exec = False\<rparr>"

definition ex_profile :: profile where
  "ex_profile = \<lparr>pf_creators = [(50, ex_class)], pf_ids = [(''NewClientSend'', 50)]\<rparr>"

definition ex_factory :: factory where
  "ex_factory = fst (tf_setProtocol ''0.1a'' (tf_setProfile (Some ex_profile) tf_new))"

definition ex_conn :: "ssl_read list \<Rightarrow> ssl_write list \<Rightarrow> tcps" where
  "ex_conn rs ws = \<lparr>ts_ssl = True, ts_online = True, ts_listen = True, ts_port = ''3457'',
     ts_callback = None, ts_closed = Some 1, ts_reads = rs, ts_writes = ws, ts_shuts = [1],
     ts_sent = [], ts_delivered = [], ts_events = []\<rparr>"

lemmas ex_defs = ex_class_def ex_class_out_def ex_profile_def ex_factory_def ex_conn_def
  field_ok_def nul_free_def NO_PROTOCOL_def tf_setProfile_def tf_new_def

lemma ex_factory_ready: "factory_ready ex_profile ex_factory"
  by (simp add: ex_factory_def factory_ready_setProtocol tf_setProfile_def NO_PROTOCOL_def)

lemma ex_factory_protocol: "tf_protocol ex_factory = ''0.1a''" "tf_profile ex_factory = Some ex_profile"
  by (simp_all add: ex_factory_def setProtocol_result [of _ ex_profile] tf_setProfile_def NO_PROTOCOL_def)

lemma ex_field_ok: "field_ok [7, 7, 7] ''0.1a''"
  by (simp add: field_ok_def nul_free_def)

section \<open>Properties\<close>

text \<open>C1. End to end over TLS: when a process whose profile numbers an instruction class sends
  such an object, and the peer's profile has a creator with the same field types under that
  number, then the bytes \<open>send\<close> hands to \<open>SSL_write\<close> make the peer's
  \<open>receiveTransfThread\<close> deliver an object with exactly the sender's field values, whatever
  the padding, the memory behind the sent object and the memory behind the protocol string
  hold; everything behind the packet stays unread.\<close>

theorem wire_roundtrip:
  assumes "factory_ready ps fs" and "tf_protocol fs = v" and "field_ok behind v"
    and "map_of (pf_ids ps) (dc_name cS) = Some t" and "- (2 ^ 31) \<le> t" and "t < 2 ^ 31"
    and "ts_online s" and "ts_ssl s"
    and "map val_type vals = dc_fields cS" and "base \<le> length mem"
    and "16 + base + fields_size (dc_fields cS) \<le> INT_MAX"
    and "ts_writes s = replicate (16 + base + fields_size (dc_fields cS)) WOne @ ws"
    and "tf_profile fr = Some pr" and "map_of (pf_creators pr) t = Some cR"
    and "dc_fields cR = dc_fields cS" and "ts_ssl r"
    and "payload = dg_payload base cS pad vals mem"
    and "ts_reads r = map RByte (tcps_packet behind v t payload) @ rest"
  shows "tcps_send behind fs \<lparr>ms_class = cS, ms_bytes = payload\<rparr> s =
      Ret (s\<lparr>ts_writes := ws, ts_sent := ts_sent s @ tcps_packet behind v t payload\<rparr>) \<and>
    tcps_receiveTransfThread base' (r, fr) =
      Ret ((r\<lparr>ts_reads := rest, ts_delivered := ts_delivered r @ [(ts_callback r, cR, vals)]\<rparr>,
            fst (tf_setProtocol v fr)), RecvDone)"
proof
  have payload: "payload = fimage pad vals @ take base mem"
    using assms(9,17) by (simp add: dg_payload_split)
  have len: "length payload = base + fields_size (dc_fields cS)"
    using assms(9,10) length_fimage [of pad vals] by (simp add: payload)
  have "tcps_send behind fs \<lparr>ms_class = cS, ms_bytes = payload\<rparr> s =
      tcps_write_loop False (tcps_packet behind v t payload) s"
    using send_packet [of ps fs v behind "\<lparr>ms_class = cS, ms_bytes = payload\<rparr>" t s] assms(1-12) len
    by simp
  then show "tcps_send behind fs \<lparr>ms_class = cS, ms_bytes = payload\<rparr> s =
      Ret (s\<lparr>ts_writes := ws, ts_sent := ts_sent s @ tcps_packet behind v t payload\<rparr>)"
    using write_loop_all [of s "tcps_packet behind v t payload" ws False]
      assms(3,8,12) len length_tcps_packet by (simp add: add.assoc)
  show "tcps_receiveTransfThread base' (r, fr) =
      Ret ((r\<lparr>ts_reads := rest, ts_delivered := ts_delivered r @ [(ts_callback r, cR, vals)]\<rparr>,
            fst (tf_setProtocol v fr)), RecvDone)"
    by (rule receive_packet [where behind = behind and v = v and t = t and p = pr
          and payload = payload and pad = pad and trailing = "take base mem"])
       (use assms len in \<open>auto simp: payload [symmetric] factory_ready_def INT_MAX_def\<close>)
qed

theorem wire_roundtrip_witness:
  defines "pl \<equiv> dg_payload 8 ex_class_out (\<lambda>_. 9) [VInt 3, VInt 5] (replicate 8 (1 :: byte))"
  shows "tcps_send [7, 7, 7] ex_factory \<lparr>ms_class = ex_class_out, ms_bytes = pl\<rparr>
      (ex_conn [] (replicate 32 WOne)) =
      Ret ((ex_conn [] (replicate 32 WOne))\<lparr>ts_writes := [],
        ts_sent := tcps_packet [7, 7, 7] ''0.1a'' 50 pl\<rparr>)"
proof -
  have size: "fields_size [FInt, FInt] = 8" by (simp add: fields_size_def Let_def pad_to_def)
  show ?thesis
    using wire_roundtrip [where ps = ex_profile and fs = ex_factory and v = "''0.1a''"
        and behind = "[7, 7, 7]" and cS = ex_class_out and t = 50
        and s = "ex_conn [] (replicate 32 WOne)" and vals = "[VInt 3, VInt 5]" and base = 8
        and mem = "replicate 8 1" and ws = "[]" and fr = ex_factory and pr = ex_profile
        and cR = ex_class and payload = pl and pad = "\<lambda>_. 9" and rest = "[]"
        and r = "ex_conn (map RByte (tcps_packet [7, 7, 7] ''0.1a'' 50 pl)) []"]
      ex_factory_ready ex_factory_protocol ex_field_ok size
    by (simp add: ex_class_def ex_class_out_def ex_profile_def ex_conn_def INT_MAX_def pl_def)
qed

text \<open>C13. In-order delivery: from a stream that is any number of well-formed packets followed by
  the peer's close, the listening thread delivers exactly those messages, each once and in
  the order they were sent, and then stops with the link down.\<close>

theorem receiveThread_in_order:
  assumes "ts_ssl s" and "ts_online s" and "field_ok behind v" and "v \<noteq> NO_PROTOCOL"
    and "tf_profile f = Some p" and "\<forall>m\<in>set ms. wire_ok p m"
    and "ts_reads s = map RByte (wire_stream behind v ms) @ RZeroReturn # rest"
    and "ts_shuts s = r # rs" and "r \<noteq> 0"
  shows "\<exists>s' f'. tcps_receiveThread base (length ms + 1) (s, f) = Ret (s', f') \<and> \<not> ts_online s' \<and>
    ts_delivered s' = ts_delivered s @ map (\<lambda>(t, cls, vals, _). (ts_callback s, cls, vals)) ms"
  using assms by (rule receiveThread_stream)

theorem receiveThread_in_order_witness:
  defines "ms \<equiv> [(50 :: int, ex_class, [VInt 3, VInt 5], fimage (\<lambda>_. 0) [VInt 3, VInt 5] @ [1, 2]),
      (50, ex_class, [VInt 4, VInt 6], fimage (\<lambda>_. 0) [VInt 4, VInt 6])]"
  defines "c \<equiv> ex_conn (map RByte (wire_stream [7, 7, 7] ''0.1a'' ms) @ [RZeroReturn]) []"
  shows "\<exists>s' f'. tcps_receiveThread 8 3 (c, ex_factory) = Ret (s', f') \<and>
    ts_delivered s' = [(None, ex_class, [VInt 3, VInt 5]), (None, ex_class, [VInt 4, VInt 6])]"
proof -
  have "length (fimage (\<lambda>_. 0) [VInt a, VInt b]) = 8" for a b
    using length_fimage [of "\<lambda>_. 0" "[VInt a, VInt b]"] by (simp add: fields_size_def Let_def pad_to_def)
  moreover have "wire_ok ex_profile (50, ex_class, [VInt a, VInt b], fimage (\<lambda>_. 0) [VInt a, VInt b] @ e)"
    if "length e < 10" for a b e
    using that calculation by (auto simp: wire_ok_def ex_profile_def ex_class_def)
  from this [of "[1, 2]"] this [of "[]"] have "\<forall>m\<in>set ms. wire_ok ex_profile m"
    by (simp add: ms_def)
  then show ?thesis
    using receiveThread_in_order [of c "[7, 7, 7]" "''0.1a''" ex_factory ex_profile ms "[]" 1 "[]" 8]
      ex_field_ok ex_factory_protocol
    by (fastforce simp: c_def ms_def ex_conn_def NO_PROTOCOL_def numeral_3_eq_3)
qed

text \<open>C30. Losing step with the stream: a packet with a protocol (not the text for none) whose
  instruction number has no creator at the receiver raises a \<open>ConnectionException\<close> before its body is read. The listening thread goes on
  after the exception, with the body still in the stream, and its next reception takes the
  first sixteen bytes of the body (and of what follows, when the body is shorter) for a header.\<close>

theorem unknown_instruction_desync:
  assumes "ts_ssl s" and "ts_reads s = map RByte (tcps_packet behind v t payload) @ rest"
    and "field_ok behind v" and "v \<noteq> NO_PROTOCOL" and "tf_profile f = Some p"
    and "- (2 ^ 31) \<le> t" and "t < 2 ^ 31" and "map_of (pf_creators p) t = None"
    and "ts_online s" and "s' = s\<lparr>ts_reads := map RByte payload @ rest\<rparr>"
  shows "tcps_receiveTransfThread base (s, f) =
      Ret ((s', fst (tf_setProtocol v f)), RecvThrew (ConnException ''Creator not found'')) \<and>
    tcps_receiveThread base (Suc fuel) (s, f) = tcps_receiveThread base fuel (s', fst (tf_setProtocol v f)) \<and>
    ts_online s' \<and>
    (\<forall>more rest'. rest = map RByte more @ rest' \<longrightarrow> 16 \<le> length (payload @ more) \<longrightarrow>
      tcps_read_loop 16 [] s' = Ret (s'\<lparr>ts_reads := map RByte (drop 16 (payload @ more)) @ rest'\<rparr>,
        Some (take 16 (payload @ more))))"
proof (intro conjI allI impI)
  show throws: "tcps_receiveTransfThread base (s, f) =
      Ret ((s', fst (tf_setProtocol v f)), RecvThrew (ConnException ''Creator not found''))"
    using assms packet_header [OF assms(1,3,2)]
    by (simp add: receive_defs Let_def header_parts lookup_creator_field)
  show "tcps_receiveThread base (Suc fuel) (s, f) = tcps_receiveThread base fuel (s', fst (tf_setProtocol v f))"
    using throws assms(9) by (simp add: tcps_isLinkOnline_def)
  show "ts_online s'" using assms(9,10) by simp
  fix more rest' assume "rest = map RByte more @ rest'" and len: "16 \<le> length (payload @ more)"
  then have "ts_reads s' = map RByte (take 16 (payload @ more)) @ (map RByte (drop 16 (payload @ more)) @ rest')"
    using assms(10) by (metis append.assoc append_take_drop_id map_append tcps.select_convs(7) tcps.surjective
        tcps.update_convs(7))
  from tcps_read_loop_bytes [OF _ this, of 16 "[]"] len assms(1,10)
  show "tcps_read_loop 16 [] s' = Ret (s'\<lparr>ts_reads := map RByte (drop 16 (payload @ more)) @ rest'\<rparr>,
      Some (take 16 (payload @ more)))" by simp
qed

theorem unknown_instruction_desync_witness:
  "\<exists>f. tcps_receiveThread 8 1 (ex_conn (map RByte (tcps_packet [7, 7, 7] ''0.1a'' 150 (replicate 16 4))) [], ex_factory) =
      tcps_receiveThread 8 0 (ex_conn (map RByte (replicate 16 4)) [], f) \<and>
    tcps_read_loop 16 [] (ex_conn (map RByte (replicate 16 4)) []) = Ret (ex_conn [] [], Some (replicate 16 4))"
proof -
  define body where "body = replicate 16 (4 :: byte)"
  let ?c = "ex_conn (map RByte (tcps_packet [7, 7, 7] ''0.1a'' 150 body)) []"
  let ?d = "ex_conn (map RByte body) []"
  have "ts_ssl ?c" "ts_reads ?c = map RByte (tcps_packet [7, 7, 7] ''0.1a'' 150 body) @ []"
    "map_of (pf_creators ex_profile) 150 = None" "ts_online ?c" "''0.1a'' \<noteq> NO_PROTOCOL"
    "?d = ?c\<lparr>ts_reads := map RByte body @ []\<rparr>"
    by (simp_all add: ex_conn_def ex_profile_def NO_PROTOCOL_def)
  note desync = unknown_instruction_desync [OF this(1,2) ex_field_ok this(5) ex_factory_protocol(2) _ _ this(3,4,6),
      of 8 0]
  have "tcps_read_loop 16 [] ?d = Ret (?d\<lparr>ts_reads := map RByte (drop 16 (body @ [])) @ []\<rparr>, Some (take 16 (body @ [])))"
    using desync by (simp add: body_def del: tcps_read_loop.simps)
  moreover have "?d\<lparr>ts_reads := map RByte (drop 16 (body @ [])) @ []\<rparr> = ex_conn [] []" "take 16 (body @ []) = body"
    by (simp_all add: body_def ex_conn_def)
  moreover have "tcps_receiveThread 8 (Suc 0) (?c, ex_factory) =
      tcps_receiveThread 8 0 (?d, fst (tf_setProtocol ''0.1a'' ex_factory))"
    using desync by (simp del: tcps_receiveThread.simps)
  ultimately show ?thesis unfolding body_def [symmetric] One_nat_def by auto
qed

text \<open>C29. What a send leaves of an open connection: when \<open>send\<close> returns, either there was nothing to
  write, because the protocol is longer than its field or the message's class has no number,
  and the connection is as it was; or the whole packet has been written and the link is still
  up; or only a proper prefix has been written and the link is down. (The eight bytes of the
  protocol field are copied from memory that is there.)\<close>

theorem send_all_or_closed:
  assumes "ts_online s" and "tcps_send behind f m s = Ret s'"
    and "8 \<le> length (tf_protocol f) + 1 + length behind"
  shows "s' = s \<and> (8 < length (tf_protocol f) \<or> (\<exists>e. dg_type f (ms_class m) = Inl e)) \<or>
    (\<exists>t packet. dg_type f (ms_class m) = Inr t \<and>
      packet = tcps_packet behind (tf_protocol f) t (ms_bytes m) \<and>
      (ts_sent s' = ts_sent s @ packet \<and> ts_online s' \<or>
       \<not> ts_online s' \<and> (\<exists>k<16 + length (ms_bytes m). ts_sent s' = ts_sent s @ take k packet)))"
proof (cases "8 < length (tf_protocol f) \<or> (\<exists>e. dg_type f (ms_class m) = Inl e)")
  case True
  with assms(1,2) show ?thesis
    by (auto simp: tcps_send_def tcps_send_body_def tcps_isLinkOnline_def tf_getProtocol_def Let_def
        split: if_splits sum.splits)
next
  case False
  then obtain t where t: "dg_type f (ms_class m) = Inr t" by (cases "dg_type f (ms_class m)") auto
  let ?packet = "tcps_packet behind (tf_protocol f) t (ms_bytes m)"
  have "length ?packet = 16 + length (ms_bytes m)"
    using assms(3) by (simp add: tcps_packet_def length_cstr_field)
  moreover have "tcps_write_loop False ?packet s = Ret s'"
    using assms(1,2) False t
    by (simp add: tcps_send_def tcps_send_body_def tcps_isLinkOnline_def tf_getProtocol_def Let_def
        split: if_splits)
  ultimately show ?thesis using write_loop_prefix [of False ?packet s s'] assms(1) t by metis
qed

theorem send_all_or_closed_witness:
  "\<exists>s'. tcps_send [7, 7, 7] ex_factory \<lparr>ms_class = ex_class_out, ms_bytes = [1]\<rparr>
      (ex_conn [] [WProblem]) = Ret s' \<and>
    (ts_sent s' = tcps_packet [7, 7, 7] ''0.1a'' 50 [1] \<and> ts_online s' \<or>
     \<not> ts_online s' \<and> (\<exists>k<17. ts_sent s' = take k (tcps_packet [7, 7, 7] ''0.1a'' 50 [1])))"
proof -
  let ?m = "\<lparr>ms_class = ex_class_out, ms_bytes = [1]\<rparr>" and ?c = "ex_conn [] [WProblem]"
  let ?p = "tcps_packet [7, 7, 7] ''0.1a'' 50 [1]"
  have t: "map_of (pf_ids ex_profile) (dc_name (ms_class ?m)) = Some 50"
    and l: "16 + length (ms_bytes ?m) \<le> INT_MAX" and o: "ts_online ?c" "ts_sent ?c = []"
    by (simp_all add: ex_profile_def ex_class_out_def INT_MAX_def ex_conn_def)
  obtain b bs where p: "?p = b # bs"
    using length_tcps_packet [OF ex_field_ok, of 50 "[1]"] by (cases ?p) auto
  have "tcps_send [7, 7, 7] ex_factory ?m ?c = tcps_write_loop False ?p ?c"
    using send_packet [OF ex_factory_ready ex_factory_protocol(1) ex_field_ok t l o(1)] by simp
  also have "\<dots> = Ret (?c\<lparr>ts_writes := [], ts_ssl := False, ts_online := False, ts_shuts := [],
      ts_listen := False, ts_events := [CallOnClose, JoinListen]\<rparr>)"
    unfolding p by (simp add: ex_conn_def close_defs)
  finally obtain s' where s': "tcps_send [7, 7, 7] ex_factory ?m ?c = Ret s'" by blast
  have "dg_type ex_factory (ms_class ?m) = Inr 50"
    using t by (simp add: dg_type_def factory_ready_type [OF ex_factory_ready])
  with send_all_or_closed [OF o(1) s'] o(2) s' show ?thesis by (auto simp: ex_factory_protocol(1))
qed

text \<open>The close listener is told once: closing an open connection that has a listener calls it
  exactly once, and closing the connection again, from whichever thread, does not call it.\<close>

lemma close_reports_once:
  assumes "ts_online s" and "ts_ssl s" and "ts_closed s \<noteq> None"
    and "tcps_close th s = Ret s'" and "tcps_close th' s' = Ret s''"
  shows "\<not> ts_online s'' \<and> filter (\<lambda>e. e = CallOnClose) (ts_events s'') =
    filter (\<lambda>e. e = CallOnClose) (ts_events s) @ [CallOnClose]"
  using close_online_events [OF assms(4,1,2,3)] close_offline_events [OF assms(5)]
    close_result [OF assms(4)] close_result [OF assms(5)] by simp

lemma close_reports_once_example:
  "\<exists>s' s''. tcps_close True (ex_conn [] []) = Ret s' \<and> tcps_close False s' = Ret s'' \<and>
    filter (\<lambda>e. e = CallOnClose) (ts_events s'') = [CallOnClose]"
proof -
  let ?s1 = "(ex_conn [] [])\<lparr>ts_ssl := False, ts_online := False, ts_shuts := [],
    ts_events := [CallOnClose]\<rparr>"
  let ?s2 = "?s1\<lparr>ts_listen := False, ts_events := [CallOnClose, JoinListen]\<rparr>"
  have 1: "tcps_close True (ex_conn [] []) = Ret ?s1" by (simp add: ex_conn_def close_defs)
  have 2: "tcps_close False ?s1 = Ret ?s2" by (simp add: ex_conn_def close_defs)
  have "ts_online (ex_conn [] [])" "ts_ssl (ex_conn [] [])" "ts_closed (ex_conn [] []) \<noteq> None"
    "ts_events (ex_conn [] []) = []" by (simp_all add: ex_conn_def)
  note once = close_reports_once [OF this(1-3) 1 2]
  have "filter (\<lambda>e. e = CallOnClose) (ts_events ?s2) = [CallOnClose]"
    using once [THEN conjunct2] by (simp add: ex_conn_def)
  then show ?thesis by (intro exI conjI) (rule 1, rule 2)
qed

text \<open>The host name does not matter: \<open>checkCertificate\<close> gives the same answer for every
  host it is asked about, and accepts exactly the certificates that verify and carry the
  common name 127.0.0.1.\<close>

lemma checkCertificate_fixed_host:
  "tcps_checkCertificate pc host = tcps_checkCertificate pc other \<and>
   (tcps_checkCertificate pc host = Inr True \<longleftrightarrow>
      pc_verify pc = 0 \<and> (\<exists>cn. pc_cn pc = Some cn \<and> map to_lower cn = ''127.0.0.1''))"
proof
  show "tcps_checkCertificate pc host = tcps_checkCertificate pc other"
    by (simp add: tcps_checkCertificate_def)
  have "map to_lower ''127.0.0.1'' = ''127.0.0.1''" by code_simp
  then show "tcps_checkCertificate pc host = Inr True \<longleftrightarrow>
      pc_verify pc = 0 \<and> (\<exists>cn. pc_cn pc = Some cn \<and> map to_lower cn = ''127.0.0.1'')"
    by (auto simp: tcps_checkCertificate_def Let_def strcasecmp_differs_def split: option.splits)
qed

end
