(* ===== verification/Shared_Factory.thy ===== *)
theory Shared_Factory
  imports Tcp_Secure
begin

text \<open>
  The one \<open>TransferableFactory\<close> of a process, as the threads of all its connections use it.
  \<open>TransferableFactory::instance()\<close> hands every connection the same object, no mutex guards it,
  and every reception rebuilds it: \<open>receiveTransfThread\<close> calls \<open>setProtocol\<close>, which clears the
  protocol and both maps, fills the maps entry by entry and sets the protocol last, and then
  asks for the creator; \<open>send\<close> and \<open>sendAnswer\<close> first read the protocol and later the number of
  the message. The mutexes of a connection (\<open>mSendMutex\<close>, \<open>mReceiveMutex\<close>) do not help, being
  one per connection.

  The other theories run a reception as one step. Here one access to the factory is a step: a
  thread is the list of operations it has to do, each with the point it has reached, and
  \<open>fs_reach\<close> is reachability over all interleavings. That the single accesses are atomic is an
  idealisation in favour of the code: two threads that access the same \<open>std::map\<close> or
  \<open>std::string\<close> at the same time, one of them writing, are undefined behaviour, and
  \<open>accesses_conflict\<close> shows that a send and a reception do. What is shown here of the safe cases
  holds under that idealisation only.
\<close>

section \<open>One operation, access by access\<close>

text \<open>Where a reception is: in the three statements of \<open>clear\<close>, at the question whether there is
  a profile, in the two loops (with what they still have to insert), at the assignment of the
  protocol, at \<open>creator\<close>. Where a send is: at \<open>protocol()\<close>, or at \<open>message.type()\<close> with the
  protocol it has read.\<close>

datatype recv_pc =
    RClearProtocol
  | RClearCreators
  | RClearTypes
  | RProfile
  | RCreators "(int \<times> dclass) list" "(string \<times> int) list"
  | RIds "(string \<times> int) list"
  | RVersion
  | RCreator

datatype send_pc = SProtocol | SType string

datatype fop = Recv string int recv_pc | Snd dclass send_pc

text \<open>What an operation comes to: the creator a reception found, or the protocol and the number
  a send puts into the header, \<open>None\<close> when it gives up.\<close>

datatype fout = Found string int "dclass result" | Headed dclass "(string \<times> int) option"

datatype fmove = Goes fop factory | Ends fout factory

fun recv_step :: "string \<Rightarrow> int \<Rightarrow> recv_pc \<Rightarrow> factory \<Rightarrow> fmove" where
  "recv_step v i RClearProtocol f = Goes (Recv v i RClearCreators) (f\<lparr>tf_protocol := NO_PROTOCOL\<rparr>)"
| "recv_step v i RClearCreators f = Goes (Recv v i RClearTypes) (f\<lparr>tf_creators := []\<rparr>)"
| "recv_step v i RClearTypes f = Goes (Recv v i RProfile) (f\<lparr>tf_sendingType := []\<rparr>)"
| "recv_step v i RProfile f =
     (case tf_profile f of
        None \<Rightarrow> Ends (Found v i
          (Inl (Throw (VersionException ''No Profile set for TransferableFactory'')))) f
      | Some p \<Rightarrow>
          (if v \<noteq> NO_PROTOCOL then Goes (Recv v i (RCreators (pf_creators p) (pf_ids p))) f
           else Goes (Recv v i RCreator) f))"
| "recv_step v i (RCreators (c # cs) ids) f =
     Goes (Recv v i (RCreators cs ids)) (f\<lparr>tf_creators := mp_insert (fst c) (snd c) (tf_creators f)\<rparr>)"
| "recv_step v i (RCreators [] ids) f = Goes (Recv v i (RIds ids)) f"
| "recv_step v i (RIds (n # ids)) f =
     Goes (Recv v i (RIds ids)) (f\<lparr>tf_sendingType := mp_insert (fst n) (snd n) (tf_sendingType f)\<rparr>)"
| "recv_step v i (RIds []) f = Goes (Recv v i RVersion) f"
| "recv_step v i RVersion f = Goes (Recv v i RCreator) (f\<lparr>tf_protocol := v\<rparr>)"
| "recv_step v i RCreator f = Ends (Found v i (tf_creator f i)) f"

fun send_step :: "dclass \<Rightarrow> send_pc \<Rightarrow> factory \<Rightarrow> fmove" where
  "send_step cls SProtocol f =
     (let protocol = tf_getProtocol f in
      if 8 < length protocol then Ends (Headed cls None) f
      else Goes (Snd cls (SType protocol)) f)"
| "send_step cls (SType protocol) f =
     (case dg_type f cls of
        Inl e \<Rightarrow> Ends (Headed cls None) f
      | Inr t \<Rightarrow> Ends (Headed cls (Some (protocol, t))) f)"

fun fop_step :: "fop \<Rightarrow> factory \<Rightarrow> fmove" where
  "fop_step (Recv v i pc) f = recv_step v i pc f"
| "fop_step (Snd cls pc) f = send_step cls pc f"

section \<open>Threads\<close>

record fthread =
  ft_ops :: "fop list"
  ft_outs :: "fout list"

text \<open>The thread goes on with its first operation, and with the next one when that has ended.\<close>

definition ft_step :: "fthread \<Rightarrow> factory \<Rightarrow> (fthread \<times> factory) option" where
  "ft_step th f =
     (case ft_ops th of
        [] \<Rightarrow> None
      | x # xs \<Rightarrow>
          (case fop_step x f of
             Goes x' f' \<Rightarrow> Some (th\<lparr>ft_ops := x' # xs\<rparr>, f')
           | Ends y f' \<Rightarrow> Some (th\<lparr>ft_ops := xs, ft_outs := ft_outs th @ [y]\<rparr>, f')))"

type_synonym fsystem = "(nat \<Rightarrow> fthread) \<times> factory"

inductive fs_step :: "fsystem \<Rightarrow> fsystem \<Rightarrow> bool" where
  thread_moves: "ft_step (ths k) f = Some (th, f') \<Longrightarrow> fs_step (ths, f) (ths(k := th), f')"

inductive fs_reach :: "fsystem \<Rightarrow> fsystem \<Rightarrow> bool" for s0 where
  fs_start: "fs_reach s0 s0"
| fs_more: "fs_reach s0 s \<Longrightarrow> fs_step s s' \<Longrightarrow> fs_reach s0 s'"

inductive_cases fs_stepE: "fs_step s s'"

text \<open>The threads of a process at rest, each with what it is going to do.\<close>

definition waiting :: "fop list \<Rightarrow> fthread" where
  "waiting xs = \<lparr>ft_ops = xs, ft_outs = []\<rparr>"

definition reception :: "string \<times> int \<Rightarrow> fop" where
  "reception vi = Recv (fst vi) (snd vi) RClearProtocol"

definition sending :: "dclass \<Rightarrow> fop" where
  "sending cls = Snd cls SProtocol"

lemma fs_reach_trans: "fs_reach s2 s3 \<Longrightarrow> fs_reach s1 s2 \<Longrightarrow> fs_reach s1 s3"
  by (induction rule: fs_reach.induct) (auto intro: fs_reach.intros)

text \<open>A schedule: one entry for each step, naming the thread that takes it.\<close>

fun fs_run :: "nat list \<Rightarrow> fsystem \<Rightarrow> fsystem option" where
  "fs_run [] s = Some s"
| "fs_run (k # ks) s =
     (case ft_step (fst s k) (snd s) of
        None \<Rightarrow> None
      | Some (th, f') \<Rightarrow> fs_run ks ((fst s)(k := th), f'))"

lemma fs_run_reach: "fs_run ks s = Some s' \<Longrightarrow> fs_reach s0 s \<Longrightarrow> fs_reach s0 s'"
proof (induction ks arbitrary: s)
  case Nil
  then show ?case by simp
next
  case (Cons k ks)
  obtain ths f where s: "s = (ths, f)" by (cases s)
  from Cons.prems(1) obtain th f' where m: "ft_step (ths k) f = Some (th, f')"
    and r: "fs_run ks (ths(k := th), f') = Some s'"
    by (auto simp: s split: option.splits)
  from Cons.prems(2) thread_moves [of ths k f th f', OF m] have "fs_reach s0 (ths(k := th), f')"
    unfolding s by (rule fs_more)
  with Cons.IH r show ?case by blast
qed

lemma fs_run_append:
  "fs_run (ks @ ks') s = (case fs_run ks s of None \<Rightarrow> None | Some s' \<Rightarrow> fs_run ks' s')"
  by (induction ks arbitrary: s) (auto split: option.splits)


section \<open>A reception alone\<close>

text \<open>With the factory to itself, the accesses of a reception amount to the one step
  \<open>lookup_creator\<close> by which the other theories describe it.\<close>

definition doing :: "fthread \<Rightarrow> fop \<Rightarrow> fthread" where
  "doing th x = th\<lparr>ft_ops := x # tl (ft_ops th)\<rparr>"

definition ended :: "fthread \<Rightarrow> fout \<Rightarrow> fthread" where
  "ended th y = th\<lparr>ft_ops := tl (ft_ops th), ft_outs := ft_outs th @ [y]\<rparr>"

lemma ft_step_doing:
  "ft_step (doing th x) f =
     (case fop_step x f of Goes x' f' \<Rightarrow> Some (doing th x', f') | Ends y f' \<Rightarrow> Some (ended th y, f'))"
  by (simp add: ft_step_def doing_def ended_def split: fmove.splits)

lemma fs_run_doing:
  "fs_run (k # ks) (ths(k := doing th x), f) =
     (case fop_step x f of
        Goes x' f' \<Rightarrow> fs_run ks (ths(k := doing th x'), f')
      | Ends y f' \<Rightarrow> fs_run ks (ths(k := ended th y), f'))"
  by (simp add: ft_step_doing split: fmove.splits)

lemma fs_run_creators:
  "fs_run (replicate (Suc (length cs)) k @ ks) (ths(k := doing th (Recv v i (RCreators cs ids))), f) =
   fs_run ks (ths(k := doing th (Recv v i (RIds ids))),
     f\<lparr>tf_creators := mp_insert_all cs (tf_creators f)\<rparr>)"
  by (induction cs arbitrary: f) (simp_all add: fs_run_doing del: fs_run.simps(2))

lemma fs_run_ids:
  "fs_run (replicate (Suc (length ids)) k @ ks) (ths(k := doing th (Recv v i (RIds ids))), f) =
   fs_run ks (ths(k := doing th (Recv v i RVersion)),
     f\<lparr>tf_sendingType := mp_insert_all ids (tf_sendingType f)\<rparr>)"
  by (induction ids arbitrary: f) (simp_all add: fs_run_doing del: fs_run.simps(2))

text \<open>The steps of a reception up to the assignment of the protocol.\<close>

definition fill_steps :: "profile \<Rightarrow> nat" where
  "fill_steps p = 4 + Suc (length (pf_creators p)) + Suc (length (pf_ids p))"

lemma fs_run_fill:
  assumes "tf_profile f = Some p" and "v \<noteq> NO_PROTOCOL"
  shows "fs_run (replicate (fill_steps p) k @ ks)
      (ths(k := doing th (reception (v, i))), f) =
    fs_run ks (ths(k := doing th (Recv v i RVersion)),
      \<lparr>tf_profile = Some p, tf_protocol = NO_PROTOCOL,
        tf_creators = mp_insert_all (pf_creators p) [],
        tf_sendingType = mp_insert_all (pf_ids p) []\<rparr>)"
proof -
  have r: "replicate (fill_steps p) k @ ks = k # k # k # k #
      (replicate (Suc (length (pf_creators p))) k @ (replicate (Suc (length (pf_ids p))) k @ ks))"
    unfolding fill_steps_def replicate_add by (simp add: numeral_eq_Suc)
  show ?thesis
    unfolding r using assms
    by (cases f) (simp add: fs_run_doing fs_run_creators fs_run_ids reception_def
        del: fs_run.simps(2) replicate.simps)
qed

lemma reception_alone:
  assumes "tf_profile f = Some p" and "v \<noteq> NO_PROTOCOL" and "read_cstr protocol = Inr v"
  shows "fs_run (replicate (fill_steps p + 2) k) (ths(k := doing th (reception (v, i))), f) =
    (case lookup_creator protocol i f of
       (f', c) \<Rightarrow> Some (ths(k := ended th (Found v i c)), f'))"
proof -
  have r: "replicate (fill_steps p + 2) k = replicate (fill_steps p) k @ [k, k]"
    unfolding replicate_add by (simp add: numeral_eq_Suc)
  have "lookup_creator protocol i f = (fst (tf_setProtocol v f), tf_creator (fst (tf_setProtocol v f)) i)"
    using assms by (simp add: lookup_creator_def setProtocol_result)
  then show ?thesis
    unfolding r using assms
    by (simp add: fs_run_fill fs_run_doing setProtocol_result del: fs_run.simps(2))
qed


section \<open>One receiver\<close>

text \<open>What the factory holds at every point of a reception that nobody disturbs.\<close>

fun mid_ok :: "profile \<Rightarrow> recv_pc \<Rightarrow> factory \<Rightarrow> bool" where
  "mid_ok p RClearProtocol f = factory_ready p f"
| "mid_ok p RClearCreators f = (tf_protocol f = NO_PROTOCOL)"
| "mid_ok p RClearTypes f = (tf_protocol f = NO_PROTOCOL \<and> tf_creators f = [])"
| "mid_ok p RProfile f =
     (tf_protocol f = NO_PROTOCOL \<and> tf_creators f = [] \<and> tf_sendingType f = [])"
| "mid_ok p (RCreators cs ids) f =
     (tf_protocol f = NO_PROTOCOL \<and> tf_sendingType f = [] \<and> ids = pf_ids p \<and>
      mp_insert_all cs (tf_creators f) = mp_insert_all (pf_creators p) [])"
| "mid_ok p (RIds ids) f =
     (tf_protocol f = NO_PROTOCOL \<and> tf_creators f = mp_insert_all (pf_creators p) [] \<and>
      mp_insert_all ids (tf_sendingType f) = mp_insert_all (pf_ids p) [])"
| "mid_ok p RVersion f =
     (tf_protocol f = NO_PROTOCOL \<and> tf_creators f = mp_insert_all (pf_creators p) [] \<and>
      tf_sendingType f = mp_insert_all (pf_ids p) [])"
| "mid_ok p RCreator f = factory_ready p f"

text \<open>The factory while the operations \<open>xs\<close> of the receiver are still to do, and the protocols
  it can show.\<close>

definition factory_inv :: "profile \<Rightarrow> string set \<Rightarrow> fop list \<Rightarrow> factory \<Rightarrow> bool" where
  "factory_inv p V xs f \<longleftrightarrow> tf_profile f = Some p \<and> tf_protocol f \<in> insert NO_PROTOCOL V \<and>
     (case xs of Recv v i pc # _ \<Rightarrow> mid_ok p pc f | _ \<Rightarrow> factory_ready p f)"

fun send_op_ok :: "string set \<Rightarrow> fop \<Rightarrow> bool" where
  "send_op_ok V (Snd cls SProtocol) = True"
| "send_op_ok V (Snd cls (SType q)) = (q \<in> insert NO_PROTOCOL V)"
| "send_op_ok V (Recv v i pc) = False"

text \<open>The receiving thread receives and, from the handlers it runs, answers; only its first
  operation is under way.\<close>

definition untouched :: "fop \<Rightarrow> bool" where
  "untouched x \<longleftrightarrow> (\<exists>v i. x = Recv v i RClearProtocol) \<or> (\<exists>cls. x = Snd cls SProtocol)"

definition recv_ops_ok :: "string set \<Rightarrow> fop list \<Rightarrow> bool" where
  "recv_ops_ok V xs \<longleftrightarrow> (\<forall>x\<in>set xs. (\<exists>v i pc. x = Recv v i pc \<and> v \<in> V) \<or> send_op_ok V x) \<and>
     (\<forall>x\<in>set (tl xs). untouched x)"

text \<open>An outcome as the profile promises it: the creator registered under the number, and in a
  header the number registered for the class.\<close>

definition creator_of :: "profile \<Rightarrow> int \<Rightarrow> dclass result" where
  "creator_of p i = (case map_of (pf_creators p) i of Some c \<Rightarrow> Inr c
     | None \<Rightarrow> Inl (Throw (VersionException ''Creator not found'')))"

fun out_ok :: "profile \<Rightarrow> string set \<Rightarrow> fout \<Rightarrow> bool" where
  "out_ok p V (Found v i r) = (r = creator_of p i)"
| "out_ok p V (Headed cls None) = True"
| "out_ok p V (Headed cls (Some (q, t))) =
     (map_of (pf_ids p) (dc_name cls) = Some t \<and> q \<in> insert NO_PROTOCOL V)"

definition one_receiver_inv :: "profile \<Rightarrow> string set \<Rightarrow> fsystem \<Rightarrow> bool" where
  "one_receiver_inv p V s \<longleftrightarrow>
     factory_inv p V (ft_ops (fst s 0)) (snd s) \<and> recv_ops_ok V (ft_ops (fst s 0)) \<and>
     (\<forall>k>0. \<forall>x\<in>set (ft_ops (fst s k)). send_op_ok V x) \<and>
     (\<forall>k. \<forall>y\<in>set (ft_outs (fst s k)). out_ok p V y)"

lemma factory_inv_protocols:
  "factory_inv p V xs f \<Longrightarrow> tf_protocol f \<noteq> NO_PROTOCOL \<Longrightarrow> factory_ready p f"
  by (auto simp: factory_inv_def split: list.splits fop.splits elim: mid_ok.elims)

text \<open>One access of the receiver, and one of a sender.\<close>

lemma recv_step_inv:
  assumes "factory_inv p V (Recv v i pc # xs) f" and "v \<in> V" and "NO_PROTOCOL \<notin> V"
    and "\<forall>x\<in>set xs. untouched x"
  shows "case recv_step v i pc f of
      Goes x f' \<Rightarrow> (\<exists>pc'. x = Recv v i pc') \<and> factory_inv p V (x # xs) f'
    | Ends y f' \<Rightarrow> out_ok p V y \<and> factory_inv p V xs f'"
proof (cases "(v, i, pc, f)" rule: recv_step.cases)
  case (10 v' i' f')
  then have "factory_ready p f" "pc = RCreator" and f: "tf_profile f = Some p"
    "tf_protocol f \<in> insert NO_PROTOCOL V"
    using assms(1) by (auto simp: factory_inv_def)
  moreover have "factory_inv p V xs f"
    using assms(4) f \<open>factory_ready p f\<close> by (cases xs) (auto simp: factory_inv_def untouched_def)
  ultimately show ?thesis by (simp add: creator_of_def factory_ready_creator)
qed (use assms in \<open>auto simp: factory_inv_def factory_ready_def split: list.splits\<close>)

lemma factory_inv_untouched:
  "factory_inv p V (Snd cls pc # xs) f \<Longrightarrow> \<forall>x\<in>set xs. untouched x \<Longrightarrow> factory_inv p V xs f"
  by (cases xs) (auto simp: factory_inv_def untouched_def)

lemma send_op_okE: "send_op_ok V x \<Longrightarrow> \<exists>cls pc. x = Snd cls pc"
  by (cases x) auto

lemma send_step_inv:
  assumes "factory_inv p V xs f" and "send_op_ok V (Snd cls pc)"
  shows "case send_step cls pc f of
      Goes x f' \<Rightarrow> send_op_ok V x \<and> f' = f
    | Ends y f' \<Rightarrow> out_ok p V y \<and> f' = f"
proof (cases pc)
  case SProtocol
  with assms(1) show ?thesis by (simp add: factory_inv_def tf_getProtocol_def Let_def)
next
  case (SType q)
  show ?thesis
  proof (cases "tf_protocol f = NO_PROTOCOL")
    case True
    with SType show ?thesis by (simp add: dg_type_def tf_type_def)
  next
    case False
    from factory_inv_protocols [OF assms(1) False] assms(2) SType show ?thesis
      by (simp add: dg_type_def factory_ready_type split: option.splits)
  qed
qed


lemma ft_stepE:
  assumes "ft_step th f = Some (th', f')"
  obtains x xs x' where "ft_ops th = x # xs" "fop_step x f = Goes x' f'" "th' = th\<lparr>ft_ops := x' # xs\<rparr>"
    | x xs y where "ft_ops th = x # xs" "fop_step x f = Ends y f'"
        "th' = th\<lparr>ft_ops := xs, ft_outs := ft_outs th @ [y]\<rparr>"
  using assms by (auto simp: ft_step_def split: list.splits fmove.splits)

lemma in_set_tl: "x \<in> set (tl xs) \<Longrightarrow> x \<in> set xs"
  by (cases xs) auto

lemma receiver_step_inv:
  assumes "ft_step th f = Some (th', f')" and "NO_PROTOCOL \<notin> V"
    and "factory_inv p V (ft_ops th) f" and "recv_ops_ok V (ft_ops th)"
    and "\<forall>y\<in>set (ft_outs th). out_ok p V y"
  shows "factory_inv p V (ft_ops th') f' \<and> recv_ops_ok V (ft_ops th') \<and>
    (\<forall>y\<in>set (ft_outs th'). out_ok p V y)"
proof -
  have step: "case fop_step x f of
      Goes x' f' \<Rightarrow> ((\<exists>v i pc. x' = Recv v i pc \<and> v \<in> V) \<or> send_op_ok V x') \<and> factory_inv p V (x' # xs) f'
    | Ends y f' \<Rightarrow> out_ok p V y \<and> factory_inv p V xs f'" if ops: "ft_ops th = x # xs" for x xs
  proof (cases x)
    case (Recv v i pc)
    with ops assms(2-4) have "case recv_step v i pc f of
        Goes x f' \<Rightarrow> (\<exists>pc'. x = Recv v i pc') \<and> factory_inv p V (x # xs) f'
      | Ends y f' \<Rightarrow> out_ok p V y \<and> factory_inv p V xs f'"
      by (intro recv_step_inv) (auto simp: recv_ops_ok_def)
    with ops Recv assms(4) show ?thesis by (auto simp: recv_ops_ok_def split: fmove.splits)
  next
    case (Snd cls pc)
    with ops assms(3,4) have inv: "factory_inv p V (Snd cls pc # xs) f" "send_op_ok V (Snd cls pc)"
      and un: "\<forall>x\<in>set xs. untouched x"
      by (auto simp: recv_ops_ok_def)
    have "factory_inv p V (x' # xs) f" if "send_op_ok V x'" for x'
      using send_op_okE [OF that] inv(1) by (auto simp: factory_inv_def)
    with send_step_inv [OF inv] factory_inv_untouched [OF inv(1) un] Snd show ?thesis
      by (auto split: fmove.splits)
  qed
  from assms(1) show ?thesis
  proof (cases rule: ft_stepE)
    case (1 x xs x')
    with step [of x xs] assms(4,5) show ?thesis by (auto simp: recv_ops_ok_def)
  next
    case (2 x xs y)
    with step [of x xs] assms(4,5) show ?thesis by (auto simp: recv_ops_ok_def dest: in_set_tl)
  qed
qed

lemma sender_step_inv:
  assumes "ft_step th f = Some (th', f')" and "factory_inv p V ops f"
    and "\<forall>x\<in>set (ft_ops th). send_op_ok V x" and "\<forall>y\<in>set (ft_outs th). out_ok p V y"
  shows "f' = f \<and> (\<forall>x\<in>set (ft_ops th'). send_op_ok V x) \<and> (\<forall>y\<in>set (ft_outs th'). out_ok p V y)"
proof -
  have ops: "\<exists>cls pc. x = Snd cls pc \<and> send_op_ok V x" if "ft_ops th = x # xs" for x xs
    using assms(3) that by (cases x) auto
  from assms(1) show ?thesis
  proof (cases rule: ft_stepE)
    case (1 x xs x')
    with ops obtain cls pc where "x = Snd cls pc" "send_op_ok V x" by blast
    with send_step_inv [OF assms(2), of cls pc] 1 assms(3,4) show ?thesis by auto
  next
    case (2 x xs y)
    with ops obtain cls pc where "x = Snd cls pc" "send_op_ok V x" by blast
    with send_step_inv [OF assms(2), of cls pc] 2 assms(3,4) show ?thesis by auto
  qed
qed

lemma one_receiver_step:
  assumes "one_receiver_inv p V s" and "fs_step s s'" and "NO_PROTOCOL \<notin> V"
  shows "one_receiver_inv p V s'"
proof -
  from assms(2) obtain ths k f th f' where 1: "s = (ths, f)" "s' = (ths(k := th), f')"
      "ft_step (ths k) f = Some (th, f')"
    by (auto elim: fs_stepE)
  note I = assms(1) [unfolded one_receiver_inv_def 1(1) fst_conv snd_conv]
  show ?thesis
  proof (cases "k = 0")
    case True
    have "factory_inv p V (ft_ops th) f' \<and> recv_ops_ok V (ft_ops th) \<and>
        (\<forall>y\<in>set (ft_outs th). out_ok p V y)"
      by (rule receiver_step_inv [OF 1(3) assms(3)]) (use I True in auto)
    with I True show ?thesis unfolding 1(2) one_receiver_inv_def by simp
  next
    case False
    have "f' = f \<and> (\<forall>x\<in>set (ft_ops th). send_op_ok V x) \<and> (\<forall>y\<in>set (ft_outs th). out_ok p V y)"
      by (rule sender_step_inv [OF 1(3), of p V "ft_ops (ths 0)"]) (use I False in auto)
    with I False show ?thesis unfolding 1(2) one_receiver_inv_def by simp
  qed
qed

lemma one_receiver_reach:
  assumes "fs_reach s0 s" and "one_receiver_inv p V s0" and "NO_PROTOCOL \<notin> V"
  shows "one_receiver_inv p V s"
  using assms by (induction rule: fs_reach.induct) (auto intro: one_receiver_step)


section \<open>Schedules\<close>

lemma doing_waiting: "waiting [x] = doing (waiting []) x"
  by (simp add: waiting_def doing_def)

lemma fs_run_at:
  assumes "ths k = doing th x"
  shows "fs_run (k # ks) (ths, f) =
     (case fop_step x f of
        Goes x' f' \<Rightarrow> fs_run ks (ths(k := doing th x'), f')
      | Ends y f' \<Rightarrow> fs_run ks (ths(k := ended th y), f'))"
  using fs_run_doing [of k ks ths th x f] fun_upd_triv [of ths k] assms by (simp del: fs_run.simps(2))

lemma fs_run_fill_at:
  assumes "ths k = doing th (reception (v, i))" and "tf_profile f = Some p" and "v \<noteq> NO_PROTOCOL"
  shows "fs_run (replicate (fill_steps p) k @ ks) (ths, f) =
    fs_run ks (ths(k := doing th (Recv v i RVersion)),
      \<lparr>tf_profile = Some p, tf_protocol = NO_PROTOCOL,
        tf_creators = mp_insert_all (pf_creators p) [],
        tf_sendingType = mp_insert_all (pf_ids p) []\<rparr>)"
  using fs_run_fill [OF assms(2,3), of k ks ths th i] fun_upd_triv [of ths k] assms(1) by simp

text \<open>The same when the first access has been made already.\<close>

lemma fs_run_refill_at:
  assumes "ths k = doing th (Recv v i RClearCreators)" and "tf_profile f = Some p"
    and "v \<noteq> NO_PROTOCOL" and "tf_protocol f = NO_PROTOCOL"
  shows "fs_run (replicate (fill_steps p - 1) k @ ks) (ths, f) =
    fs_run ks (ths(k := doing th (Recv v i RVersion)),
      \<lparr>tf_profile = Some p, tf_protocol = NO_PROTOCOL,
        tf_creators = mp_insert_all (pf_creators p) [],
        tf_sendingType = mp_insert_all (pf_ids p) []\<rparr>)"
proof -
  have "replicate (fill_steps p) k = k # replicate (fill_steps p - 1) k"
    by (simp add: fill_steps_def numeral_eq_Suc)
  moreover have "f\<lparr>tf_protocol := NO_PROTOCOL\<rparr> = f" using assms(4) by (cases f) simp
  moreover have "ths(k := doing th (Recv v i RClearCreators)) = ths"
    using fun_upd_triv [of ths k] assms(1) by simp
  ultimately show ?thesis
    using fs_run_fill [OF assms(2,3), of k ks ths th i]
    by (simp add: fs_run_doing reception_def del: fs_run.simps(2))
qed

lemma fop_step_begin:
  "fop_step (reception (v, i)) f = Goes (Recv v i RClearCreators) (f\<lparr>tf_protocol := NO_PROTOCOL\<rparr>)"
  "fop_step (sending cls) f = send_step cls SProtocol f"
  by (simp_all add: reception_def sending_def)

lemma ended_waiting: "ft_outs (ended (waiting xs) y) = [y]"
  by (simp add: ended_def waiting_def)

lemmas fs_run_schedule = fs_run_at fs_run_fill_at fs_run_refill_at [unfolded One_nat_def] fop_step_begin ended_waiting
  tf_creator_def dg_type_def tf_type_def tf_getProtocol_def

text \<open>The threads of a process of which two have something to do.\<close>

definition two_threads :: "fop \<Rightarrow> fop \<Rightarrow> nat \<Rightarrow> fthread" where
  "two_threads x y = (\<lambda>_. waiting [])(0 := waiting [x], 1 := waiting [y])"

lemma two_threads_at:
  "two_threads x y 0 = doing (waiting []) x" "two_threads x y (Suc 0) = doing (waiting []) y"
  by (simp_all add: two_threads_def doing_waiting)

lemma schedule_alone:
  assumes "tf_profile f = Some p" and "v \<noteq> NO_PROTOCOL"
  shows "\<exists>ths' f'. fs_run (replicate (fill_steps p) 0 @ [0, 0]) (two_threads (reception (v, i)) y, f) =
      Some (ths', f') \<and> ft_outs (ths' 0) = [Found v i (creator_of p i)]"
  using assms
  by (simp add: fs_run_schedule two_threads_at creator_of_def mp_find_insert_all del: fs_run.simps(2))

lemma schedule_cleared:
  assumes "tf_profile f = Some p" and "v \<noteq> NO_PROTOCOL"
  shows "\<exists>ths' f'. fs_run (replicate (fill_steps p) 0 @ [0, 1, 0])
      (two_threads (reception (v, i)) (reception (w, j)), f) = Some (ths', f') \<and>
    ft_outs (ths' 0) = [Found v i (Inl (Throw (VersionException ''No protocol stablished'')))]"
  using assms
  by (simp add: fs_run_schedule two_threads_at del: fs_run.simps(2))

lemma schedule_emptied:
  assumes "tf_profile f = Some p" and "v \<noteq> NO_PROTOCOL"
  shows "\<exists>ths' f'. fs_run (replicate (fill_steps p) 0 @ [1, 1, 0, 0])
      (two_threads (reception (v, i)) (reception (w, j)), f) = Some (ths', f') \<and>
    ft_outs (ths' 0) = [Found v i (Inl (Throw (VersionException ''Creator not found'')))]"
  using assms
  by (simp add: fs_run_schedule two_threads_at mp_find_def del: fs_run.simps(2))

lemma schedule_none_header:
  assumes "tf_profile f = Some p" and "v \<noteq> NO_PROTOCOL"
    and "map_of (pf_ids p) (dc_name cls) = Some t"
  shows "\<exists>ths' f'. fs_run (0 # 1 # replicate (fill_steps p - 1) 0 @ [0, 1])
      (two_threads (reception (v, i)) (sending cls), f) = Some (ths', f') \<and>
    ft_outs (ths' 1) = [Headed cls (Some (NO_PROTOCOL, t))]"
proof -
  have "length NO_PROTOCOL \<le> 8" by (simp add: NO_PROTOCOL_def)
  with assms show ?thesis
    by (simp add: fs_run_schedule two_threads_at mp_find_insert_all Let_def del: fs_run.simps(2))
qed


section \<open>Silence\<close>

text \<open>A factory without protocol numbers nothing, and a send that gets no number writes nothing.\<close>

lemma send_without_protocol:
  assumes "tf_protocol f = NO_PROTOCOL" and "16 + length (ms_bytes m) \<le> INT_MAX"
  shows "tcps_send behind f m s = Ret s" and "tcps_sendAnswer behind f m s = Ret s"
  using assms by (simp_all add: tcps_send_def tcps_sendAnswer_def tcps_send_body_def dg_type_def
      tf_type_def tf_getProtocol_def NO_PROTOCOL_def Let_def)

lemma setProtocol_none:
  "tf_profile f = Some p \<Longrightarrow> tf_setProtocol NO_PROTOCOL f = (tf_clear f, Inr ())"
  by (simp add: factory_defs)

lemma field_ok_none: "4 \<le> length behind \<Longrightarrow> field_ok behind NO_PROTOCOL"
  by (simp add: field_ok_def nul_free_def NO_PROTOCOL_def)

lemma receive_none_packet:
  assumes "ts_ssl s" and "ts_reads s = map RByte (tcps_packet behind NO_PROTOCOL t payload) @ rest"
    and "4 \<le> length behind" and "tf_profile g = Some q"
  shows "tcps_receiveTransfThread base (s, g) =
    Ret ((s\<lparr>ts_reads := map RByte payload @ rest\<rparr>, tf_clear g),
         RecvThrew (ConnException ''No protocol stablished''))"
proof -
  have "read_cstr (cstr_field 8 behind NO_PROTOCOL) = Inr NO_PROTOCOL"
    using read_cstr_field [of NO_PROTOCOL 8 behind "[]"] field_ok_none [OF assms(3)]
    by (simp add: field_ok_def)
  then have "lookup_creator (cstr_field 8 behind NO_PROTOCOL) i g =
      (tf_clear g, Inl (Throw (VersionException ''No protocol stablished'')))" for i
    using assms(4) by (simp add: lookup_creator_def setProtocol_none tf_creator_def tf_clear_def)
  then show ?thesis
    using packet_header [OF assms(1) field_ok_none [OF assms(3)] assms(2)]
      length_protocol_field [OF field_ok_none [OF assms(3)]]
    by (simp add: receive_defs Let_def)
qed

section \<open>Properties\<close>

text \<open>The threads of a process with one receiving connection: thread 0 receives packets with
  these headers and answers with messages of these classes in between, every other thread sends.\<close>

fun begin_op :: "(string \<times> int) + dclass \<Rightarrow> fop" where
  "begin_op (Inl vi) = reception vi"
| "begin_op (Inr cls) = sending cls"

definition one_receiver ::
    "((string \<times> int) + dclass) list \<Rightarrow> (nat \<Rightarrow> dclass list) \<Rightarrow> nat \<Rightarrow> fthread" where
  "one_receiver rs ss = (\<lambda>k. if k = 0 then waiting (map begin_op rs) else waiting (map sending (ss k)))"

lemma untouched_begin: "untouched (begin_op x)"
  by (cases x) (simp_all add: untouched_def reception_def sending_def)

lemma one_receiver_start:
  assumes "factory_ready p f" and "tf_protocol f \<in> V" and "\<forall>v i. Inl (v, i) \<in> set rs \<longrightarrow> v \<in> V"
  shows "one_receiver_inv p V (one_receiver rs ss, f)"
proof -
  have "factory_inv p V (map begin_op rs) f"
  proof (cases rs)
    case (Cons x xs)
    with assms(1,2) show ?thesis
      by (cases x) (auto simp: factory_inv_def reception_def sending_def factory_ready_def)
  qed (use assms(1,2) in \<open>auto simp: factory_inv_def factory_ready_def\<close>)
  moreover have "(\<exists>v i pc. begin_op x = Recv v i pc \<and> v \<in> V) \<or> send_op_ok V (begin_op x)"
    if x: "x \<in> set rs" for x
  proof (cases x)
    case (Inl vi)
    with x assms(3) have "fst vi \<in> V" by (cases vi) auto
    with Inl show ?thesis by (simp add: reception_def)
  qed (simp add: sending_def)
  then have "recv_ops_ok V (map begin_op rs)"
    by (auto simp: recv_ops_ok_def untouched_begin map_tl [symmetric])
  ultimately show ?thesis
    by (auto simp: one_receiver_inv_def one_receiver_def waiting_def sending_def)
qed

text \<open>Which member of the factory the next access of an operation writes, and which it reads.\<close>

datatype member = ProtocolMember | CreatorsMember | TypesMember

fun fop_writes :: "fop \<Rightarrow> member set" where
  "fop_writes (Recv v i RClearProtocol) = {ProtocolMember}"
| "fop_writes (Recv v i RClearCreators) = {CreatorsMember}"
| "fop_writes (Recv v i RClearTypes) = {TypesMember}"
| "fop_writes (Recv v i (RCreators (c # cs) ids)) = {CreatorsMember}"
| "fop_writes (Recv v i (RIds (n # ids))) = {TypesMember}"
| "fop_writes (Recv v i RVersion) = {ProtocolMember}"
| "fop_writes _ = {}"

fun fop_reads :: "fop \<Rightarrow> member set" where
  "fop_reads (Snd cls SProtocol) = {ProtocolMember}"
| "fop_reads (Snd cls (SType q)) = {ProtocolMember, TypesMember}"
| "fop_reads (Recv v i RCreator) = {ProtocolMember, CreatorsMember}"
| "fop_reads _ = {}"

text \<open>The access of a send that reads the string of the protocol and one of a reception that writes
  it can come at the same time: when the reception is about to clear it, and again when it is
  about to set it.\<close>

lemma accesses_conflict:
  assumes "tf_profile f = Some p" and "v \<noteq> NO_PROTOCOL"
  shows "\<exists>ths f'. fs_reach (two_threads (reception (v, i)) (sending cls), f) (ths, f') \<and>
      ProtocolMember \<in> fop_writes (hd (ft_ops (ths 0))) \<inter> fop_reads (hd (ft_ops (ths 1))) \<and>
      tf_protocol f' = tf_protocol f"
    and "\<exists>ths f'. fs_reach (two_threads (reception (v, i)) (sending cls), f) (ths, f') \<and>
      ProtocolMember \<in> fop_writes (hd (ft_ops (ths 0))) \<inter> fop_reads (hd (ft_ops (ths 1))) \<and>
      tf_protocol f' = NO_PROTOCOL"
proof -
  let ?s = "two_threads (reception (v, i)) (sending cls)"
  have "ProtocolMember \<in> fop_writes (hd (ft_ops (?s 0))) \<inter> fop_reads (hd (ft_ops (?s 1)))"
    by (simp add: two_threads_def waiting_def reception_def sending_def)
  then show "\<exists>ths f'. fs_reach (?s, f) (ths, f') \<and>
      ProtocolMember \<in> fop_writes (hd (ft_ops (ths 0))) \<inter> fop_reads (hd (ft_ops (ths 1))) \<and>
      tf_protocol f' = tf_protocol f"
    using fs_start by blast
  have "\<exists>ths f'. fs_run (replicate (fill_steps p) 0 @ []) (?s, f) = Some (ths, f') \<and>
      ft_ops (ths 0) = [Recv v i RVersion] \<and> ft_ops (ths 1) = [sending cls] \<and> tf_protocol f' = NO_PROTOCOL"
    unfolding fs_run_fill_at [where ths = ?s and k = 0, OF two_threads_at(1) assms]
    by (simp add: doing_def waiting_def two_threads_def)
  then show "\<exists>ths f'. fs_reach (?s, f) (ths, f') \<and>
      ProtocolMember \<in> fop_writes (hd (ft_ops (ths 0))) \<inter> fop_reads (hd (ft_ops (ths 1))) \<and>
      tf_protocol f' = NO_PROTOCOL"
    using fs_run_reach fs_start by (fastforce simp: sending_def)
qed

text \<open>C14. With one receiving connection nothing goes wrong between the accesses to the factory. Take
  a process whose factory is set up and of whose connections one receives, packets none of which
  carries the text for no protocol (\<open>NO_PROTOCOL\<close>) where its protocol belongs, and any interleaving of the single accesses that its receptions, its answers and the sends of all
  other threads make to the factory, each access being atomic: every reception finds exactly
  the creator its profile has under the received number, and every header that a send makes
  carries the number its profile gives to the class. The protocol in a header is the one set
  first, one that was received, or the text for no protocol. The atomic accesses are an
  idealisation: no mutex makes them so, and accesses of a reception and of a send that meet in
  the same map or string are undefined behaviour in the program.\<close>

theorem one_receiver_outcomes:
  assumes "factory_ready p f" and "tf_protocol f \<in> V" and "NO_PROTOCOL \<notin> V" and "\<forall>v i. Inl (v, i) \<in> set rs \<longrightarrow> v \<in> V"
    and "fs_reach (one_receiver rs ss, f) (ths, f')"
  shows "(Found v i r \<in> set (ft_outs (ths k)) \<longrightarrow> r = creator_of p i) \<and>
    (Headed cls (Some (q, t)) \<in> set (ft_outs (ths k)) \<longrightarrow>
       map_of (pf_ids p) (dc_name cls) = Some t \<and> (q = NO_PROTOCOL \<or> q \<in> V))"
proof -
  have "one_receiver_inv p V (ths, f')"
    using assms(5) one_receiver_start [OF assms(1,2,4)] assms(3) by (rule one_receiver_reach)
  then have "\<forall>y\<in>set (ft_outs (ths k)). out_ok p V y" by (simp add: one_receiver_inv_def)
  then show ?thesis by (fastforce dest: bspec)
qed

theorem one_receiver_outcomes_witness:
  "\<exists>ths f. fs_reach (one_receiver [Inl (''0.1a'', 50)] (\<lambda>_. [ex_class_out]), ex_factory) (ths, f) \<and>
    ft_outs (ths 1) = [Headed ex_class_out (Some (''0.1a'', 50))] \<and>
    map_of (pf_ids ex_profile) (dc_name ex_class_out) = Some 50"
proof -
  let ?s = "(one_receiver [Inl (''0.1a'', 50)] (\<lambda>_. [ex_class_out]), ex_factory)"
  have "dg_type ex_factory ex_class_out = Inr 50"
    by (simp add: dg_type_def factory_ready_type [OF ex_factory_ready] ex_profile_def ex_class_out_def)
  then have "\<exists>ths f. fs_run [1, 1] ?s = Some (ths, f) \<and>
      ft_outs (ths 1) = [Headed ex_class_out (Some (''0.1a'', 50))]"
    by (simp add: one_receiver_def waiting_def sending_def ft_step_def tf_getProtocol_def
        ex_factory_protocol Let_def)
  then obtain ths f where run: "fs_run [1, 1] ?s = Some (ths, f)"
    and out: "ft_outs (ths 1) = [Headed ex_class_out (Some (''0.1a'', 50))]" by blast
  have reach: "fs_reach ?s (ths, f)" using run fs_start by (rule fs_run_reach)
  have "map_of (pf_ids ex_profile) (dc_name ex_class_out) = Some 50"
    using one_receiver_outcomes [OF ex_factory_ready _ _ _ reach, of "{''0.1a''}" _ _ _ 1 ex_class_out "''0.1a''" 50]
      out by (simp add: ex_factory_protocol NO_PROTOCOL_def)
  with reach out show ?thesis by blast
qed

text \<open>C15. Two receiving connections of one process destroy each other's receptions. A reception that
  has the factory to itself finds the creator that the profile has under the received number;
  when a second connection receives at the same time, there are interleavings of their accesses
  to the factory in which the first one finds no protocol, because the other has just cleared
  it, and interleavings in which it finds no creator, because the other has just cleared the
  map. A reception whose look into the factory comes to one of the two throws a
  \<open>ConnectionException\<close> before it has read the body of its packet, which stays in the stream.\<close>

theorem receptions_race:
  assumes "tf_profile f = Some p" and "v \<noteq> NO_PROTOCOL" and "map_of (pf_creators p) i = Some c"
    and "ts_ssl s" and "field_ok behind v"
    and "ts_reads s = map RByte (tcps_packet behind v i payload) @ rest"
  shows "(\<exists>ths f'. fs_reach (two_threads (reception (v, i)) (reception (w, j)), f) (ths, f') \<and>
      ft_outs (ths 0) = [Found v i (Inr c)]) \<and>
    (\<exists>ths f'. fs_reach (two_threads (reception (v, i)) (reception (w, j)), f) (ths, f') \<and>
      ft_outs (ths 0) = [Found v i (Inl (Throw (VersionException ''No protocol stablished'')))]) \<and>
    (\<exists>ths f'. fs_reach (two_threads (reception (v, i)) (reception (w, j)), f) (ths, f') \<and>
      ft_outs (ths 0) = [Found v i (Inl (Throw (VersionException ''Creator not found'')))]) \<and>
    (\<forall>g e. tcps_receive_with (\<lambda>_ _ _. (g, Inl (Throw (VersionException e)))) base (s, f) =
      Ret ((s\<lparr>ts_reads := map RByte payload @ rest\<rparr>, g), RecvThrew (ConnException e)))"
proof -
  have throws: "\<forall>g e. tcps_receive_with (\<lambda>_ _ _. (g, Inl (Throw (VersionException e)))) base (s, f) =
      Ret ((s\<lparr>ts_reads := map RByte payload @ rest\<rparr>, g), RecvThrew (ConnException e))"
    using packet_header [OF assms(4-6)] by (simp add: tcps_receive_with_def)
  have "creator_of p i = Inr c" using assms(3) by (simp add: creator_of_def)
  with schedule_alone [OF assms(1,2), of i "reception (w, j)"]
    schedule_cleared [OF assms(1,2), of i w j] schedule_emptied [OF assms(1,2), of i w j]
  show ?thesis using throws by (metis (no_types, lifting) fs_run_reach fs_start)
qed

theorem receptions_race_witness:
  "\<exists>ths f'. fs_reach (two_threads (reception (''0.1a'', 50)) (reception (''0.1a'', 50)), ex_factory) (ths, f') \<and>
    ft_outs (ths 0) = [Found ''0.1a'' 50 (Inl (Throw (VersionException ''Creator not found'')))]"
proof -
  let ?s = "ex_conn (map RByte (tcps_packet [7, 7, 7] ''0.1a'' 50 [1, 2]) @ []) []"
  have "''0.1a'' \<noteq> NO_PROTOCOL" "map_of (pf_creators ex_profile) 50 = Some ex_class" "ts_ssl ?s"
    "ts_reads ?s = map RByte (tcps_packet [7, 7, 7] ''0.1a'' 50 [1, 2]) @ []"
    by (simp_all add: NO_PROTOCOL_def ex_profile_def ex_conn_def)
  from receptions_race [OF ex_factory_protocol(2) this(1-3) ex_field_ok this(4), of "''0.1a''" 50]
  show ?thesis by blast
qed

text \<open>C16. The text for no protocol goes out on the wire and silences the receiver. A send reads the
  protocol and the number of its message apart, so beside a reception it can put the text for
  no protocol into the header of a numbered message. The process that receives such a packet
  throws, leaves the body in the stream and has no protocol from then on: whatever it sends or
  answers on any of its connections writes nothing and reports nothing, until it receives a
  packet with a version.\<close>

theorem none_header_silences:
  assumes "tf_profile f = Some p" and "v \<noteq> NO_PROTOCOL" and "map_of (pf_ids p) (dc_name cls) = Some t"
    and "ts_ssl s" and "ts_reads s = map RByte (tcps_packet behind NO_PROTOCOL t payload) @ rest"
    and "4 \<le> length behind" and "tf_profile g = Some q" and "g' = tf_clear g"
  shows "(\<exists>ths f'. fs_reach (two_threads (reception (v, i)) (sending cls), f) (ths, f') \<and>
      ft_outs (ths 1) = [Headed cls (Some (NO_PROTOCOL, t))]) \<and>
    tcps_receiveTransfThread base (s, g) = Ret ((s\<lparr>ts_reads := map RByte payload @ rest\<rparr>, g'),
      RecvThrew (ConnException ''No protocol stablished'')) \<and>
    (\<forall>m c. 16 + length (ms_bytes m) \<le> INT_MAX \<longrightarrow>
      tcps_send after g' m c = Ret c \<and> tcps_sendAnswer after g' m c = Ret c) \<and>
    factory_ready q (fst (tf_setProtocol v g'))"
proof (intro conjI allI impI)
  show "\<exists>ths f'. fs_reach (two_threads (reception (v, i)) (sending cls), f) (ths, f') \<and>
      ft_outs (ths 1) = [Headed cls (Some (NO_PROTOCOL, t))]"
    using schedule_none_header [OF assms(1-3), of i] by (metis fs_run_reach fs_start)
  show "tcps_receiveTransfThread base (s, g) = Ret ((s\<lparr>ts_reads := map RByte payload @ rest\<rparr>, g'),
      RecvThrew (ConnException ''No protocol stablished''))"
    using receive_none_packet [OF assms(4-7)] assms(8) by simp
  have g': "tf_protocol g' = NO_PROTOCOL" "tf_profile g' = Some q"
    using assms(7,8) by (simp_all add: tf_clear_def)
  then show "factory_ready q (fst (tf_setProtocol v g'))"
    using assms(2) by (simp add: factory_ready_setProtocol)
  fix m :: message and c
  assume "16 + length (ms_bytes m) \<le> INT_MAX"
  then show "tcps_send after g' m c = Ret c" "tcps_sendAnswer after g' m c = Ret c"
    using g'(1) by (simp_all add: send_without_protocol)
qed

theorem none_header_silences_witness:
  "(case tcps_receiveTransfThread 8
      (ex_conn (map RByte (tcps_packet [7, 7, 7, 7] NO_PROTOCOL 50 [1, 2, 3])) [], ex_factory) of
      Ret ((s, g), r) \<Rightarrow> r = RecvThrew (ConnException ''No protocol stablished'') \<and>
        tcps_send [7, 7, 7] g \<lparr>ms_class = ex_class_out, ms_bytes = [1]\<rparr> (ex_conn [] [WOne]) =
          Ret (ex_conn [] [WOne]))"
proof -
  let ?c = "ex_conn (map RByte (tcps_packet [7, 7, 7, 7] NO_PROTOCOL 50 [1, 2, 3])) []"
  have "ts_ssl ?c" "ts_reads ?c = map RByte (tcps_packet [7, 7, 7, 7] NO_PROTOCOL 50 [1, 2, 3]) @ []"
    "map_of (pf_ids ex_profile) (dc_name ex_class_out) = Some 50" "''0.1a'' \<noteq> NO_PROTOCOL"
    by (simp_all add: ex_conn_def ex_profile_def ex_class_out_def NO_PROTOCOL_def)
  from none_header_silences [OF ex_factory_protocol(2) this(4,3,1,2) _ ex_factory_protocol(2) refl,
      of 50 8 "[7, 7, 7]"]
  show ?thesis by (simp add: INT_MAX_def)
qed

end
