(* ===== verification/Router_Objects.thy ===== *)
theory Router_Objects
  imports Cpp_Heap
begin

text \<open>
  The objects inside the router: \<open>Router::User\<close>, \<open>Router::Zone\<close> and \<open>Router::Server\<close>
  (servrouter/include/Router.h, servrouter/src/User.cpp, Zone.cpp, Server.cpp). Ids and
  tokens are the \<open>int\<close> values themselves: the code only compares them. Connections are
  named by numbers; what happens to one (a message handed to it, a close, a delete) is an
  event, and the events so far say which connections have been deleted. A user or zone that several containers point to is reached through the router's
  heaps (\<open>Cpp_Heap\<close>).
\<close>

type_synonym cid = nat

datatype router_msg =
  GetServerIpMsg int
| AddRouterMsg
| ConnectClientMsg int int
| Relayed nat

datatype router_event =
  EvSend cid router_msg
| EvAnswer cid router_msg
| EvClose cid
| EvDelete cid
| EvConnect cid string string

fun ev_conn :: "router_event \<Rightarrow> cid" where
  "ev_conn (EvSend c m) = c"
| "ev_conn (EvAnswer c m) = c"
| "ev_conn (EvClose c) = c"
| "ev_conn (EvDelete c) = c"
| "ev_conn (EvConnect c ip port) = c"

text \<open>Whether the events \<open>es\<close> can follow the events \<open>past\<close>: nothing may happen to a connection
  that has been deleted.\<close>

fun conn_events_ok :: "router_event list \<Rightarrow> router_event list \<Rightarrow> bool" where
  "conn_events_ok past [] = True"
| "conn_events_ok past (e # es) =
     (EvDelete (ev_conn e) \<notin> set past \<and> conn_events_ok (past @ [e]) es)"

section \<open>Users\<close>

record ruser =
  ru_id :: int
  ru_token :: int
  ru_zone :: int
  ru_conn :: "cid option"

definition user_new :: "int \<Rightarrow> int \<Rightarrow> ruser" where
  "user_new i token = \<lparr>ru_id = i, ru_token = token, ru_zone = -1, ru_conn = None\<rparr>"

definition user_destroy :: "ruser \<Rightarrow> router_event list" where
  "user_destroy u = (case ru_conn u of None \<Rightarrow> [] | Some c \<Rightarrow> [EvClose c])"

definition user_set_token :: "int \<Rightarrow> ruser \<Rightarrow> ruser" where
  "user_set_token token u = u\<lparr>ru_token := token\<rparr>"

text \<open>\<open>return mToken = token;\<close> assigns, and converts the assigned value to \<open>bool\<close>.\<close>

definition user_validate :: "int \<Rightarrow> ruser \<Rightarrow> ruser \<times> bool" where
  "user_validate token u = (u\<lparr>ru_token := token\<rparr>, token \<noteq> 0)"

definition user_set_zone :: "int \<Rightarrow> ruser \<Rightarrow> ruser" where
  "user_set_zone idZone u = u\<lparr>ru_zone := idZone\<rparr>"

definition user_connection :: "cid \<Rightarrow> ruser \<Rightarrow> ruser \<times> router_event list" where
  "user_connection c u =
     (u\<lparr>ru_conn := Some c\<rparr>, case ru_conn u of None \<Rightarrow> [] | Some d \<Rightarrow> [EvDelete d])"

definition user_send :: "router_msg \<Rightarrow> ruser \<Rightarrow> router_event list" where
  "user_send t u = (case ru_conn u of None \<Rightarrow> [] | Some c \<Rightarrow> [EvSend c t])"

section \<open>Zones\<close>

record rzone =
  rz_id :: int
  rz_server :: int
  rz_newServer :: int
  rz_users :: "(int, addr) omap"
  rz_inTransfer :: bool

definition zone_new :: "int \<Rightarrow> rzone" where
  "zone_new i = \<lparr>rz_id = i, rz_server = -1, rz_newServer = -1, rz_users = [], rz_inTransfer = False\<rparr>"

definition zone_set_server :: "int \<Rightarrow> rzone \<Rightarrow> rzone" where
  "zone_set_server s z = z\<lparr>rz_server := s\<rparr>"

definition zone_endTransfer :: "rzone \<Rightarrow> rzone" where
  "zone_endTransfer z =
     (if rz_inTransfer z
      then z\<lparr>rz_server := rz_newServer z, rz_newServer := -1, rz_inTransfer := False\<rparr> else z)"

definition zone_set_newServer :: "int \<Rightarrow> rzone \<Rightarrow> rzone" where
  "zone_set_newServer s z = z\<lparr>rz_newServer := s, rz_inTransfer := True\<rparr>"

text \<open>\<open>usr\<close> is the user's address with its id.\<close>

definition zone_addUser :: "(addr \<times> int) option \<Rightarrow> rzone \<Rightarrow> rzone" where
  "zone_addUser usr z =
     (case usr of None \<Rightarrow> z
      | Some (a, i) \<Rightarrow>
          (if mp_find (rz_users z) i = None then z\<lparr>rz_users := mp_assign i a (rz_users z)\<rparr> else z))"

definition zone_delUser :: "int \<Rightarrow> rzone \<Rightarrow> rzone" where
  "zone_delUser i z =
     (if mp_find (rz_users z) i \<noteq> None then z\<lparr>rz_users := mp_erase i (rz_users z)\<rparr> else z)"

definition zone_hasUser :: "int \<Rightarrow> rzone \<Rightarrow> bool" where
  "zone_hasUser i z = (mp_find (rz_users z) i \<noteq> None)"

definition zone_sendToUsers :: "ruser store \<Rightarrow> router_msg \<Rightarrow> rzone \<Rightarrow> router_event list result" where
  "zone_sendToUsers uh t z =
     foldR (\<lambda>evs p. bindR (st_get uh (snd p)) (\<lambda>u. Inr (evs @ user_send t u))) (rz_users z) []"

section \<open>Servers\<close>

record rserver =
  rs_id :: int
  rs_zones :: "(int, addr) omap"
  rs_conn :: "cid option"

definition server_new :: "int \<Rightarrow> rserver" where
  "server_new i = \<lparr>rs_id = i, rs_zones = [], rs_conn = None\<rparr>"

definition server_destroy :: "rserver \<Rightarrow> router_event list" where
  "server_destroy s = (case rs_conn s of None \<Rightarrow> [] | Some c \<Rightarrow> [EvClose c, EvDelete c])"

definition server_addZone :: "(addr \<times> int) option \<Rightarrow> rserver \<Rightarrow> rserver" where
  "server_addZone z s =
     (case z of None \<Rightarrow> s | Some (a, idZone) \<Rightarrow> s\<lparr>rs_zones := mp_assign idZone a (rs_zones s)\<rparr>)"

definition server_delZone :: "int \<Rightarrow> rserver \<Rightarrow> rserver" where
  "server_delZone idZone s =
     (if mp_find (rs_zones s) idZone \<noteq> None then s\<lparr>rs_zones := mp_erase idZone (rs_zones s)\<rparr> else s)"

definition server_hasZone :: "int \<Rightarrow> rserver \<Rightarrow> bool" where
  "server_hasZone idZone s = (mp_find (rs_zones s) idZone \<noteq> None)"

definition server_connection :: "cid \<Rightarrow> rserver \<Rightarrow> rserver \<times> router_event list" where
  "server_connection c s =
     (s\<lparr>rs_conn := Some c\<rparr>, case rs_conn s of None \<Rightarrow> [] | Some d \<Rightarrow> [EvDelete d])"

definition server_send :: "router_msg \<Rightarrow> rserver \<Rightarrow> router_event list" where
  "server_send t s = (case rs_conn s of None \<Rightarrow> [] | Some c \<Rightarrow> [EvSend c t])"

definition server_sendToUsers ::
    "rzone store \<Rightarrow> ruser store \<Rightarrow> router_msg \<Rightarrow> rserver \<Rightarrow> router_event list result" where
  "server_sendToUsers zh uh t s =
     foldR (\<lambda>evs p. bindR (st_get zh (snd p))
              (\<lambda>z. bindR (zone_sendToUsers uh t z) (\<lambda>e. Inr (evs @ e)))) (rs_zones s) []"

definition server_sendToUsersInZone ::
    "rzone store \<Rightarrow> ruser store \<Rightarrow> int \<Rightarrow> router_msg \<Rightarrow> rserver \<Rightarrow> router_event list result" where
  "server_sendToUsersInZone zh uh idZone t s =
     (case mp_find (rs_zones s) idZone of
        None \<Rightarrow> Inr []
      | Some a \<Rightarrow> bindR (st_get zh a) (\<lambda>z. zone_sendToUsers uh t z))"

lemmas router_object_defs [model_defs] =
  user_new_def user_set_token_def user_validate_def user_set_zone_def user_connection_def
  zone_new_def zone_endTransfer_def zone_set_newServer_def zone_addUser_def zone_delUser_def
  server_new_def server_addZone_def server_delZone_def server_connection_def

section \<open>Zone membership\<close>

lemma zone_frame [simp]:
  "rz_id (zone_endTransfer z) = rz_id z" "rz_users (zone_endTransfer z) = rz_users z"
  "rz_id (zone_set_newServer s z) = rz_id z" "rz_users (zone_set_newServer s z) = rz_users z"
  "rz_server (zone_set_newServer s z) = rz_server z"
  "rz_id (zone_addUser x z) = rz_id z" "rz_server (zone_addUser x z) = rz_server z"
  "rz_id (zone_delUser i z) = rz_id z" "rz_server (zone_delUser i z) = rz_server z"
  "rz_inTransfer (zone_addUser x z) = rz_inTransfer z"
  "rz_inTransfer (zone_delUser i z) = rz_inTransfer z"
  by (simp_all add: model_defs split: option.splits)

lemma zone_addUser_find:
  "mp_find (rz_users (zone_addUser (Some (a, i)) z)) j =
     (if j = i \<and> mp_find (rz_users z) i = None then Some a else mp_find (rz_users z) j)"
  by (auto simp: zone_addUser_def)

lemma zone_delUser_find:
  "mp_find (rz_users (zone_delUser i z)) j = (if j = i then None else mp_find (rz_users z) j)"
  by (auto simp: zone_delUser_def)

lemma server_addZone_find:
  "mp_find (rs_zones (server_addZone (Some (a, i)) s)) j =
     (if j = i then Some a else mp_find (rs_zones s) j)"
  by (simp add: server_addZone_def)

lemma server_delZone_find:
  "mp_find (rs_zones (server_delZone i s)) j = (if j = i then None else mp_find (rs_zones s) j)"
  by (auto simp: server_delZone_def)

lemmas membership = zone_addUser_find zone_delUser_find server_addZone_find server_delZone_find

text \<open>A broadcast reaches every live user of the zone, in id order.\<close>

lemma zone_sendToUsers_foldR:
  assumes "\<forall>p\<in>set us. st_look uh (snd p) \<noteq> None"
  shows "foldR (\<lambda>evs p. bindR (st_get uh (snd p)) (\<lambda>u. Inr (evs @ user_send t u))) us evs =
    Inr (evs @ concat (map (\<lambda>p. user_send t (the (st_look uh (snd p)))) us))"
  using assms by (induction us arbitrary: evs) (auto simp: st_get_def)

lemma zone_sendToUsers_live:
  assumes "\<forall>p\<in>set (rz_users z). st_look uh (snd p) \<noteq> None"
  shows "zone_sendToUsers uh t z =
    Inr (concat (map (\<lambda>p. user_send t (the (st_look uh (snd p)))) (rz_users z)))"
  using zone_sendToUsers_foldR [OF assms, of t "[]"] by (simp add: zone_sendToUsers_def)

end
