(* ===== verification/Router.thy ===== *)
theory Router
  imports Router_Objects
begin

text \<open>
  The \<open>Router\<close> singleton (servrouter/src/Router.cpp): its three maps, the heaps of the
  zones and users they point to, and every operation. Here each operation is one step, which
  its mutexes provide but for the accesses that Router_Locks lists. A server object is reached
  through \<open>mServers\<close> only and is kept in that map.

  Dereferencing an iterator equal to \<open>end()\<close> is \<open>UB EndDeref\<close>, following the pointer to a
  deleted user, zone or connection is \<open>UB UseAfterFree\<close>.
\<close>

record router =
  rt_servers :: "(int, rserver) omap"
  rt_zones :: "(int, addr) omap"
  rt_users :: "(int, addr) omap"
  rt_zheap :: "rzone store"
  rt_uheap :: "ruser store"
  rt_events :: "router_event list"

definition router_new :: router where
  "router_new = \<lparr>rt_servers = [], rt_zones = [], rt_users = [], rt_zheap = st_empty,
     rt_uheap = st_empty, rt_events = []\<rparr>"

definition rt_emit :: "router_event list \<Rightarrow> router \<Rightarrow> router" where
  "rt_emit es r = r\<lparr>rt_events := rt_events r @ es\<rparr>"

text \<open>What a call does to connections, in order: touching a deleted one is \<open>UB UseAfterFree\<close>.\<close>

definition rt_do :: "router_event list \<Rightarrow> router \<Rightarrow> router result" where
  "rt_do es r = (if conn_events_ok (rt_events r) es then Inr (rt_emit es r) else Inl (UB UseAfterFree))"

definition rt_getZone :: "addr \<Rightarrow> router \<Rightarrow> rzone result" where
  "rt_getZone a r = st_get (rt_zheap r) a"

definition rt_putZone :: "addr \<Rightarrow> rzone \<Rightarrow> router \<Rightarrow> router" where
  "rt_putZone a z r = r\<lparr>rt_zheap := st_put a z (rt_zheap r)\<rparr>"

definition rt_getUser :: "addr \<Rightarrow> router \<Rightarrow> ruser result" where
  "rt_getUser a r = st_get (rt_uheap r) a"

definition rt_putUser :: "addr \<Rightarrow> ruser \<Rightarrow> router \<Rightarrow> router" where
  "rt_putUser a u r = r\<lparr>rt_uheap := st_put a u (rt_uheap r)\<rparr>"

definition rt_putServer :: "int \<Rightarrow> rserver \<Rightarrow> router \<Rightarrow> router" where
  "rt_putServer i s r = r\<lparr>rt_servers := mp_assign i s (rt_servers r)\<rparr>"

definition rt_deleteUser :: "addr \<Rightarrow> router \<Rightarrow> router result" where
  "rt_deleteUser a r =
     bindR (rt_getUser a r)
       (\<lambda>u. bindR (st_delete a (rt_uheap r))
         (\<lambda>h. rt_do (user_destroy u) (r\<lparr>rt_uheap := h\<rparr>)))"

definition rt_deleteZone :: "addr \<Rightarrow> router \<Rightarrow> router result" where
  "rt_deleteZone a r = bindR (st_delete a (rt_zheap r)) (\<lambda>h. Inr (r\<lparr>rt_zheap := h\<rparr>))"

section \<open>Servers and zones\<close>

definition rt_addServer :: "int \<Rightarrow> router \<Rightarrow> router" where
  "rt_addServer idServer r =
     (if mp_find (rt_servers r) idServer = None
      then rt_putServer idServer (server_new idServer) r else r)"

text \<open>The old connection is deleted before the new one is used: given the connection that the
  server has already, the call sends on the object it has just deleted.\<close>

definition rt_connectServer :: "int \<Rightarrow> cid \<Rightarrow> router \<Rightarrow> router result" where
  "rt_connectServer idServer c r =
     (case mp_find (rt_servers r) idServer of
        None \<Rightarrow> Inr r
      | Some srv \<Rightarrow>
          (let (srv', evs) = server_connection c srv
           in rt_do (evs @ [EvSend c AddRouterMsg]) (rt_putServer idServer srv' r)))"

definition rt_delServer :: "int \<Rightarrow> router \<Rightarrow> router result" where
  "rt_delServer idServer r =
     (case mp_find (rt_servers r) idServer of
        None \<Rightarrow> Inr r
      | Some srv \<Rightarrow>
          rt_do (server_destroy srv) (r\<lparr>rt_servers := mp_erase idServer (rt_servers r)\<rparr>))"

definition rt_addZone :: "int \<Rightarrow> router \<Rightarrow> router" where
  "rt_addZone idZone r =
     (if mp_find (rt_zones r) idZone = None
      then (let (a, h) = st_new (zone_new idZone) (rt_zheap r)
            in r\<lparr>rt_zheap := h, rt_zones := mp_assign idZone a (rt_zones r)\<rparr>)
      else r)"

definition rt_delZone :: "int \<Rightarrow> router \<Rightarrow> router result" where
  "rt_delZone idZone r =
     (case mp_find (rt_zones r) idZone of
        None \<Rightarrow> Inr r
      | Some a \<Rightarrow>
          bindR (rt_getZone a r)
            (\<lambda>z. let r1 = (case mp_find (rt_servers r) (rz_server z) of
                             None \<Rightarrow> r
                           | Some srv \<Rightarrow> rt_putServer (rz_server z) (server_delZone idZone srv) r)
                 in bindR (rt_deleteZone a r1)
                      (\<lambda>r2. Inr (r2\<lparr>rt_zones := mp_erase idZone (rt_zones r2)\<rparr>))))"

definition rt_startZoneToServerTransfer :: "int \<Rightarrow> int \<Rightarrow> router \<Rightarrow> router result" where
  "rt_startZoneToServerTransfer idZone newServer r =
     (case (mp_find (rt_zones r) idZone, mp_find (rt_servers r) newServer) of
        (Some a, Some _) \<Rightarrow>
          bindR (rt_getZone a r) (\<lambda>z. Inr (rt_putZone a (zone_set_newServer newServer z) r))
      | _ \<Rightarrow> Inr r)"

definition rt_endZoneToServerTransfer :: "int \<Rightarrow> router \<Rightarrow> router result" where
  "rt_endZoneToServerTransfer idZone r =
     (case mp_find (rt_zones r) idZone of
        None \<Rightarrow> Inr r
      | Some a \<Rightarrow>
          bindR (rt_getZone a r)
            (\<lambda>z. if \<not> rz_inTransfer z then Inr r
              else let oldServer = rz_server z; newServer = rz_newServer z in
                (case (mp_find (rt_servers r) oldServer, mp_find (rt_servers r) newServer) of
                   (Some old, Some _) \<Rightarrow>
                     (let r1 = rt_putServer oldServer (server_delZone idZone old) r in
                      (case mp_find (rt_servers r1) newServer of
                         None \<Rightarrow> Inl (UB EndDeref)
                       | Some new \<Rightarrow>
                           Inr (rt_putZone a (zone_endTransfer z)
                             (rt_putServer newServer (server_addZone (Some (a, rz_id z)) new) r1))))
                 | _ \<Rightarrow> Inr r)))"

section \<open>Users\<close>

definition rt_setUserToZone :: "int \<Rightarrow> int \<Rightarrow> router \<Rightarrow> router result" where
  "rt_setUserToZone idUser idZone r =
     (case (mp_find (rt_users r) idUser, mp_find (rt_zones r) idZone) of
        (Some ua, Some za) \<Rightarrow>
          bindR (rt_getUser ua r) (\<lambda>u.
          bindR (rt_getZone za r) (\<lambda>zn.
            let r1 = rt_putZone za (zone_addUser (Some (ua, ru_id u)) zn) r in
            bindR (ofOption (UB EndDeref) (mp_find (rt_zones r) (ru_zone u))) (\<lambda>oa.
            bindR (rt_getZone oa r1) (\<lambda>zo.
              Inr (rt_putUser ua (user_set_zone idZone u)
                     (rt_putZone oa (zone_delUser idUser zo) r1))))))
      | _ \<Rightarrow> Inr r)"

definition rt_addUser :: "int \<Rightarrow> int \<Rightarrow> router \<Rightarrow> router result" where
  "rt_addUser idUser token r =
     (case mp_find (rt_users r) idUser of
        None \<Rightarrow>
          (let (a, h) = st_new (user_new idUser token) (rt_uheap r)
           in Inr (r\<lparr>rt_uheap := h, rt_users := mp_assign idUser a (rt_users r)\<rparr>))
      | Some a \<Rightarrow>
          bindR (rt_getUser a r) (\<lambda>u. Inr (rt_putUser a (user_set_token token u) r)))"

definition rt_validateUser :: "int \<Rightarrow> int \<Rightarrow> router \<Rightarrow> (router \<times> bool) result" where
  "rt_validateUser idUser token r =
     (case mp_find (rt_users r) idUser of
        None \<Rightarrow> Inr (r, False)
      | Some a \<Rightarrow>
          bindR (rt_getUser a r)
            (\<lambda>u. let (u', b) = user_validate token u in Inr (rt_putUser a u' r, b)))"

definition rt_connectUser :: "int \<Rightarrow> int \<Rightarrow> cid \<Rightarrow> router \<Rightarrow> router result" where
  "rt_connectUser idUser token c r =
     (case mp_find (rt_users r) idUser of
        None \<Rightarrow> Inr r
      | Some a \<Rightarrow>
          bindR (rt_getUser a r)
            (\<lambda>u. let (u1, b) = user_validate token u in
              if b then (let (u2, evs) = user_connection c u1 in rt_do evs (rt_putUser a u2 r))
              else Inr (rt_putUser a u1 r)))"

definition rt_delUser :: "int \<Rightarrow> router \<Rightarrow> router result" where
  "rt_delUser idUser r =
     (case mp_find (rt_users r) idUser of
        None \<Rightarrow> Inr r
      | Some a \<Rightarrow>
          bindR (rt_getUser a r)
            (\<lambda>u. bindR (case mp_find (rt_zones r) (ru_zone u) of
                          None \<Rightarrow> Inr r
                        | Some za \<Rightarrow>
                            bindR (rt_getZone za r)
                              (\<lambda>z. Inr (rt_putZone za (zone_delUser idUser z) r)))
                   (\<lambda>r1. rt_deleteUser a r1)))"

section \<open>Relaying\<close>

definition rt_sendToServer :: "int \<Rightarrow> router_msg \<Rightarrow> router \<Rightarrow> router result" where
  "rt_sendToServer idServer t r =
     (case mp_find (rt_servers r) idServer of
        None \<Rightarrow> Inr r | Some srv \<Rightarrow> rt_do (server_send t srv) r)"

definition rt_sendToServerUsers :: "int \<Rightarrow> router_msg \<Rightarrow> router \<Rightarrow> router result" where
  "rt_sendToServerUsers idServer t r =
     (case mp_find (rt_servers r) idServer of
        None \<Rightarrow> Inr r
      | Some srv \<Rightarrow>
          bindR (server_sendToUsers (rt_zheap r) (rt_uheap r) t srv) (\<lambda>es. rt_do es r))"

text \<open>The condition of the source asks for \<open>itZone == mZones.end()\<close>.\<close>

definition rt_sendToZone :: "int \<Rightarrow> router_msg \<Rightarrow> router \<Rightarrow> router result" where
  "rt_sendToZone idZone t r =
     (case mp_find (rt_zones r) idZone of None \<Rightarrow> Inl (UB EndDeref) | Some _ \<Rightarrow> Inr r)"

definition rt_sendToUser :: "int \<Rightarrow> router_msg \<Rightarrow> router \<Rightarrow> router result" where
  "rt_sendToUser idUser t r =
     (case mp_find (rt_users r) idUser of
        None \<Rightarrow> Inr r
      | Some a \<Rightarrow> bindR (rt_getUser a r) (\<lambda>u. rt_do (user_send t u) r))"

section \<open>Destruction\<close>

definition rt_clear :: "router \<Rightarrow> router result" where
  "rt_clear r =
     bindR (foldR (\<lambda>s p. rt_deleteUser (snd p) s) (rt_users r) r) (\<lambda>r1.
     bindR (foldR (\<lambda>s p. rt_deleteZone (snd p) s) (rt_zones r) (r1\<lparr>rt_users := []\<rparr>)) (\<lambda>r2.
       let r3 = r2\<lparr>rt_zones := []\<rparr> in
       bindR (rt_do (concat (map (\<lambda>p. server_destroy (snd p)) (rt_servers r3))) r3)
         (\<lambda>r4. Inr (r4\<lparr>rt_servers := []\<rparr>))))"

definition rt_destroy :: "router \<Rightarrow> router result" where
  "rt_destroy r = rt_clear r"

end
