(* ===== verification/Router_Safety.thy ===== *)
theory Router_Safety
  imports Router
begin

text \<open>
  The router's representation invariant: which pointers of its containers are live and what
  they point to, and that the connections of its servers and users are not deleted and not
  shared; that every operation but \<open>delUser\<close> keeps it when the connections given to it are
  new; and what the operations that move zones and users do to the containers.
\<close>

section \<open>The invariant\<close>

definition rt_zones_wf :: "router \<Rightarrow> bool" where
  "rt_zones_wf r \<longleftrightarrow> (\<forall>k a. mp_find (rt_zones r) k = Some a \<longrightarrow>
     (\<exists>z. st_look (rt_zheap r) a = Some z \<and> rz_id z = k \<and> mp_ok (rz_users z) \<and>
       (\<forall>i b. mp_find (rz_users z) i = Some b \<longrightarrow> mp_find (rt_users r) i = Some b)))"

definition rt_users_wf :: "router \<Rightarrow> bool" where
  "rt_users_wf r \<longleftrightarrow> (\<forall>i a. mp_find (rt_users r) i = Some a \<longrightarrow>
     (\<exists>u. st_look (rt_uheap r) a = Some u \<and> ru_id u = i))"

definition rt_servers_wf :: "router \<Rightarrow> bool" where
  "rt_servers_wf r \<longleftrightarrow> (\<forall>s srv. mp_find (rt_servers r) s = Some srv \<longrightarrow>
     mp_ok (rs_zones srv) \<and>
     (\<forall>k a. mp_find (rs_zones srv) k = Some a \<longrightarrow>
       mp_find (rt_zones r) k = Some a \<and>
       (\<exists>z. st_look (rt_zheap r) a = Some z \<and> rz_server z = s)))"

definition rt_ptr_wf :: "router \<Rightarrow> bool" where
  "rt_ptr_wf r \<longleftrightarrow> st_ok (rt_zheap r) \<and> st_ok (rt_uheap r) \<and>
     rt_zones_wf r \<and> rt_users_wf r \<and> rt_servers_wf r"

lemmas rt_wf_parts = rt_zones_wf_def rt_users_wf_def rt_servers_wf_def

lemma rt_wf_zone:
  assumes "rt_ptr_wf r" and "mp_find (rt_zones r) k = Some a"
  obtains z where "st_look (rt_zheap r) a = Some z" and "rz_id z = k" and "mp_ok (rz_users z)"
    and "\<And>i b. mp_find (rz_users z) i = Some b \<Longrightarrow> mp_find (rt_users r) i = Some b"
  using assms unfolding rt_ptr_wf_def rt_zones_wf_def by metis

lemma rt_wf_user:
  assumes "rt_ptr_wf r" and "mp_find (rt_users r) i = Some a"
  obtains u where "st_look (rt_uheap r) a = Some u" and "ru_id u = i"
  using assms unfolding rt_ptr_wf_def rt_users_wf_def by metis

lemma rt_wf_server:
  assumes "rt_ptr_wf r" and "mp_find (rt_servers r) s = Some srv"
  shows "mp_ok (rs_zones srv)"
    and "mp_find (rs_zones srv) k = Some a \<Longrightarrow> mp_find (rt_zones r) k = Some a"
    and "mp_find (rs_zones srv) k = Some a \<Longrightarrow> st_look (rt_zheap r) a = Some z \<Longrightarrow> rz_server z = s"
  using assms unfolding rt_ptr_wf_def rt_servers_wf_def by (auto, metis option.inject)

lemma ptr_wf_new: "rt_ptr_wf router_new"
  by (simp add: rt_ptr_wf_def rt_wf_parts router_new_def)

section \<open>Building blocks\<close>

lemma rt_emit_frame [simp]:
  "rt_servers (rt_emit es r) = rt_servers r" "rt_zones (rt_emit es r) = rt_zones r"
  "rt_users (rt_emit es r) = rt_users r" "rt_zheap (rt_emit es r) = rt_zheap r"
  "rt_uheap (rt_emit es r) = rt_uheap r" "rt_events (rt_emit es r) = rt_events r @ es"
  by (simp_all add: rt_emit_def)

lemma rt_putZone_frame [simp]:
  "rt_servers (rt_putZone a z r) = rt_servers r" "rt_zones (rt_putZone a z r) = rt_zones r"
  "rt_users (rt_putZone a z r) = rt_users r" "rt_uheap (rt_putZone a z r) = rt_uheap r"
  "rt_zheap (rt_putZone a z r) = st_put a z (rt_zheap r)"
  "rt_events (rt_putZone a z r) = rt_events r"
  by (simp_all add: rt_putZone_def)

lemma rt_putUser_frame [simp]:
  "rt_servers (rt_putUser a u r) = rt_servers r" "rt_zones (rt_putUser a u r) = rt_zones r"
  "rt_users (rt_putUser a u r) = rt_users r" "rt_zheap (rt_putUser a u r) = rt_zheap r"
  "rt_uheap (rt_putUser a u r) = st_put a u (rt_uheap r)"
  "rt_events (rt_putUser a u r) = rt_events r"
  by (simp_all add: rt_putUser_def)

lemma rt_putServer_frame [simp]:
  "rt_servers (rt_putServer s srv r) = mp_assign s srv (rt_servers r)"
  "rt_zones (rt_putServer s srv r) = rt_zones r" "rt_users (rt_putServer s srv r) = rt_users r"
  "rt_zheap (rt_putServer s srv r) = rt_zheap r" "rt_uheap (rt_putServer s srv r) = rt_uheap r"
  "rt_events (rt_putServer s srv r) = rt_events r"
  by (simp_all add: rt_putServer_def)

lemma rt_wf_emit [simp]: "rt_ptr_wf (rt_emit es r) = rt_ptr_wf r"
  by (simp add: rt_ptr_wf_def rt_wf_parts)

lemma rt_do_Inr: "rt_do es r = Inr r' \<longleftrightarrow> conn_events_ok (rt_events r) es \<and> r' = rt_emit es r"
  by (auto simp: rt_do_def)

lemma rt_do_cases: "rt_do es r = Inl (UB UseAfterFree) \<or> rt_do es r = Inr (rt_emit es r)"
  by (simp add: rt_do_def)

lemma rt_getZone_Inr [simp]: "rt_getZone a r = Inr z \<longleftrightarrow> st_look (rt_zheap r) a = Some z"
  by (simp add: rt_getZone_def)

lemma rt_getUser_Inr [simp]: "rt_getUser a r = Inr u \<longleftrightarrow> st_look (rt_uheap r) a = Some u"
  by (simp add: rt_getUser_def)

lemma rt_wf_putUser:
  assumes "rt_ptr_wf r" and "mp_find (rt_users r) i = Some a" and "ru_id u = i"
  shows "rt_ptr_wf (rt_putUser a u r)"
proof -
  from assms(1,2) obtain u0 where u0: "st_look (rt_uheap r) a = Some u0" "ru_id u0 = i"
    by (rule rt_wf_user)
  then have "st_ok (st_put a u (rt_uheap r))"
    using assms(1) by (simp add: rt_ptr_wf_def st_ok_put)
  moreover have "rt_users_wf (rt_putUser a u r)"
    using assms u0 by (auto simp: rt_ptr_wf_def rt_users_wf_def) (metis option.inject)
  ultimately show ?thesis
    using assms(1) by (simp add: rt_ptr_wf_def rt_zones_wf_def rt_servers_wf_def)
qed

lemma rt_wf_putZone:
  assumes r: "rt_ptr_wf r" and k: "mp_find (rt_zones r) k = Some a" and z: "rz_id z = k"
    and "mp_ok (rz_users z)"
    and "\<And>i b. mp_find (rz_users z) i = Some b \<Longrightarrow> mp_find (rt_users r) i = Some b"
    and srv: "\<And>s srv. mp_find (rt_servers r) s = Some srv \<Longrightarrow>
      mp_find (rs_zones srv) k = Some a \<Longrightarrow> rz_server z = s"
  shows "rt_ptr_wf (rt_putZone a z r)"
proof -
  from r k obtain z0 where z0: "st_look (rt_zheap r) a = Some z0" "rz_id z0 = k"
    by (rule rt_wf_zone)
  have only: "k' = k" if "mp_find (rt_zones r) k' = Some a" for k'
    by (rule rt_wf_zone [OF r that]) (use z0 in simp)
  have "st_ok (st_put a z (rt_zheap r))"
    using r z0 by (simp add: rt_ptr_wf_def st_ok_put)
  moreover have "rt_zones_wf (rt_putZone a z r)"
    unfolding rt_zones_wf_def
  proof (intro allI impI)
    fix k' a' assume k': "mp_find (rt_zones (rt_putZone a z r)) k' = Some a'"
    show "\<exists>z'. st_look (rt_zheap (rt_putZone a z r)) a' = Some z' \<and> rz_id z' = k' \<and>
        mp_ok (rz_users z') \<and> (\<forall>i b. mp_find (rz_users z') i = Some b \<longrightarrow>
          mp_find (rt_users (rt_putZone a z r)) i = Some b)"
    proof (cases "a' = a")
      case True
      with k' only have "k' = k" by simp
      with True assms(3-5) show ?thesis by simp
    next
      case False
      from k' have "mp_find (rt_zones r) k' = Some a'" by simp
      from r this obtain w where "st_look (rt_zheap r) a' = Some w" "rz_id w = k'"
        "mp_ok (rz_users w)" "\<And>i b. mp_find (rz_users w) i = Some b \<Longrightarrow> mp_find (rt_users r) i = Some b"
        by (rule rt_wf_zone) blast
      with False show ?thesis by simp
    qed
  qed
  moreover have "rt_servers_wf (rt_putZone a z r)"
    unfolding rt_servers_wf_def
  proof (intro allI impI)
    fix s sv assume s: "mp_find (rt_servers (rt_putZone a z r)) s = Some sv"
    then have s': "mp_find (rt_servers r) s = Some sv" by simp
    from r s' have "mp_ok (rs_zones sv)" by (rule rt_wf_server)
    moreover have "mp_find (rt_zones r) k' = Some a' \<and>
        (\<exists>z'. st_look (st_put a z (rt_zheap r)) a' = Some z' \<and> rz_server z' = s)"
      if z': "mp_find (rs_zones sv) k' = Some a'" for k' a'
    proof -
      have k': "mp_find (rt_zones r) k' = Some a'" using rt_wf_server(2) [OF r s' z'] .
      from r k' obtain w where w: "st_look (rt_zheap r) a' = Some w" by (rule rt_wf_zone)
      show ?thesis
        using k' w rt_wf_server(3) [OF r s' z' w] srv [OF s'] z' only by (cases "a' = a") auto
    qed
    ultimately show "mp_ok (rs_zones sv) \<and> (\<forall>k' a'. mp_find (rs_zones sv) k' = Some a' \<longrightarrow>
        mp_find (rt_zones (rt_putZone a z r)) k' = Some a' \<and>
        (\<exists>z'. st_look (rt_zheap (rt_putZone a z r)) a' = Some z' \<and> rz_server z' = s))"
      by simp
  qed
  ultimately show ?thesis using r by (simp add: rt_ptr_wf_def rt_users_wf_def)
qed

lemma rt_wf_putServer:
  assumes "rt_ptr_wf r" and "mp_ok (rs_zones srv)"
    and "\<And>k a. mp_find (rs_zones srv) k = Some a \<Longrightarrow> mp_find (rt_zones r) k = Some a \<and>
      (\<exists>z. st_look (rt_zheap r) a = Some z \<and> rz_server z = s)"
  shows "rt_ptr_wf (rt_putServer s srv r)"
  using assms by (auto simp: rt_ptr_wf_def rt_zones_wf_def rt_users_wf_def rt_servers_wf_def)

section \<open>The operations keep it\<close>

lemma rt_wf_addServer: "rt_ptr_wf r \<Longrightarrow> rt_ptr_wf (rt_addServer i r)"
  by (auto simp: rt_addServer_def server_new_def intro!: rt_wf_putServer)

lemma rt_wf_reput:
  assumes "rt_ptr_wf r" and "mp_find (rt_servers r) s = Some srv" and "rs_zones srv' = rs_zones srv"
  shows "rt_ptr_wf (rt_putServer s srv' r)"
  using assms by (simp add: rt_ptr_wf_def rt_wf_parts)

lemma rt_wf_connectServer: "rt_ptr_wf r \<Longrightarrow> rt_connectServer i c r = Inr r' \<Longrightarrow> rt_ptr_wf r'"
  by (cases "mp_find (rt_servers r) i")
     (auto simp: rt_connectServer_def server_connection_def rt_do_Inr rt_wf_reput)

lemma rt_wf_delServer: "rt_ptr_wf r \<Longrightarrow> rt_delServer i r = Inr r' \<Longrightarrow> rt_ptr_wf r'"
  by (auto simp: rt_delServer_def rt_do_Inr rt_ptr_wf_def rt_wf_parts split: option.splits)

lemma rt_wf_addZone:
  assumes r: "rt_ptr_wf r"
  shows "rt_ptr_wf (rt_addZone k r)"
proof (cases "mp_find (rt_zones r) k")
  case None
  obtain a h where new: "st_new (zone_new k) (rt_zheap r) = (a, h)" by fastforce
  have ok: "st_ok (rt_zheap r)" using r by (simp add: rt_ptr_wf_def)
  have fresh: "st_look (rt_zheap r) a = None" using st.new_fresh [OF ok new] .
  have look: "st_look h b = (if b = a then Some (zone_new k) else st_look (rt_zheap r) b)" for b
    using st.look_new [OF new] by simp
  have keep: "st_look h b = Some z" if "st_look (rt_zheap r) b = Some z" for b z
    using that fresh look by auto
  let ?r = "r\<lparr>rt_zheap := h, rt_zones := mp_assign k a (rt_zones r)\<rparr>"
  have "rt_zones_wf ?r"
    unfolding rt_zones_wf_def
  proof (intro allI impI)
    fix k' b assume k': "mp_find (rt_zones ?r) k' = Some b"
    show "\<exists>z. st_look (rt_zheap ?r) b = Some z \<and> rz_id z = k' \<and> mp_ok (rz_users z) \<and>
      (\<forall>i c. mp_find (rz_users z) i = Some c \<longrightarrow> mp_find (rt_users ?r) i = Some c)"
    proof (cases "k' = k")
      case True
      with k' look show ?thesis by (simp add: zone_new_def)
    next
      case False
      with k' have "mp_find (rt_zones r) k' = Some b" by simp
      with r obtain z where z: "st_look (rt_zheap r) b = Some z" "rz_id z = k'" "mp_ok (rz_users z)"
        "\<And>i c. mp_find (rz_users z) i = Some c \<Longrightarrow> mp_find (rt_users r) i = Some c"
        by (rule rt_wf_zone) blast
      from z(1) have "st_look (rt_zheap ?r) b = Some z" using keep by simp
      with z(2-) show ?thesis by simp
    qed
  qed
  moreover have "rt_servers_wf ?r"
    unfolding rt_servers_wf_def
  proof (intro allI impI)
    fix s srv assume "mp_find (rt_servers ?r) s = Some srv"
    then have s: "mp_find (rt_servers r) s = Some srv" by simp
    show "mp_ok (rs_zones srv) \<and> (\<forall>k' b. mp_find (rs_zones srv) k' = Some b \<longrightarrow>
        mp_find (rt_zones ?r) k' = Some b \<and>
        (\<exists>z. st_look (rt_zheap ?r) b = Some z \<and> rz_server z = s))"
    proof (intro conjI allI impI)
      show "mp_ok (rs_zones srv)" using r s by (rule rt_wf_server)
      fix k' b assume b: "mp_find (rs_zones srv) k' = Some b"
      have z: "mp_find (rt_zones r) k' = Some b" using rt_wf_server(2) [OF r s b] .
      with None show "mp_find (rt_zones ?r) k' = Some b" by auto
      from r z obtain w where w: "st_look (rt_zheap r) b = Some w" by (rule rt_wf_zone)
      with keep rt_wf_server(3) [OF r s b w]
      show "\<exists>z. st_look (rt_zheap ?r) b = Some z \<and> rz_server z = s" by simp
    qed
  qed
  ultimately show ?thesis
    using r None st_ok_new [OF ok new] new
    by (simp add: rt_addZone_def rt_ptr_wf_def rt_users_wf_def)
qed (use r in \<open>simp add: rt_addZone_def\<close>)

lemma rt_addUser_wf:
  assumes r: "rt_ptr_wf r"
  shows "\<exists>r'. rt_addUser i t r = Inr r' \<and> rt_ptr_wf r'"
proof (cases "mp_find (rt_users r) i")
  case None
  obtain a h where new: "st_new (user_new i t) (rt_uheap r) = (a, h)" by fastforce
  have ok: "st_ok (rt_uheap r)" using r by (simp add: rt_ptr_wf_def)
  have look: "st_look h b = (if b = a then Some (user_new i t) else st_look (rt_uheap r) b)" for b
    using st.look_new [OF new] by simp
  have keep: "st_look h b = Some u" if "st_look (rt_uheap r) b = Some u" for b u
    using that st.new_fresh [OF ok new] look by auto
  let ?r = "r\<lparr>rt_uheap := h, rt_users := mp_assign i a (rt_users r)\<rparr>"
  have "rt_users_wf ?r"
    unfolding rt_users_wf_def
  proof (intro allI impI)
    fix j b assume j: "mp_find (rt_users ?r) j = Some b"
    show "\<exists>u. st_look (rt_uheap ?r) b = Some u \<and> ru_id u = j"
    proof (cases "j = i")
      case True
      with j look show ?thesis by (simp add: user_new_def)
    next
      case False
      with j have "mp_find (rt_users r) j = Some b" by simp
      with r obtain u where "st_look (rt_uheap r) b = Some u" "ru_id u = j" by (rule rt_wf_user)
      with keep show ?thesis by simp
    qed
  qed
  moreover have "rt_zones_wf ?r"
    unfolding rt_zones_wf_def
  proof (intro allI impI)
    fix k b assume "mp_find (rt_zones ?r) k = Some b"
    then have "mp_find (rt_zones r) k = Some b" by simp
    with r obtain z where z: "st_look (rt_zheap r) b = Some z" "rz_id z = k" "mp_ok (rz_users z)"
      and zu: "\<And>i c. mp_find (rz_users z) i = Some c \<Longrightarrow> mp_find (rt_users r) i = Some c"
      by (rule rt_wf_zone) blast
    have "mp_find (rt_users ?r) j = Some c" if "mp_find (rz_users z) j = Some c" for j c
      using zu [OF that] None by auto
    with z show "\<exists>z. st_look (rt_zheap ?r) b = Some z \<and> rz_id z = k \<and> mp_ok (rz_users z) \<and>
      (\<forall>i c. mp_find (rz_users z) i = Some c \<longrightarrow> mp_find (rt_users ?r) i = Some c)" by simp
  qed
  ultimately show ?thesis
    using r None st_ok_new [OF ok new] new
    by (simp add: rt_addUser_def rt_ptr_wf_def rt_servers_wf_def)
next
  case (Some a)
  with r obtain u where "st_look (rt_uheap r) a = Some u" "ru_id u = i" by (rule rt_wf_user)
  with Some r show ?thesis
    by (auto simp: rt_addUser_def rt_getUser_def st_get_def user_set_token_def
        intro!: rt_wf_putUser)
qed

lemma rt_validateUser_wf:
  assumes r: "rt_ptr_wf r"
  shows "\<exists>r'. rt_validateUser i t r = Inr (r', mp_find (rt_users r) i \<noteq> None \<and> t \<noteq> 0) \<and> rt_ptr_wf r'"
proof (cases "mp_find (rt_users r) i")
  case (Some a)
  with r obtain u where "st_look (rt_uheap r) a = Some u" "ru_id u = i" by (rule rt_wf_user)
  with Some r show ?thesis
    by (auto simp: rt_validateUser_def rt_getUser_def st_get_def user_validate_def
        intro!: rt_wf_putUser)
qed (use r in \<open>simp add: rt_validateUser_def\<close>)

lemma rt_connectUser_wf:
  assumes r: "rt_ptr_wf r"
  shows "rt_connectUser i t c r = Inl (UB UseAfterFree) \<or>
    (\<exists>r'. rt_connectUser i t c r = Inr r' \<and> rt_ptr_wf r')"
proof (cases "mp_find (rt_users r) i")
  case (Some a)
  with r obtain u where "st_look (rt_uheap r) a = Some u" "ru_id u = i" by (rule rt_wf_user)
  with Some r show ?thesis
    by (auto simp: rt_connectUser_def rt_getUser_def st_get_def user_validate_def rt_do_def
        user_connection_def intro!: rt_wf_putUser)
qed (use r in \<open>simp add: rt_connectUser_def\<close>)

lemma rt_getZone_live: "st_look (rt_zheap r) a = Some z \<Longrightarrow> rt_getZone a r = Inr z"
  by simp

lemma rt_getUser_live: "st_look (rt_uheap r) a = Some u \<Longrightarrow> rt_getUser a r = Inr u"
  by simp

lemma rt_start_wf:
  assumes r: "rt_ptr_wf r"
  shows "\<exists>r'. rt_startZoneToServerTransfer k s r = Inr r' \<and> rt_ptr_wf r'"
proof (cases "mp_find (rt_zones r) k")
  case (Some a)
  from r Some obtain z where z: "st_look (rt_zheap r) a = Some z" "rz_id z = k" "mp_ok (rz_users z)"
    "\<And>i b. mp_find (rz_users z) i = Some b \<Longrightarrow> mp_find (rt_users r) i = Some b"
    by (rule rt_wf_zone) blast
  have "rt_ptr_wf (rt_putZone a (zone_set_newServer s z) r)"
    by (rule rt_wf_putZone [OF r Some]) (use z rt_wf_server(3) [OF r] in auto)
  with Some z(1) r show ?thesis
    by (cases "mp_find (rt_servers r) s")
       (simp_all add: rt_startZoneToServerTransfer_def rt_getZone_live)
qed (use r in \<open>simp add: rt_startZoneToServerTransfer_def\<close>)

text \<open>The server that owns a zone is the only one that can point to it.\<close>

lemma rt_wf_dropZone:
  assumes r: "rt_ptr_wf r" and k: "mp_find (rt_zones r) k = Some a"
    and z: "st_look (rt_zheap r) a = Some z"
    and srv: "mp_find (rt_servers r) (rz_server z) = Some srv"
  shows "rt_ptr_wf (rt_putServer (rz_server z) (server_delZone k srv) r)"
    and "mp_find (rt_servers (rt_putServer (rz_server z) (server_delZone k srv) r)) s = Some sv \<Longrightarrow>
      mp_find (rs_zones sv) k = None"
proof -
  have del: "mp_ok (rs_zones (server_delZone k srv))"
    using rt_wf_server(1) [OF r srv] by (simp add: server_delZone_def mp_ok_erase)
  show "rt_ptr_wf (rt_putServer (rz_server z) (server_delZone k srv) r)"
  proof (rule rt_wf_putServer [OF r del])
    fix k' b assume "mp_find (rs_zones (server_delZone k srv)) k' = Some b"
    then have b: "mp_find (rs_zones srv) k' = Some b"
      by (simp add: server_delZone_find split: if_splits)
    from rt_wf_server(2) [OF r srv b] have k': "mp_find (rt_zones r) k' = Some b" .
    with r obtain w where w: "st_look (rt_zheap r) b = Some w" by (rule rt_wf_zone)
    with k' rt_wf_server(3) [OF r srv b w]
    show "mp_find (rt_zones r) k' = Some b \<and>
      (\<exists>w. st_look (rt_zheap r) b = Some w \<and> rz_server w = rz_server z)" by simp
  qed
  assume s: "mp_find (rt_servers (rt_putServer (rz_server z) (server_delZone k srv) r)) s = Some sv"
  show "mp_find (rs_zones sv) k = None"
  proof (cases "s = rz_server z")
    case True
    with s show ?thesis by (auto simp: server_delZone_find)
  next
    case False
    with s have s': "mp_find (rt_servers r) s = Some sv" by simp
    show ?thesis
    proof (rule ccontr)
      assume "mp_find (rs_zones sv) k \<noteq> None"
      then obtain b where b: "mp_find (rs_zones sv) k = Some b" by auto
      with rt_wf_server(2) [OF r s'] k have "b = a" by force
      with rt_wf_server(3) [OF r s'] b z False show False by force
    qed
  qed
qed

lemma rt_end_wf:
  assumes r: "rt_ptr_wf r"
  shows "\<exists>r'. rt_endZoneToServerTransfer k r = Inr r' \<and> rt_ptr_wf r'"
proof (cases "mp_find (rt_zones r) k")
  case (Some a)
  from r Some obtain z where z: "st_look (rt_zheap r) a = Some z" "rz_id z = k" "mp_ok (rz_users z)"
    "\<And>i b. mp_find (rz_users z) i = Some b \<Longrightarrow> mp_find (rt_users r) i = Some b"
    by (rule rt_wf_zone) blast
  show ?thesis
  proof (cases "rz_inTransfer z \<and> mp_find (rt_servers r) (rz_server z) \<noteq> None \<and>
      mp_find (rt_servers r) (rz_newServer z) \<noteq> None")
    case True
    then obtain old where old: "mp_find (rt_servers r) (rz_server z) = Some old" by auto
    let ?r1 = "rt_putServer (rz_server z) (server_delZone k old) r"
    from True obtain new where new: "mp_find (rt_servers ?r1) (rz_newServer z) = Some new"
      by (cases "rz_newServer z = rz_server z") auto
    have r1: "rt_ptr_wf ?r1" using rt_wf_dropZone(1) [OF r Some z(1) old] .
    let ?z = "zone_endTransfer z"
    have zs: "rz_server ?z = rz_newServer z" using True by (simp add: zone_endTransfer_def)
    have k1: "mp_find (rt_zones ?r1) k = Some a" using Some by simp
    have r2: "rt_ptr_wf (rt_putZone a ?z ?r1)"
    proof (rule rt_wf_putZone [OF r1 k1])
      show "rz_id ?z = k" "mp_ok (rz_users ?z)" using z(2,3) by simp_all
      show "mp_find (rt_users ?r1) i = Some b" if "mp_find (rz_users ?z) i = Some b" for i b
        using z(4) that by simp
      show "rz_server ?z = s" if s: "mp_find (rt_servers ?r1) s = Some sv"
        and "mp_find (rs_zones sv) k = Some a" for s sv
        using rt_wf_dropZone(2) [OF r Some z(1) old s] that(2) by simp
    qed
    let ?new = "server_addZone (Some (a, rz_id z)) new"
    have new2: "mp_find (rt_servers (rt_putZone a ?z ?r1)) (rz_newServer z) = Some new"
      using new by simp
    have r3: "rt_ptr_wf (rt_putServer (rz_newServer z) ?new (rt_putZone a ?z ?r1))"
    proof (rule rt_wf_putServer [OF r2])
      show "mp_ok (rs_zones ?new)"
        using rt_wf_server(1) [OF r1 new] by (simp add: server_addZone_def mp_ok_assign)
      fix k' b assume kb: "mp_find (rs_zones ?new) k' = Some b"
      show "mp_find (rt_zones (rt_putZone a ?z ?r1)) k' = Some b \<and>
        (\<exists>w. st_look (rt_zheap (rt_putZone a ?z ?r1)) b = Some w \<and> rz_server w = rz_newServer z)"
      proof (cases "k' = k")
        case True
        with kb z zs Some show ?thesis by (simp add: server_addZone_find)
      next
        case False
        with kb z(2) have b: "mp_find (rs_zones new) k' = Some b" by (simp add: server_addZone_find)
        from rt_wf_server(2) [OF r2 new2 b]
        have k': "mp_find (rt_zones (rt_putZone a ?z ?r1)) k' = Some b" .
        with r2 obtain w where w: "st_look (rt_zheap (rt_putZone a ?z ?r1)) b = Some w"
          by (rule rt_wf_zone)
        from rt_wf_server(3) [OF r2 new2 b w] k' w show ?thesis by blast
      qed
    qed
    obtain y where y: "mp_find (rt_servers r) (rz_newServer z) = Some y" using True by auto
    have "rt_endZoneToServerTransfer k r =
        Inr (rt_putZone a ?z (rt_putServer (rz_newServer z) ?new ?r1))"
      using Some z(1) old new True y
      by (cases "rz_newServer z = rz_server z")
         (simp_all add: rt_endZoneToServerTransfer_def rt_getZone_live Let_def)
    then have "rt_endZoneToServerTransfer k r =
        Inr (rt_putServer (rz_newServer z) ?new (rt_putZone a ?z ?r1))"
      by (simp add: rt_putServer_def rt_putZone_def)
    with r3 show ?thesis by simp
  next
    case False
    with Some z(1) r show ?thesis
      by (cases "mp_find (rt_servers r) (rz_server z)"; cases "mp_find (rt_servers r) (rz_newServer z)")
         (simp_all add: rt_endZoneToServerTransfer_def rt_getZone_live Let_def)
  qed
qed (use r in \<open>simp add: rt_endZoneToServerTransfer_def\<close>)

text \<open>Forgetting a zone nobody points to.\<close>

lemma rt_wf_forgetZone:
  assumes r: "rt_ptr_wf r" and k: "mp_find (rt_zones r) k = Some a"
    and del: "st_delete a (rt_zheap r) = Inr h"
    and nobody: "\<And>s sv. mp_find (rt_servers r) s = Some sv \<Longrightarrow> mp_find (rs_zones sv) k = None"
  shows "rt_ptr_wf (r\<lparr>rt_zheap := h, rt_zones := mp_erase k (rt_zones r)\<rparr>)" (is "rt_ptr_wf ?r")
proof -
  from r k obtain z where z: "st_look (rt_zheap r) a = Some z" "rz_id z = k" by (rule rt_wf_zone)
  have look: "st_look h b = st_look (rt_zheap r) b" if "mp_find (rt_zones r) k' = Some b" "k' \<noteq> k"
    for k' b
  proof -
    from r that(1) obtain w where "st_look (rt_zheap r) b = Some w" "rz_id w = k'"
      by (rule rt_wf_zone)
    with z that(2) have "b \<noteq> a" by auto
    then show ?thesis using st.look_delete [OF del] by simp
  qed
  have "rt_zones_wf ?r"
    using r look unfolding rt_ptr_wf_def rt_zones_wf_def by (auto split: if_splits)
  moreover have "rt_servers_wf ?r"
    unfolding rt_servers_wf_def
  proof (intro allI impI)
    fix s srv assume "mp_find (rt_servers ?r) s = Some srv"
    then have s: "mp_find (rt_servers r) s = Some srv" by simp
    show "mp_ok (rs_zones srv) \<and> (\<forall>k' b. mp_find (rs_zones srv) k' = Some b \<longrightarrow>
        mp_find (rt_zones ?r) k' = Some b \<and>
        (\<exists>z. st_look (rt_zheap ?r) b = Some z \<and> rz_server z = s))"
    proof (intro conjI allI impI)
      show "mp_ok (rs_zones srv)" using r s by (rule rt_wf_server)
      fix k' b assume b: "mp_find (rs_zones srv) k' = Some b"
      with nobody [OF s] have ne: "k' \<noteq> k" by auto
      have k': "mp_find (rt_zones r) k' = Some b" using rt_wf_server(2) [OF r s b] .
      with ne show "mp_find (rt_zones ?r) k' = Some b" by simp
      from r k' obtain w where w: "st_look (rt_zheap r) b = Some w" by (rule rt_wf_zone)
      with look [OF k' ne] rt_wf_server(3) [OF r s b w]
      show "\<exists>z. st_look (rt_zheap ?r) b = Some z \<and> rz_server z = s" by simp
    qed
  qed
  ultimately show ?thesis
    using r st_ok_delete [OF _ del] by (simp add: rt_ptr_wf_def rt_users_wf_def)
qed

lemma rt_deleteZone_frame:
  "rt_deleteZone a r = Inr r' \<longleftrightarrow> (\<exists>h. st_delete a (rt_zheap r) = Inr h \<and> r' = r\<lparr>rt_zheap := h\<rparr>)"
  by (auto simp: rt_deleteZone_def bindR_eq_Inr)

lemma rt_delZone_wf:
  assumes r: "rt_ptr_wf r"
  shows "\<exists>r'. rt_delZone k r = Inr r' \<and> rt_ptr_wf r'"
proof (cases "mp_find (rt_zones r) k")
  case (Some a)
  from r Some obtain z where z: "st_look (rt_zheap r) a = Some z" by (rule rt_wf_zone)
  define r1 where "r1 = (case mp_find (rt_servers r) (rz_server z) of None \<Rightarrow> r
    | Some srv \<Rightarrow> rt_putServer (rz_server z) (server_delZone k srv) r)"
  have same: "rt_zones r1 = rt_zones r" "rt_zheap r1 = rt_zheap r"
    by (simp_all add: r1_def split: option.splits)
  have wf1: "rt_ptr_wf r1"
    using r rt_wf_dropZone(1) [OF r Some z] by (simp add: r1_def split: option.splits)
  have nobody: "mp_find (rs_zones sv) k = None" if s: "mp_find (rt_servers r1) s = Some sv" for s sv
  proof (cases "mp_find (rt_servers r) (rz_server z)")
    case None
    with s have s': "mp_find (rt_servers r) s = Some sv" by (simp add: r1_def)
    show ?thesis
    proof (rule ccontr)
      assume "mp_find (rs_zones sv) k \<noteq> None"
      then obtain b where b: "mp_find (rs_zones sv) k = Some b" by auto
      with rt_wf_server(2) [OF r s'] Some have "b = a" by force
      with rt_wf_server(3) [OF r s' b] z None s' show False by auto
    qed
  next
    case (Some srv)
    with s rt_wf_dropZone(2) [OF r \<open>mp_find (rt_zones r) k = Some a\<close> z Some]
    show ?thesis by (simp add: r1_def)
  qed
  obtain h where h: "st_delete a (rt_zheap r1) = Inr h"
    using st_delete_ok z same by metis
  have "rt_delZone k r = Inr (r1\<lparr>rt_zheap := h, rt_zones := mp_erase k (rt_zones r1)\<rparr>)"
    using Some z h by (simp add: rt_delZone_def rt_getZone_live r1_def [symmetric] rt_deleteZone_def)
  moreover have "rt_ptr_wf (r1\<lparr>rt_zheap := h, rt_zones := mp_erase k (rt_zones r1)\<rparr>)"
    by (rule rt_wf_forgetZone [OF wf1 _ h nobody]) (use same Some in auto)
  ultimately show ?thesis by blast
qed (use r in \<open>simp add: rt_delZone_def\<close>)

lemma rt_wf_zone_add:
  assumes r: "rt_ptr_wf r" and k: "mp_find (rt_zones r) k = Some a"
    and z: "st_look (rt_zheap r) a = Some z" and i: "mp_find (rt_users r) i = Some b"
  shows "rt_ptr_wf (rt_putZone a (zone_addUser (Some (b, i)) z) r)"
proof -
  from r k z have "rz_id z = k" and "mp_ok (rz_users z)"
    and "\<And>i b. mp_find (rz_users z) i = Some b \<Longrightarrow> mp_find (rt_users r) i = Some b"
    by (auto elim!: rt_wf_zone)
  then show ?thesis
    using z i rt_wf_server(3) [OF r _ _ z]
    by (intro rt_wf_putZone [OF r k])
       (auto simp: zone_addUser_find zone_addUser_def mp_ok_assign split: if_splits)
qed

lemma rt_wf_zone_del:
  assumes r: "rt_ptr_wf r" and k: "mp_find (rt_zones r) k = Some a"
    and z: "st_look (rt_zheap r) a = Some z"
  shows "rt_ptr_wf (rt_putZone a (zone_delUser i z) r)"
proof -
  from r k z have "rz_id z = k" and "mp_ok (rz_users z)"
    and "\<And>i b. mp_find (rz_users z) i = Some b \<Longrightarrow> mp_find (rt_users r) i = Some b"
    by (auto elim!: rt_wf_zone)
  then show ?thesis
    using z rt_wf_server(3) [OF r _ _ z]
    by (intro rt_wf_putZone [OF r k])
       (auto simp: zone_delUser_find zone_delUser_def mp_ok_erase split: if_splits)
qed

lemma rt_setUserToZone_wf:
  assumes r: "rt_ptr_wf r"
  shows "rt_setUserToZone i k r = Inl (UB EndDeref) \<or>
    (\<exists>r'. rt_setUserToZone i k r = Inr r' \<and> rt_ptr_wf r')"
proof (cases "mp_find (rt_users r) i \<noteq> None \<and> mp_find (rt_zones r) k \<noteq> None")
  case True
  then obtain ua za where ua: "mp_find (rt_users r) i = Some ua"
    and za: "mp_find (rt_zones r) k = Some za" by auto
  from r ua obtain u where u: "st_look (rt_uheap r) ua = Some u" "ru_id u = i" by (rule rt_wf_user)
  from r za obtain zn where zn: "st_look (rt_zheap r) za = Some zn" by (rule rt_wf_zone)
  let ?r1 = "rt_putZone za (zone_addUser (Some (ua, i)) zn) r"
  have r1: "rt_ptr_wf ?r1" using r za zn ua by (rule rt_wf_zone_add)
  show ?thesis
  proof (cases "mp_find (rt_zones r) (ru_zone u)")
    case None
    with ua za u zn show ?thesis
      by (simp add: rt_setUserToZone_def rt_getUser_live rt_getZone_live Let_def)
  next
    case (Some oa)
    then have oa: "mp_find (rt_zones ?r1) (ru_zone u) = Some oa" by simp
    with r1 obtain zo where zo: "st_look (rt_zheap ?r1) oa = Some zo" by (rule rt_wf_zone)
    let ?r2 = "rt_putZone oa (zone_delUser i zo) ?r1"
    have "rt_ptr_wf ?r2" using r1 oa zo by (rule rt_wf_zone_del)
    then have "rt_ptr_wf (rt_putUser ua (user_set_zone k u) ?r2)"
      by (rule rt_wf_putUser) (use ua u in \<open>simp_all add: user_set_zone_def\<close>)
    moreover have "rt_setUserToZone i k r = Inr (rt_putUser ua (user_set_zone k u) ?r2)"
      using ua za u(2) Some
      by (simp add: rt_setUserToZone_def rt_getUser_live [OF u(1)] rt_getZone_live [OF zn]
          rt_getZone_live [OF zo] Let_def del: rt_putZone_frame st_look_put)
    ultimately show ?thesis by simp
  qed
next
  case False
  with r show ?thesis
    by (cases "mp_find (rt_users r) i"; cases "mp_find (rt_zones r) k")
       (simp_all add: rt_setUserToZone_def)
qed

section \<open>Connections\<close>

text \<open>Who has a connection: a server of the map (\<open>Inl\<close>) or a user object (\<open>Inr\<close>).\<close>

fun rt_holds :: "router \<Rightarrow> int + addr \<Rightarrow> cid \<Rightarrow> bool" where
  "rt_holds r (Inl s) c = (\<exists>srv. mp_find (rt_servers r) s = Some srv \<and> rs_conn srv = Some c)"
| "rt_holds r (Inr a) c = (\<exists>u. st_look (rt_uheap r) a = Some u \<and> ru_conn u = Some c)"

definition rt_deleted :: "router \<Rightarrow> cid set" where
  "rt_deleted r = {c. EvDelete c \<in> set (rt_events r)}"

text \<open>The connections the router has are live, and nobody shares one.\<close>

definition rt_conns_wf :: "router \<Rightarrow> bool" where
  "rt_conns_wf r \<longleftrightarrow> (\<forall>h c. rt_holds r h c \<longrightarrow> c \<notin> rt_deleted r) \<and>
     (\<forall>h h' c. rt_holds r h c \<longrightarrow> rt_holds r h' c \<longrightarrow> h = h')"

definition rt_wf :: "router \<Rightarrow> bool" where
  "rt_wf r \<longleftrightarrow> rt_ptr_wf r \<and> rt_conns_wf r"

lemma rt_wf_ptr: "rt_wf r \<Longrightarrow> rt_ptr_wf r"
  by (simp add: rt_wf_def)

lemma rt_wf_conns: "rt_wf r \<Longrightarrow> rt_conns_wf r"
  by (simp add: rt_wf_def)

lemma conns_new: "rt_conns_wf router_new"
proof -
  have "\<not> rt_holds router_new h c" for h c by (cases h) (simp_all add: router_new_def)
  then show ?thesis by (simp add: rt_conns_wf_def)
qed

lemma conns_live: "rt_conns_wf r \<Longrightarrow> rt_holds r h c \<Longrightarrow> EvDelete c \<notin> set (rt_events r)"
  by (auto simp: rt_conns_wf_def rt_deleted_def)

text \<open>Messages to servers and users over the connections they have.\<close>

definition held_sends :: "router \<Rightarrow> router_event list \<Rightarrow> bool" where
  "held_sends r es \<longleftrightarrow> (\<forall>e\<in>set es. \<exists>h c m. e = EvSend c m \<and> rt_holds r h c)"

lemma conn_events_ok_sends:
  "\<forall>e\<in>set es. \<exists>c m. e = EvSend c m \<and> EvDelete c \<notin> set past \<Longrightarrow> conn_events_ok past es"
  by (induction es arbitrary: past) auto

lemma rt_do_sends: "rt_conns_wf r \<Longrightarrow> held_sends r es \<Longrightarrow> rt_do es r = Inr (rt_emit es r)"
  using conns_live [of r] unfolding held_sends_def rt_do_def
  by (simp, intro conn_events_ok_sends) blast

lemma deleted_sends: "held_sends r es \<Longrightarrow> rt_deleted (rt_emit es r) = rt_deleted r"
  by (auto simp: held_sends_def rt_deleted_def)

lemma held_sends_append: "held_sends r (es @ fs) \<longleftrightarrow> held_sends r es \<and> held_sends r fs"
  by (auto simp: held_sends_def)

lemma held_sends_user: "st_look (rt_uheap r) a = Some u \<Longrightarrow> held_sends r (user_send t u)"
  by (auto simp: held_sends_def user_send_def split: option.splits intro!: exI [of _ "Inr a"])

lemma held_sends_server: "mp_find (rt_servers r) s = Some v \<Longrightarrow> held_sends r (server_send t v)"
  by (auto simp: held_sends_def server_send_def split: option.splits intro!: exI [of _ "Inl s"])

lemma zone_sendToUsers_held:
  assumes "zone_sendToUsers (rt_uheap r) t z = Inr es"
  shows "held_sends r es"
proof (rule foldR_invariant [where P = "held_sends r"])
  show "foldR (\<lambda>evs p. bindR (st_get (rt_uheap r) (snd p)) (\<lambda>u. Inr (evs @ user_send t u)))
      (rz_users z) [] = Inr es"
    using assms by (simp add: zone_sendToUsers_def)
  show "held_sends r []" by (simp add: held_sends_def)
  fix evs evs' p
  assume "held_sends r evs" and "bindR (st_get (rt_uheap r) (snd p)) (\<lambda>u. Inr (evs @ user_send t u)) = Inr evs'"
  then show "held_sends r evs'"
    using held_sends_user by (auto simp: bindR_eq_Inr held_sends_append)
qed

lemma server_sendToUsers_held:
  assumes "server_sendToUsers (rt_zheap r) (rt_uheap r) t srv = Inr es"
  shows "held_sends r es"
proof (rule foldR_invariant [where P = "held_sends r"])
  show "foldR (\<lambda>evs p. bindR (st_get (rt_zheap r) (snd p))
      (\<lambda>z. bindR (zone_sendToUsers (rt_uheap r) t z) (\<lambda>e. Inr (evs @ e)))) (rs_zones srv) [] = Inr es"
    using assms by (simp add: server_sendToUsers_def)
  show "held_sends r []" by (simp add: held_sends_def)
  fix evs evs' p
  assume "held_sends r evs" and "bindR (st_get (rt_zheap r) (snd p))
      (\<lambda>z. bindR (zone_sendToUsers (rt_uheap r) t z) (\<lambda>e. Inr (evs @ e))) = Inr evs'"
  with zone_sendToUsers_held show "held_sends r evs'"
    by (auto simp: bindR_eq_Inr held_sends_append)
qed

lemma rt_sendToServerUsers_wf:
  assumes r: "rt_ptr_wf r"
  shows "\<exists>es. rt_sendToServerUsers s t r = rt_do es r \<and> held_sends r es"
proof (cases "mp_find (rt_servers r) s")
  case None
  then show ?thesis
    by (auto simp: rt_sendToServerUsers_def rt_do_def rt_emit_def held_sends_def intro!: exI [of _ "[]"])
next
  case (Some srv)
  have body: "\<exists>es'. bindR (st_get (rt_zheap r) (snd p))
      (\<lambda>z. bindR (zone_sendToUsers (rt_uheap r) t z) (\<lambda>e. Inr (es @ e))) = Inr es'"
    if p: "p \<in> set (rs_zones srv)" for p es
  proof -
    have "mp_find (rs_zones srv) (fst p) = Some (snd p)"
      using mp_find_iff_set [OF rt_wf_server(1) [OF r Some]] p by simp
    from rt_wf_server(2) [OF r Some this]
    have "mp_find (rt_zones r) (fst p) = Some (snd p)" .
    with r obtain z where z: "st_look (rt_zheap r) (snd p) = Some z" and zok: "mp_ok (rz_users z)"
      and zu: "\<And>i b. mp_find (rz_users z) i = Some b \<Longrightarrow> mp_find (rt_users r) i = Some b"
      by (rule rt_wf_zone) blast
    have "st_look (rt_uheap r) (snd q) \<noteq> None" if "q \<in> set (rz_users z)" for q
    proof -
      have "mp_find (rz_users z) (fst q) = Some (snd q)" using mp_find_iff_set [OF zok] that by simp
      from r zu [OF this] obtain u where "st_look (rt_uheap r) (snd q) = Some u" by (rule rt_wf_user)
      then show ?thesis by simp
    qed
    then obtain es'' where "zone_sendToUsers (rt_uheap r) t z = Inr es''"
      using zone_sendToUsers_live by blast
    with z show ?thesis by (simp add: st_get_def)
  qed
  have "\<exists>es. server_sendToUsers (rt_zheap r) (rt_uheap r) t srv = Inr es \<and> True"
    unfolding server_sendToUsers_def by (rule foldR_total) (use body in auto)
  then obtain es where "server_sendToUsers (rt_zheap r) (rt_uheap r) t srv = Inr es" by blast
  with server_sendToUsers_held [OF this] Some show ?thesis by (auto simp: rt_sendToServerUsers_def)
qed

section \<open>Sequences of calls\<close>

text \<open>The public operations as calls: what another thread can make the router do.\<close>

datatype router_call =
  AddServer int | ConnectServer int cid | DelServer int
| AddZone int | DelZone int | StartTransfer int int | EndTransfer int
| AddUser int int | ValidateUser int int | ConnectUser int int cid | SetUserToZone int int
| DelUser int
| SendToServer int router_msg | SendToServerUsers int router_msg | SendToZone int router_msg
| SendToUser int router_msg

fun rt_call :: "router_call \<Rightarrow> router \<Rightarrow> router result" where
  "rt_call (AddServer s) r = Inr (rt_addServer s r)"
| "rt_call (ConnectServer s c) r = rt_connectServer s c r"
| "rt_call (DelServer s) r = rt_delServer s r"
| "rt_call (AddZone k) r = Inr (rt_addZone k r)"
| "rt_call (DelZone k) r = rt_delZone k r"
| "rt_call (StartTransfer k s) r = rt_startZoneToServerTransfer k s r"
| "rt_call (EndTransfer k) r = rt_endZoneToServerTransfer k r"
| "rt_call (AddUser i t) r = rt_addUser i t r"
| "rt_call (ValidateUser i t) r = bindR (rt_validateUser i t r) (\<lambda>(r', _). Inr r')"
| "rt_call (ConnectUser i t c) r = rt_connectUser i t c r"
| "rt_call (SetUserToZone i k) r = rt_setUserToZone i k r"
| "rt_call (DelUser i) r = rt_delUser i r"
| "rt_call (SendToServer s t) r = rt_sendToServer s t r"
| "rt_call (SendToServerUsers s t) r = rt_sendToServerUsers s t r"
| "rt_call (SendToZone k t) r = rt_sendToZone k t r"
| "rt_call (SendToUser i t) r = rt_sendToUser i t r"

fun deletes_user :: "router_call \<Rightarrow> bool" where
  "deletes_user (DelUser i) = True"
| "deletes_user _ = False"

text \<open>The connections a call is given.\<close>

fun call_conns :: "router_call \<Rightarrow> cid list" where
  "call_conns (ConnectServer s c) = [c]"
| "call_conns (ConnectUser i t c) = [c]"
| "call_conns _ = []"

lemma rt_sendToUser_wf:
  assumes r: "rt_ptr_wf r"
  shows "\<exists>es. rt_sendToUser i t r = rt_do es r \<and> held_sends r es"
proof (cases "mp_find (rt_users r) i")
  case None
  then show ?thesis
    by (auto simp: rt_sendToUser_def rt_do_def rt_emit_def held_sends_def intro!: exI [of _ "[]"])
next
  case (Some a)
  with r obtain u where "st_look (rt_uheap r) a = Some u" by (rule rt_wf_user)
  with Some held_sends_user show ?thesis by (auto simp: rt_sendToUser_def rt_getUser_live)
qed

lemma rt_sendToServer_wf: "\<exists>es. rt_sendToServer s t r = rt_do es r \<and> held_sends r es"
proof (cases "mp_find (rt_servers r) s")
  case None
  then show ?thesis
    by (auto simp: rt_sendToServer_def rt_do_def rt_emit_def held_sends_def intro!: exI [of _ "[]"])
next
  case (Some v)
  with held_sends_server show ?thesis by (auto simp: rt_sendToServer_def)
qed

text \<open>Connections before and after a call that neither takes nor gives up one.\<close>

definition conns_kept :: "router \<Rightarrow> router \<Rightarrow> bool" where
  "conns_kept r r' \<longleftrightarrow> (\<forall>h c. rt_holds r' h c \<longrightarrow> rt_holds r h c) \<and> rt_deleted r' = rt_deleted r"

lemma conns_kept_wf: "conns_kept r r' \<Longrightarrow> rt_conns_wf r \<Longrightarrow> rt_conns_wf r'"
  unfolding conns_kept_def rt_conns_wf_def by (simp, blast)

lemma conns_kept_same:
  assumes "\<And>s. map_option rs_conn (mp_find (rt_servers r') s) = map_option rs_conn (mp_find (rt_servers r) s)
      \<or> map_option rs_conn (mp_find (rt_servers r') s) = Some None"
    and "\<And>a. map_option ru_conn (st_look (rt_uheap r') a) = map_option ru_conn (st_look (rt_uheap r) a)
      \<or> map_option ru_conn (st_look (rt_uheap r') a) = Some None"
    and "rt_events r' = rt_events r"
  shows "conns_kept r r'"
proof -
  have "rt_holds r h c" if "rt_holds r' h c" for h c
  proof (cases h)
    case (Inl s)
    with that obtain v where "mp_find (rt_servers r') s = Some v" "rs_conn v = Some c" by auto
    with assms(1) [of s] Inl show ?thesis by (cases "mp_find (rt_servers r) s") auto
  next
    case (Inr a)
    with that obtain u where "st_look (rt_uheap r') a = Some u" "ru_conn u = Some c" by auto
    with assms(2) [of a] Inr show ?thesis by (cases "st_look (rt_uheap r) a") auto
  qed
  with assms(3) show ?thesis by (simp add: conns_kept_def rt_deleted_def)
qed

lemma conns_kept_sends: "held_sends r es \<Longrightarrow> conns_kept r (rt_emit es r)"
proof -
  have "rt_holds (rt_emit es r) h c = rt_holds r h c" for h c by (cases h) simp_all
  then show "held_sends r es \<Longrightarrow> ?thesis" by (simp add: conns_kept_def deleted_sends)
qed

lemma rt_do_kept: "\<exists>es. x = rt_do es r \<and> held_sends r es \<Longrightarrow> x = Inr r' \<Longrightarrow> conns_kept r r'"
  using conns_kept_sends by (auto simp: rt_do_def split: if_splits)

lemma server_conn_frame [simp]:
  "rs_conn (server_delZone k s) = rs_conn s" "rs_conn (server_addZone z s) = rs_conn s"
  by (simp_all add: server_delZone_def server_addZone_def split: option.splits)

fun keeps_conns :: "router_call \<Rightarrow> bool" where
  "keeps_conns (ConnectServer s c) = False"
| "keeps_conns (DelServer s) = False"
| "keeps_conns (ConnectUser i t c) = False"
| "keeps_conns (DelUser i) = False"
| "keeps_conns _ = True"

lemma kept_addUser:
  assumes r: "rt_ptr_wf r" and e: "rt_addUser i t r = Inr r'"
  shows "conns_kept r r'"
proof (cases "mp_find (rt_users r) i")
  case None
  obtain a h where new: "st_new (user_new i t) (rt_uheap r) = (a, h)" by fastforce
  have "st_look h b = (if b = a then Some (user_new i t) else st_look (rt_uheap r) b)" for b
    using st.look_new [OF new] by simp
  with None new e show ?thesis
    by (intro conns_kept_same) (auto simp: rt_addUser_def user_new_def)
next
  case (Some a)
  with e show ?thesis
    by (intro conns_kept_same)
       (auto simp: rt_addUser_def bindR_eq_Inr user_set_token_def)
qed

lemma rt_call_kept:
  assumes r: "rt_ptr_wf r" and e: "rt_call c r = Inr r'" and c: "keeps_conns c"
  shows "conns_kept r r'"
proof (cases c)
  case (AddServer s)
  with e show ?thesis
    by (intro conns_kept_same) (auto simp: rt_addServer_def server_new_def split: if_splits)
next
  case (AddZone k)
  with e show ?thesis
    by (intro conns_kept_same) (auto simp: rt_addZone_def split: prod.splits if_splits)
next
  case (DelZone k)
  with e show ?thesis
    by (intro conns_kept_same)
       (auto simp: rt_delZone_def rt_deleteZone_frame bindR_eq_Inr Let_def split: option.splits)
next
  case (StartTransfer k s)
  with e show ?thesis
    by (intro conns_kept_same)
       (auto simp: rt_startZoneToServerTransfer_def bindR_eq_Inr split: option.splits)
next
  case (EndTransfer k)
  with e show ?thesis
    by (intro conns_kept_same)
       (auto simp: rt_endZoneToServerTransfer_def bindR_eq_Inr Let_def split: option.splits if_splits)
next
  case (AddUser i t)
  with r e kept_addUser show ?thesis by simp
next
  case (ValidateUser i t)
  with e show ?thesis
    by (intro conns_kept_same)
       (auto simp: rt_validateUser_def user_validate_def bindR_eq_Inr split: option.splits)
next
  case (SetUserToZone i k)
  with e show ?thesis
    by (intro conns_kept_same)
       (auto simp: rt_setUserToZone_def user_set_zone_def bindR_eq_Inr Let_def split: option.splits)
next
  case (SendToServer s t)
  with e rt_do_kept [OF rt_sendToServer_wf] show ?thesis by simp
next
  case (SendToServerUsers s t)
  with e rt_do_kept [OF rt_sendToServerUsers_wf [OF r]] show ?thesis by simp
next
  case (SendToZone k t)
  with e show ?thesis
    by (intro conns_kept_same) (auto simp: rt_sendToZone_def split: option.splits)
next
  case (SendToUser i t)
  with e rt_do_kept [OF rt_sendToUser_wf [OF r]] show ?thesis by simp
qed (use c in simp_all)

text \<open>The connections the router knows or has known.\<close>

definition rt_known :: "router \<Rightarrow> cid set" where
  "rt_known r = {c. \<exists>h. rt_holds r h c} \<union> rt_deleted r"

lemma conns_kept_known: "conns_kept r r' \<Longrightarrow> rt_known r' \<subseteq> rt_known r"
  by (auto simp: conns_kept_def rt_known_def)

text \<open>One holder gets a fresh connection, or none, in place of its old one, which is deleted.\<close>

lemma conns_replaced:
  assumes r: "rt_conns_wf r"
    and others: "\<And>h c. h \<noteq> h0 \<Longrightarrow> rt_holds r' h c \<Longrightarrow> rt_holds r h c"
    and mine: "\<And>c. rt_holds r' h0 c \<Longrightarrow> new = Some c"
    and fresh: "\<And>c. new = Some c \<Longrightarrow> c \<notin> rt_known r"
    and del: "\<And>c. c \<in> rt_deleted r' \<Longrightarrow> c \<in> rt_deleted r \<or> rt_holds r h0 c"
  shows "rt_conns_wf r' \<and> rt_known r' \<subseteq> rt_known r \<union> set_option new"
proof -
  have live: "c \<notin> rt_deleted r'" if "rt_holds r' h c" for h c
  proof (cases "h = h0")
    case True
    with that mine fresh del show ?thesis by (fastforce simp: rt_known_def)
  next
    case False
    with that others r del show ?thesis unfolding rt_conns_wf_def by blast
  qed
  have alone: "h = h'" if "rt_holds r' h c" "rt_holds r' h' c" for h h' c
  proof (cases "h = h0")
    case True
    show ?thesis
    proof (rule ccontr)
      assume ne: "h \<noteq> h'"
      with True others that(2) have "rt_holds r h' c" by metis
      moreover have "new = Some c" using mine that(1) True by simp
      ultimately show False using fresh by (auto simp: rt_known_def)
    qed
  next
    case False
    with others that(1) have hc: "rt_holds r h c" by metis
    show ?thesis
    proof (cases "h' = h0")
      case True
      with mine that(2) have "new = Some c" by simp
      with fresh hc show ?thesis by (auto simp: rt_known_def)
    next
      case False
      with others that(2) have "rt_holds r h' c" by metis
      with hc r show ?thesis unfolding rt_conns_wf_def by blast
    qed
  qed
  have "rt_known r' \<subseteq> rt_known r \<union> set_option new"
    using others mine del unfolding rt_known_def by fastforce
  with live alone show ?thesis by (simp add: rt_conns_wf_def)
qed

lemma conns_connectServer:
  assumes r: "rt_conns_wf r" and fresh: "c \<notin> rt_known r"
  shows "\<exists>r'. rt_connectServer s c r = Inr r' \<and> rt_conns_wf r' \<and> rt_known r' \<subseteq> rt_known r \<union> {c}"
proof (cases "mp_find (rt_servers r) s")
  case None
  with r show ?thesis by (auto simp: rt_connectServer_def)
next
  case (Some v)
  let ?es = "(case rs_conn v of None \<Rightarrow> [] | Some d \<Rightarrow> [EvDelete d]) @ [EvSend c AddRouterMsg]"
  let ?r' = "rt_emit ?es (rt_putServer s (v\<lparr>rs_conn := Some c\<rparr>) r)"
  have old: "rt_holds r (Inl s) d" if "rs_conn v = Some d" for d using Some that by simp
  have c: "EvDelete c \<notin> set (rt_events r)" using fresh by (simp add: rt_known_def rt_deleted_def)
  have "conn_events_ok (rt_events r) ?es"
  proof (cases "rs_conn v")
    case None
    with c show ?thesis by simp
  next
    case (Some d)
    have "d \<noteq> c" using old [OF Some] fresh unfolding rt_known_def by blast
    with c conns_live [OF r old [OF Some]] Some show ?thesis by simp
  qed
  then have run: "rt_connectServer s c r = Inr ?r'"
    using Some by (simp add: rt_connectServer_def server_connection_def rt_do_def)
  have "rt_conns_wf ?r' \<and> rt_known ?r' \<subseteq> rt_known r \<union> set_option (Some c)"
  proof (rule conns_replaced [OF r, where ?h0.0 = "Inl s"])
    show "rt_holds r h d" if "h \<noteq> Inl s" "rt_holds ?r' h d" for h d
      using that by (cases h) auto
    show "d \<in> rt_deleted r \<or> rt_holds r (Inl s) d" if "d \<in> rt_deleted ?r'" for d
      using that old by (cases "rs_conn v") (auto simp: rt_deleted_def simp del: rt_holds.simps)
  qed (use fresh in auto)
  with run show ?thesis by (simp del: rt_emit_frame rt_putServer_frame)
qed

lemma conns_delServer:
  assumes r: "rt_conns_wf r"
  shows "\<exists>r'. rt_delServer s r = Inr r' \<and> rt_conns_wf r' \<and> rt_known r' \<subseteq> rt_known r"
proof (cases "mp_find (rt_servers r) s")
  case None
  with r show ?thesis by (auto simp: rt_delServer_def)
next
  case (Some v)
  let ?r' = "rt_emit (server_destroy v) (r\<lparr>rt_servers := mp_erase s (rt_servers r)\<rparr>)"
  have old: "rt_holds r (Inl s) d" if "rs_conn v = Some d" for d using Some that by simp
  have "conn_events_ok (rt_events r) (server_destroy v)"
    using conns_live [OF r old] by (cases "rs_conn v") (simp_all add: server_destroy_def)
  then have run: "rt_delServer s r = Inr ?r'"
    using Some by (simp add: rt_delServer_def rt_do_def)
  have "rt_conns_wf ?r' \<and> rt_known ?r' \<subseteq> rt_known r \<union> set_option None"
  proof (rule conns_replaced [OF r, where ?h0.0 = "Inl s"])
    show "rt_holds r h d" if "h \<noteq> Inl s" "rt_holds ?r' h d" for h d
      using that by (cases h) (auto split: if_splits)
    show "None = Some d" if "rt_holds ?r' (Inl s) d" for d using that by simp
    show "d \<in> rt_deleted r \<or> rt_holds r (Inl s) d" if "d \<in> rt_deleted ?r'" for d
      using that old
      by (cases "rs_conn v") (auto simp: rt_deleted_def server_destroy_def simp del: rt_holds.simps)
  qed simp
  with run show ?thesis by (simp del: rt_emit_frame)
qed

lemma conns_connectUser:
  assumes p: "rt_ptr_wf r" and r: "rt_conns_wf r" and fresh: "c \<notin> rt_known r"
  shows "\<exists>r'. rt_connectUser i t c r = Inr r' \<and> rt_conns_wf r' \<and> rt_known r' \<subseteq> rt_known r \<union> {c}"
proof (cases "mp_find (rt_users r) i")
  case None
  with r show ?thesis by (auto simp: rt_connectUser_def)
next
  case (Some a)
  with p obtain u where u: "st_look (rt_uheap r) a = Some u" by (rule rt_wf_user)
  let ?es = "case ru_conn u of None \<Rightarrow> [] | Some d \<Rightarrow> [EvDelete d]"
  let ?w = "u\<lparr>ru_token := t, ru_conn := Some c\<rparr>"
  show ?thesis
  proof (cases "t = 0")
    case True
    with Some u have run: "rt_connectUser i t c r = Inr (rt_putUser a (u\<lparr>ru_token := t\<rparr>) r)"
      by (simp add: rt_connectUser_def rt_getUser_live user_validate_def)
    have "conns_kept r (rt_putUser a (u\<lparr>ru_token := t\<rparr>) r)"
      using u by (intro conns_kept_same) auto
    with run conns_kept_wf [OF _ r] conns_kept_known show ?thesis by blast
  next
    case False
    let ?r' = "rt_emit ?es (rt_putUser a ?w r)"
    have old: "rt_holds r (Inr a) d" if "ru_conn u = Some d" for d using u that by simp
    have "conn_events_ok (rt_events r) ?es"
      using conns_live [OF r old] by (cases "ru_conn u") simp_all
    then have run: "rt_connectUser i t c r = Inr ?r'"
      using Some u False
      by (simp add: rt_connectUser_def rt_getUser_live user_validate_def user_connection_def rt_do_def)
    have "rt_conns_wf ?r' \<and> rt_known ?r' \<subseteq> rt_known r \<union> set_option (Some c)"
    proof (rule conns_replaced [OF r, where ?h0.0 = "Inr a"])
      show "rt_holds r h d" if "h \<noteq> Inr a" "rt_holds ?r' h d" for h d
        using that by (cases h) auto
      show "d \<in> rt_deleted r \<or> rt_holds r (Inr a) d" if "d \<in> rt_deleted ?r'" for d
        using that old by (cases "ru_conn u") (auto simp: rt_deleted_def simp del: rt_holds.simps)
    qed (use fresh in auto)
    with run show ?thesis by (simp del: rt_emit_frame rt_putUser_frame)
  qed
qed

lemma rt_call_run:
  assumes wf: "rt_wf r" and c: "keeps_conns c"
  shows "rt_call c r = Inl (UB EndDeref) \<or> (\<exists>r'. rt_call c r = Inr r' \<and> rt_ptr_wf r')"
proof -
  note r = rt_wf_ptr [OF wf] and do = rt_do_sends [OF rt_wf_conns [OF wf]]
  show ?thesis
  proof (cases c)
    case (ValidateUser i t)
    with rt_validateUser_wf [OF r, of i t] show ?thesis by auto
  next
    case (SetUserToZone i k)
    with rt_setUserToZone_wf [OF r, of i k] show ?thesis by simp
  next
    case (SendToServer s t)
    with rt_sendToServer_wf [of s t r] do r show ?thesis by auto
  next
    case (SendToServerUsers s t)
    with rt_sendToServerUsers_wf [OF r, of s t] do r show ?thesis by auto
  next
    case (SendToZone k t)
    with r show ?thesis by (cases "mp_find (rt_zones r) k") (simp_all add: rt_sendToZone_def)
  next
    case (SendToUser i t)
    with rt_sendToUser_wf [OF r, of i t] do r show ?thesis by auto
  qed (use r c rt_delZone_wf [OF r] rt_start_wf [OF r] rt_end_wf [OF r] rt_addUser_wf [OF r] in
      \<open>simp_all add: rt_wf_addServer rt_wf_addZone\<close>)
qed

text \<open>One call, given connections that the router does not have and has not deleted.\<close>

lemma rt_call_wf:
  assumes wf: "rt_wf r" and c: "\<not> deletes_user c" and fresh: "\<forall>d\<in>set (call_conns c). d \<notin> rt_known r"
  shows "rt_call c r = Inl (UB EndDeref) \<or>
    (\<exists>r'. rt_call c r = Inr r' \<and> rt_wf r' \<and> rt_known r' \<subseteq> rt_known r \<union> set (call_conns c))"
proof -
  note r = rt_wf_ptr [OF wf] and k = rt_wf_conns [OF wf]
  show ?thesis
  proof (cases "keeps_conns c")
    case True
    with rt_call_run [OF wf] rt_call_kept [OF r] show ?thesis
      using conns_kept_wf [OF _ k] conns_kept_known unfolding rt_wf_def by blast
  next
    case False
    show ?thesis
    proof (cases c)
      case (ConnectServer s d)
      with fresh have "d \<notin> rt_known r" by simp
      from conns_connectServer [OF k this] ConnectServer rt_wf_connectServer [OF r]
      show ?thesis unfolding rt_wf_def by fastforce
    next
      case (DelServer s)
      with conns_delServer [OF k, of s] rt_wf_delServer [OF r] show ?thesis
        unfolding rt_wf_def by fastforce
    next
      case (ConnectUser i t d)
      with fresh have "d \<notin> rt_known r" by simp
      from conns_connectUser [OF r k this, of i t] ConnectUser rt_connectUser_wf [OF r, of i t d]
      show ?thesis unfolding rt_wf_def by fastforce
    qed (use False c in simp_all)
  qed
qed

lemma rt_calls_wf:
  assumes "\<forall>c\<in>set cs. \<not> deletes_user c" and "rt_wf r"
    and "distinct (concat (map call_conns cs))"
    and "set (concat (map call_conns cs)) \<inter> rt_known r = {}"
  shows "foldR (\<lambda>r c. rt_call c r) cs r = Inl (UB EndDeref) \<or>
    (\<exists>r'. foldR (\<lambda>r c. rt_call c r) cs r = Inr r' \<and> rt_wf r')"
  using assms
proof (induction cs arbitrary: r)
  case Nil
  then show ?case by simp
next
  case (Cons c cs)
  have "rt_call c r = Inl (UB EndDeref) \<or>
      (\<exists>r'. rt_call c r = Inr r' \<and> rt_wf r' \<and> rt_known r' \<subseteq> rt_known r \<union> set (call_conns c))"
    by (rule rt_call_wf) (use Cons.prems in auto)
  then show ?case
  proof
    assume "\<exists>r'. rt_call c r = Inr r' \<and> rt_wf r' \<and> rt_known r' \<subseteq> rt_known r \<union> set (call_conns c)"
    then obtain r' where r': "rt_call c r = Inr r'" "rt_wf r'"
      "rt_known r' \<subseteq> rt_known r \<union> set (call_conns c)" by blast
    have "set (concat (map call_conns cs)) \<inter> rt_known r' = {}"
      using r'(3) Cons.prems(3,4) by auto
    with r'(1,2) Cons.IH [of r'] Cons.prems(1,3) show ?thesis by simp
  qed simp
qed

lemma rt_kept_wf: "rt_wf r \<Longrightarrow> rt_call c r = Inr r' \<Longrightarrow> keeps_conns c \<Longrightarrow> rt_wf r'"
proof -
  assume wf: "rt_wf r" and e: "rt_call c r = Inr r'" and c: "keeps_conns c"
  have "rt_ptr_wf r'" using rt_call_run [OF wf c] e by simp
  moreover have "rt_conns_wf r'"
    using rt_call_kept [OF rt_wf_ptr [OF wf] e c] rt_wf_conns [OF wf] by (rule conns_kept_wf)
  ultimately show ?thesis by (simp add: rt_wf_def)
qed

lemma known_new: "rt_known router_new = {}"
proof -
  have "\<not> rt_holds router_new h c" for h c by (cases h) (simp_all add: router_new_def)
  then show ?thesis by (simp add: rt_known_def rt_deleted_def router_new_def)
qed

lemma rt_new_wf: "rt_wf router_new"
  by (simp add: rt_wf_def ptr_wf_new conns_new)

section \<open>Moving a zone\<close>

lemma rt_start_result:
  assumes "mp_find (rt_zones r) k = Some a" and "st_look (rt_zheap r) a = Some z"
    and "mp_find (rt_servers r) s = Some srv"
  shows "rt_startZoneToServerTransfer k s r = Inr (rt_putZone a (zone_set_newServer s z) r)"
  using assms by (simp add: rt_startZoneToServerTransfer_def rt_getZone_live)

lemma rt_end_result:
  assumes "mp_find (rt_zones r) k = Some a" and "st_look (rt_zheap r) a = Some z"
    and "rz_inTransfer z" and "rz_id z = k" and "rz_server z \<noteq> rz_newServer z"
    and "mp_find (rt_servers r) (rz_server z) = Some old"
    and "mp_find (rt_servers r) (rz_newServer z) = Some new"
  shows "rt_endZoneToServerTransfer k r =
    Inr (rt_putZone a (zone_endTransfer z)
      (rt_putServer (rz_newServer z) (server_addZone (Some (a, k)) new)
        (rt_putServer (rz_server z) (server_delZone k old) r)))"
  using assms by (simp add: rt_endZoneToServerTransfer_def rt_getZone_live Let_def)

lemma rt_end_unowned:
  assumes "mp_find (rt_zones r) k = Some a" and "st_look (rt_zheap r) a = Some z"
    and "mp_find (rt_servers r) (rz_server z) = None"
  shows "rt_endZoneToServerTransfer k r = Inr r"
  using assms by (simp add: rt_endZoneToServerTransfer_def rt_getZone_live Let_def)

section \<open>Deleting a user\<close>

text \<open>An address that is dead stays dead while the destructor walks the users.\<close>

lemma rt_deleteUser_dead:
  assumes "st_look (rt_uheap r) a = None" and "rt_deleteUser b r = Inr r'"
  shows "st_look (rt_uheap r') a = None"
  using assms by (auto simp: rt_deleteUser_def bindR_eq_Inr rt_do_Inr st.look_delete)

lemma rt_deleteUser_fault: "rt_deleteUser b r = Inl e \<Longrightarrow> e = UB UseAfterFree"
  by (cases "st_look (rt_uheap r) b")
     (auto simp: rt_deleteUser_def rt_getUser_def st_get_def bindR_eq_Inl st_delete_def rt_do_def
      split: if_splits)

lemma rt_deleteUsers_dead:
  assumes "(i, a) \<in> set us" and "st_look (rt_uheap r) a = None"
  shows "foldR (\<lambda>s p. rt_deleteUser (snd p) s) us r = Inl (UB UseAfterFree)"
  using assms
proof (induction us arbitrary: r)
  case Nil
  then show ?case by simp
next
  case (Cons p us)
  show ?case
  proof (cases "rt_deleteUser (snd p) r")
    case (Inl e)
    with rt_deleteUser_fault show ?thesis by fastforce
  next
    case (Inr r')
    have "p \<noteq> (i, a)"
      using Inr Cons.prems(2) by (auto simp: rt_deleteUser_def rt_getUser_def st_get_def)
    with Cons.prems(1) have "(i, a) \<in> set us" by simp
    with Cons.IH [OF this rt_deleteUser_dead [OF Cons.prems(2) Inr]] Inr show ?thesis by simp
  qed
qed

lemma rt_delUser_result:
  assumes wf: "rt_wf r" and i: "mp_find (rt_users r) i = Some a"
  shows "\<exists>r'. rt_delUser i r = Inr r' \<and> rt_users r' = rt_users r \<and> st_look (rt_uheap r') a = None"
proof -
  note r = rt_wf_ptr [OF wf]
  from r i obtain u where u: "st_look (rt_uheap r) a = Some u" by (rule rt_wf_user)
  have "rt_holds r (Inr a) c" if "ru_conn u = Some c" for c using u that by simp
  then have live: "conn_events_ok (rt_events r) (user_destroy u)"
    using conns_live [OF rt_wf_conns [OF wf]]
    by (cases "ru_conn u") (simp_all add: user_destroy_def del: rt_holds.simps)
  obtain h where h: "st_delete a (rt_uheap r) = Inr h" using st_delete_ok [OF u] by blast
  have dead: "st_look h a = None" using st.delete_dangles [OF h] .
  show ?thesis
  proof (cases "mp_find (rt_zones r) (ru_zone u)")
    case None
    with i u h dead show ?thesis
      by (simp add: rt_delUser_def rt_getUser_live rt_deleteUser_def rt_do_def live)
  next
    case (Some za)
    with r obtain z where z: "st_look (rt_zheap r) za = Some z" by (rule rt_wf_zone)
    from u have "rt_getUser a (rt_putZone za (zone_delUser i z) r) = Inr u"
      by (simp add: rt_getUser_live)
    with Some z i u h dead show ?thesis
      by (simp add: rt_delUser_def rt_getUser_live rt_getZone_live rt_deleteUser_def rt_do_def live)
  qed
qed

section \<open>Properties\<close>



text \<open>A connection registered twice: a server's is freed and then sent on; a user's is deleted and
  kept, so that the next message to the user follows it. (When the thread that hands it over is
  the one that listens on it, deleting it already makes that thread join itself.)\<close>

lemma same_connection_twice:
  assumes "rt_wf r"
  shows "mp_find (rt_servers r) s = Some v \<Longrightarrow> rs_conn v = Some c \<Longrightarrow>
      rt_connectServer s c r = Inl (UB UseAfterFree)"
    and "mp_find (rt_users r) i = Some a \<Longrightarrow> st_look (rt_uheap r) a = Some u \<Longrightarrow> ru_conn u = Some c \<Longrightarrow>
      t \<noteq> 0 \<Longrightarrow> bindR (rt_connectUser i t c r) (rt_sendToUser i m) = Inl (UB UseAfterFree)"
proof -
  note live = conns_live [OF rt_wf_conns [OF assms]]
  show "mp_find (rt_servers r) s = Some v \<Longrightarrow> rs_conn v = Some c \<Longrightarrow>
      rt_connectServer s c r = Inl (UB UseAfterFree)"
    by (simp add: rt_connectServer_def server_connection_def rt_do_def)
  assume u: "mp_find (rt_users r) i = Some a" "st_look (rt_uheap r) a = Some u" "ru_conn u = Some c" "t \<noteq> 0"
  then have "EvDelete c \<notin> set (rt_events r)" using live [of "Inr a" c] by simp
  with u show "bindR (rt_connectUser i t c r) (rt_sendToUser i m) = Inl (UB UseAfterFree)"
    by (simp add: rt_connectUser_def rt_sendToUser_def rt_getUser_def st_get_def user_validate_def
        user_connection_def rt_do_def user_send_def)
qed

text \<open>C11. A zone transfer moves the zone: when the zone's owner and the new server both exist
  and differ, starting and then ending a transfer leaves the zone owned by the new server,
  not in transfer, in the new server's map and out of the old one's, with its users; the
  other servers' maps and all users are as before.\<close>

theorem transfer_moves_zone:
  assumes "rt_wf r" and "mp_find (rt_zones r) k = Some a" and "st_look (rt_zheap r) a = Some z"
    and "mp_find (rt_servers r) (rz_server z) = Some old" and "mp_find (rt_servers r) s = Some new"
    and "rz_server z \<noteq> s"
  shows "\<exists>r' old' new'.
    bindR (rt_startZoneToServerTransfer k s r) (rt_endZoneToServerTransfer k) = Inr r' \<and> rt_wf r' \<and>
    st_look (rt_zheap r') a = Some (z\<lparr>rz_server := s, rz_newServer := -1, rz_inTransfer := False\<rparr>) \<and>
    mp_find (rt_servers r') s = Some new' \<and> server_hasZone k new' \<and>
    mp_find (rt_servers r') (rz_server z) = Some old' \<and> \<not> server_hasZone k old' \<and>
    (\<forall>j. j \<noteq> s \<and> j \<noteq> rz_server z \<longrightarrow> mp_find (rt_servers r') j = mp_find (rt_servers r) j) \<and>
    rt_users r' = rt_users r \<and> rt_uheap r' = rt_uheap r"
proof -
  note r = rt_wf_ptr [OF assms(1)]
  have id: "rz_id z = k" by (rule rt_wf_zone [OF r assms(2)]) (use assms(3) in simp)
  let ?z1 = "zone_set_newServer s z" and ?r1 = "rt_putZone a (zone_set_newServer s z) r"
  have start: "rt_startZoneToServerTransfer k s r = Inr ?r1"
    using assms(2,3,5) by (rule rt_start_result)
  let ?r2 = "rt_putZone a (zone_endTransfer ?z1)
    (rt_putServer s (server_addZone (Some (a, k)) new)
      (rt_putServer (rz_server z) (server_delZone k old) ?r1))"
  have fin: "rt_endZoneToServerTransfer k ?r1 = Inr ?r2"
    using rt_end_result [of ?r1 k a ?z1 old new] assms id by (simp add: zone_set_newServer_def)
  moreover have "rt_wf ?r1"
    using rt_kept_wf [OF assms(1), of "StartTransfer k s" ?r1] start by simp
  then have "rt_wf ?r2"
    using rt_kept_wf [of ?r1 "EndTransfer k" ?r2] fin by simp
  moreover have "zone_endTransfer ?z1 =
      z\<lparr>rz_server := s, rz_newServer := -1, rz_inTransfer := False\<rparr>"
    by (simp add: zone_endTransfer_def zone_set_newServer_def)
  ultimately show ?thesis
    using start assms(6)
    by (intro exI [of _ ?r2] exI [of _ "server_delZone k old"]
        exI [of _ "server_addZone (Some (a, k)) new"])
       (simp add: server_hasZone_def membership)
qed

definition ex_router :: router where
  "ex_router = (case foldR (\<lambda>r c. rt_call c r)
     [AddServer (-1), AddServer 1, AddZone (-1), AddZone 4, AddUser 7 99] router_new of
       Inr r \<Rightarrow> r | Inl _ \<Rightarrow> router_new)"

lemma ex_router_value: "ex_router =
    \<lparr>rt_servers = [(-1, server_new (-1)), (1, server_new 1)], rt_zones = [(-1, 0), (4, 1)],
     rt_users = [(7, 0)], rt_zheap = \<lparr>st_objs = [(0, zone_new (-1)), (1, zone_new 4)], st_next = 2\<rparr>,
     rt_uheap = \<lparr>st_objs = [(0, user_new 7 99)], st_next = 1\<rparr>, rt_events = []\<rparr>"
  unfolding ex_router_def by code_simp

lemma ex_router_wf: "rt_wf ex_router"
proof -
  have "foldR (\<lambda>r c. rt_call c r) [AddServer (-1), AddServer 1, AddZone (-1), AddZone 4, AddUser 7 99]
      router_new = Inr ex_router"
    unfolding ex_router_def by code_simp
  then show ?thesis
    using rt_calls_wf [OF _ rt_new_wf, of "[AddServer (-1), AddServer 1, AddZone (-1), AddZone 4, AddUser 7 99]"]
    by (simp add: known_new)
qed

theorem transfer_moves_zone_witness:
  "\<exists>r'. bindR (rt_startZoneToServerTransfer 4 1 ex_router) (rt_endZoneToServerTransfer 4) = Inr r' \<and>
    (\<exists>new. mp_find (rt_servers r') 1 = Some new \<and> server_hasZone 4 new)"
proof -
  have "mp_find (rt_zones ex_router) 4 = Some 1" "st_look (rt_zheap ex_router) 1 = Some (zone_new 4)"
    "mp_find (rt_servers ex_router) (rz_server (zone_new 4)) = Some (server_new (-1))"
    "mp_find (rt_servers ex_router) 1 = Some (server_new 1)" "rz_server (zone_new 4) \<noteq> 1"
    by (simp_all add: ex_router_value zone_new_def st_look_def)
  from transfer_moves_zone [OF ex_router_wf this] show ?thesis by blast
qed

text \<open>C33. Tokens are not compared: connecting a known user succeeds for every token but 0, whatever
  token \<open>addUser\<close> had stored; the presented token replaces the stored one and the connection
  is attached to the user. With token 0 the stored token is lost as well.\<close>

theorem connectUser_ignores_token:
  assumes "rt_wf r" and "mp_find (rt_users r) i = Some a" and "st_look (rt_uheap r) a = Some u"
  shows "\<exists>r'. rt_connectUser i t c r = Inr r' \<and>
    st_look (rt_uheap r') a =
      Some (u\<lparr>ru_token := t, ru_conn := if t \<noteq> 0 then Some c else ru_conn u\<rparr>) \<and>
    (\<exists>r''. rt_validateUser i t r = Inr (r'', t \<noteq> 0))"
proof -
  have "conn_events_ok (rt_events r) (case ru_conn u of None \<Rightarrow> [] | Some d \<Rightarrow> [EvDelete d])"
    using conns_live [OF rt_wf_conns [OF assms(1)], of "Inr a"] assms(3) by (cases "ru_conn u") simp_all
  with assms show ?thesis
    by (auto simp: rt_connectUser_def rt_validateUser_def rt_getUser_live user_validate_def
        user_connection_def rt_do_def)
qed

theorem connectUser_ignores_token_witness:
  "\<exists>r'. rt_connectUser 7 1 3 ex_router = Inr r' \<and>
    st_look (rt_uheap r') 0 = Some ((user_new 7 99)\<lparr>ru_token := 1, ru_conn := Some 3\<rparr>)"
  using connectUser_ignores_token [OF ex_router_wf, of 7 0 "user_new 7 99" 1 3]
  by (auto simp: ex_router_value st_look_def)

text \<open>C34. Deleting a user frees it but leaves its entry in the user map: \<open>delUser\<close> itself succeeds,
  and from then on validating, connecting, sending to or deleting that user, adding it again,
  and destroying the router follow the dangling pointer.\<close>

theorem delUser_leaves_dangling_pointer:
  assumes "rt_wf r" and "mp_find (rt_users r) i = Some a"
  shows "\<exists>r'. rt_delUser i r = Inr r' \<and>
    rt_validateUser i t r' = Inl (UB UseAfterFree) \<and>
    rt_connectUser i t c r' = Inl (UB UseAfterFree) \<and>
    rt_sendToUser i m r' = Inl (UB UseAfterFree) \<and>
    rt_addUser i t r' = Inl (UB UseAfterFree) \<and>
    rt_delUser i r' = Inl (UB UseAfterFree) \<and>
    rt_destroy r' = Inl (UB UseAfterFree)"
proof -
  obtain r' where r': "rt_delUser i r = Inr r'" and i: "mp_find (rt_users r') i = Some a"
    and dead: "st_look (rt_uheap r') a = None"
    using rt_delUser_result [OF assms] assms(2) by auto
  have get: "rt_getUser a r' = Inl (UB UseAfterFree)"
    using dead by (simp add: rt_getUser_def st_get_freed)
  have "rt_destroy r' = Inl (UB UseAfterFree)"
    using rt_deleteUsers_dead [OF mp_find_Some_set [OF i] dead]
    by (simp add: rt_destroy_def rt_clear_def)
  with r' i get show ?thesis
    by (simp add: rt_validateUser_def rt_connectUser_def rt_sendToUser_def rt_addUser_def rt_delUser_def)
qed

theorem delUser_leaves_dangling_pointer_witness:
  "\<exists>r'. rt_delUser 7 ex_router = Inr r' \<and> rt_destroy r' = Inl (UB UseAfterFree)"
proof -
  have "mp_find (rt_users ex_router) 7 = Some 0" by (simp add: ex_router_value)
  from delUser_leaves_dangling_pointer [OF ex_router_wf this] show ?thesis by blast
qed

text \<open>Does the zone's user map hold the user?\<close>

definition rt_zoneHasUser :: "int \<Rightarrow> int \<Rightarrow> router \<Rightarrow> bool" where
  "rt_zoneHasUser k i r = (case mp_find (rt_zones r) k of None \<Rightarrow> False
     | Some a \<Rightarrow> (case st_look (rt_zheap r) a of None \<Rightarrow> False | Some z \<Rightarrow> zone_hasUser i z))"

lemma rt_setUserToZone_result:
  assumes "mp_find (rt_users r) i = Some ua" and "st_look (rt_uheap r) ua = Some u"
    and "ru_id u = i" and "mp_find (rt_zones r) k = Some za" and "st_look (rt_zheap r) za = Some zn"
    and "mp_find (rt_zones r) (ru_zone u) = Some oa"
    and "st_look (st_put za (zone_addUser (Some (ua, i)) zn) (rt_zheap r)) oa = Some zo"
  shows "rt_setUserToZone i k r = Inr (rt_putUser ua (user_set_zone k u)
     (rt_putZone oa (zone_delUser i zo) (rt_putZone za (zone_addUser (Some (ua, i)) zn) r)))"
  using assms by (simp add: rt_setUserToZone_def rt_getUser_live rt_getZone_def st_get_def Let_def
      del: st_look_put)

text \<open>C28. Moving a user between zones: \<open>setUserToZone\<close> takes the user out of the old zone's map,
  puts it into the new zone's and records the new zone. Moving a user to the zone it is
  already in takes it out of that zone, while the user still records it.\<close>

theorem setUserToZone_moves_user:
  assumes "rt_wf r" and "mp_find (rt_users r) i = Some ua" and "st_look (rt_uheap r) ua = Some u"
    and "mp_find (rt_zones r) k = Some za" and "mp_find (rt_zones r) (ru_zone u) = Some oa"
  shows "\<exists>r'. rt_setUserToZone i k r = Inr r' \<and> rt_wf r' \<and>
    st_look (rt_uheap r') ua = Some (u\<lparr>ru_zone := k\<rparr>) \<and>
    \<not> rt_zoneHasUser (ru_zone u) i r' \<and> (rt_zoneHasUser k i r' \<longleftrightarrow> k \<noteq> ru_zone u)"
proof -
  note r = rt_wf_ptr [OF assms(1)]
  from r assms(4) obtain zn where zn: "st_look (rt_zheap r) za = Some zn" "rz_id zn = k"
    by (rule rt_wf_zone)
  from r assms(5) obtain zo where zo: "st_look (rt_zheap r) oa = Some zo" "rz_id zo = ru_zone u"
    by (rule rt_wf_zone)
  have id: "ru_id u = i" by (rule rt_wf_user [OF r assms(2)]) (use assms(3) in simp)
  have same: "oa = za \<longleftrightarrow> ru_zone u = k" using zn zo assms(4,5) by auto
  let ?zn = "zone_addUser (Some (ua, i)) zn"
  define zo' where "zo' = (if oa = za then ?zn else zo)"
  have zo': "st_look (st_put za ?zn (rt_zheap r)) oa = Some zo'" using zo by (simp add: zo'_def)
  let ?r' = "rt_putUser ua (user_set_zone k u) (rt_putZone oa (zone_delUser i zo') (rt_putZone za ?zn r))"
  have res: "rt_setUserToZone i k r = Inr ?r'"
    using assms(2,3) id assms(4) zn(1) assms(5) zo' by (rule rt_setUserToZone_result)
  have "rt_wf ?r'" using rt_kept_wf [OF assms(1), of "SetUserToZone i k"] res by simp
  moreover have "\<not> rt_zoneHasUser (ru_zone u) i ?r'"
    using assms(5) by (simp add: rt_zoneHasUser_def zone_hasUser_def zone_delUser_find)
  moreover have "rt_zoneHasUser k i ?r'" if "k \<noteq> ru_zone u"
    using assms(4) that same
    by (simp add: rt_zoneHasUser_def zone_hasUser_def zone_addUser_find)
  ultimately show ?thesis using res by (auto simp: user_set_zone_def)
qed

theorem setUserToZone_moves_user_witness:
  "\<exists>r'. rt_setUserToZone 7 4 ex_router = Inr r' \<and> rt_zoneHasUser 4 7 r'"
proof -
  have "mp_find (rt_users ex_router) 7 = Some 0" "st_look (rt_uheap ex_router) 0 = Some (user_new 7 99)"
    "mp_find (rt_zones ex_router) 4 = Some 1" "mp_find (rt_zones ex_router) (ru_zone (user_new 7 99)) = Some 0"
    "4 \<noteq> ru_zone (user_new 7 99)"
    by (simp_all add: ex_router_value user_new_def st_look_def)
  from setUserToZone_moves_user [OF ex_router_wf this(1-4)] this(5) show ?thesis by blast
qed

end
