(* ===== verification/Router_Locks.thy ===== *)
theory Router_Locks
  imports Router_Safety
begin

text \<open>
  The three mutexes of the router (servrouter/include/Router.h, servrouter/src/Router.cpp). In
  Router every operation is one step; here the operations of many threads are interleaved with
  their locking: each takes its \<open>lock_guard\<close>s in the order of the source, does its work, and
  releases them in the reverse order. Closing or deleting a TLS connection, or failing to write
  a message to it, joins the connection's listening thread, so the calls that do so wait, with
  the mutexes they hold, for another thread: \<open>th\<close> gives the listening thread of a connection.
\<close>

section \<open>Mutexes\<close>

datatype rmutex = UsersM | ZonesM | ServersM

fun mrank :: "rmutex \<Rightarrow> nat" where
  "mrank UsersM = 0"
| "mrank ZonesM = 1"
| "mrank ServersM = 2"

lemma mrank_inject: "mrank a = mrank b \<longleftrightarrow> a = b"
  by (cases a; cases b) simp_all

instantiation rmutex :: linorder
begin

definition less_eq_rmutex :: "rmutex \<Rightarrow> rmutex \<Rightarrow> bool" where
  "less_eq_rmutex a b = (mrank a \<le> mrank b)"

definition less_rmutex :: "rmutex \<Rightarrow> rmutex \<Rightarrow> bool" where
  "less_rmutex a b = (mrank a < mrank b)"

instance
  by standard (auto simp: less_eq_rmutex_def less_rmutex_def mrank_inject)

end

lemma rmutex_less [simp]: "UsersM < ZonesM" "UsersM < ServersM" "ZonesM < ServersM"
  by (simp_all add: less_rmutex_def)

lemma finite_rmutex: "finite (S :: rmutex set)"
proof (rule finite_subset)
  show "S \<subseteq> {UsersM, ZonesM, ServersM}" using rmutex.exhaust by auto
qed simp

section \<open>What an operation locks\<close>

fun call_mutexes :: "router_call \<Rightarrow> rmutex list" where
  "call_mutexes (AddServer s) = [ServersM]"
| "call_mutexes (ConnectServer s c) = [ServersM]"
| "call_mutexes (DelServer s) = [ServersM]"
| "call_mutexes (AddZone k) = [ZonesM]"
| "call_mutexes (DelZone k) = [ZonesM]"
| "call_mutexes (StartTransfer k s) = [ZonesM, ServersM]"
| "call_mutexes (EndTransfer k) = [ZonesM, ServersM]"
| "call_mutexes (SetUserToZone i k) = [UsersM, ZonesM]"
| "call_mutexes (AddUser i t) = [UsersM]"
| "call_mutexes (ValidateUser i t) = [UsersM]"
| "call_mutexes (ConnectUser i t c) = [UsersM]"
| "call_mutexes (DelUser i) = [UsersM]"
| "call_mutexes (SendToServer s t) = [ServersM]"
| "call_mutexes (SendToServerUsers s t) = [ServersM]"
| "call_mutexes (SendToZone k t) = [ZonesM]"
| "call_mutexes (SendToUser i t) = [UsersM]"

datatype lock_act = Acq rmutex | Rel rmutex | Do router_call | JoinThread nat

definition call_script :: "router_call \<Rightarrow> lock_act list" where
  "call_script c = map Acq (call_mutexes c) @ Do c # map Rel (rev (call_mutexes c))"

text \<open>The threads that the events of a call wait for: a close and a delete join the connection's
  listening thread, and so does a message whose write fails (\<open>lost\<close>: the connections on which
  one does). A failing \<open>sendAnswer\<close> closes the connection without a join.\<close>

fun event_join :: "(cid \<Rightarrow> nat option) \<Rightarrow> (cid \<Rightarrow> bool) \<Rightarrow> router_event \<Rightarrow> nat option" where
  "event_join th lost (EvClose d) = th d"
| "event_join th lost (EvDelete d) = th d"
| "event_join th lost (EvSend d m) = (if lost d then th d else None)"
| "event_join th lost (EvAnswer d m) = None"
| "event_join th lost (EvConnect d a p) = None"

definition call_joins ::
    "(cid \<Rightarrow> nat option) \<Rightarrow> (cid \<Rightarrow> bool) \<Rightarrow> router \<Rightarrow> router \<Rightarrow> lock_act list" where
  "call_joins th lost r r' =
     map JoinThread (List.map_filter (event_join th lost) (drop (length (rt_events r)) (rt_events r')))"

section \<open>Threads\<close>

record lsystem =
  lk_router :: router
  lk_owner :: "rmutex \<Rightarrow> nat option"
  lk_todo :: "nat \<Rightarrow> lock_act list"

text \<open>Each call may find any of the links it writes to lost.\<close>

inductive lk_step :: "(cid \<Rightarrow> nat option) \<Rightarrow> lsystem \<Rightarrow> lsystem \<Rightarrow> bool" for th where
  lk_acquire: "lk_todo s k = Acq m # xs \<Longrightarrow> lk_owner s m = None \<Longrightarrow>
    lk_step th s (s\<lparr>lk_owner := (lk_owner s)(m := Some k), lk_todo := (lk_todo s)(k := xs)\<rparr>)"
| lk_release: "lk_todo s k = Rel m # xs \<Longrightarrow>
    lk_step th s (s\<lparr>lk_owner := (lk_owner s)(m := None), lk_todo := (lk_todo s)(k := xs)\<rparr>)"
| lk_do: "lk_todo s k = Do c # xs \<Longrightarrow> rt_call c (lk_router s) = Inr r' \<Longrightarrow>
    lk_step th s (s\<lparr>lk_router := r', lk_todo := (lk_todo s)(k := call_joins th lost (lk_router s) r' @ xs)\<rparr>)"
| lk_join: "lk_todo s k = JoinThread j # xs \<Longrightarrow> lk_todo s j = [] \<Longrightarrow>
    lk_step th s (s\<lparr>lk_todo := (lk_todo s)(k := xs)\<rparr>)"

inductive_simps lk_step_simps: "lk_step th s s'"

text \<open>Every thread runs the calls of its handlers one after the other.\<close>

definition lk_init :: "router \<Rightarrow> (nat \<Rightarrow> router_call list) \<Rightarrow> lsystem" where
  "lk_init r calls = \<lparr>lk_router = r, lk_owner = (\<lambda>_. None),
     lk_todo = (\<lambda>k. concat (map call_script (calls k)))\<rparr>"

section \<open>The order of locking\<close>

text \<open>What a thread has left fits what it holds: it only takes mutexes above the ones it has,
  only releases what it has, and releases everything.\<close>

fun ok_script :: "rmutex set \<Rightarrow> lock_act list \<Rightarrow> bool" where
  "ok_script H [] = (H = {})"
| "ok_script H (Acq m # xs) = ((\<forall>h\<in>H. h < m) \<and> ok_script (insert m H) xs)"
| "ok_script H (Rel m # xs) = (m \<in> H \<and> ok_script (H - {m}) xs)"
| "ok_script H (Do c # xs) = ok_script H xs"
| "ok_script H (JoinThread j # xs) = ok_script H xs"

definition held :: "lsystem \<Rightarrow> nat \<Rightarrow> rmutex set" where
  "held s k = {m. lk_owner s m = Some k}"

definition locks_ok :: "lsystem \<Rightarrow> bool" where
  "locks_ok s \<longleftrightarrow> (\<forall>k. ok_script (held s k) (lk_todo s k))"

lemma ok_script_call: "ok_script {} xs \<Longrightarrow> ok_script {} (call_script c @ xs)"
  by (cases c) (simp_all add: call_script_def insert_Diff_if)

lemma ok_script_calls: "ok_script {} (concat (map call_script cs))"
  by (induction cs) (simp_all add: ok_script_call)

lemma ok_script_joins: "ok_script H (map JoinThread js @ xs) = ok_script H xs"
  by (induction js) simp_all

lemma locks_ok_init: "locks_ok (lk_init r calls)"
  by (simp add: locks_ok_def lk_init_def held_def ok_script_calls)

lemma locks_ok_step:
  assumes "locks_ok s" and "lk_step th s s'"
  shows "locks_ok s'"
  using assms(2)
proof cases
  case (lk_acquire k m xs)
  from assms(1) lk_acquire(2) have "ok_script (insert m (held s k)) xs"
    by (auto simp: locks_ok_def dest: spec [of _ k])
  moreover have "held s' k = insert m (held s k)" using lk_acquire by (auto simp: held_def)
  moreover have "held s' j = held s j" if "j \<noteq> k" for j
    using lk_acquire that by (auto simp: held_def)
  ultimately show ?thesis
    using assms(1) lk_acquire(1) by (auto simp: locks_ok_def)
next
  case (lk_release k m xs)
  from assms(1) lk_release(2) have m: "m \<in> held s k" and "ok_script (held s k - {m}) xs"
    by (auto simp: locks_ok_def dest: spec [of _ k])
  moreover have "held s' k = held s k - {m}" using lk_release by (auto simp: held_def)
  moreover have "held s' j = held s j" if "j \<noteq> k" for j
    using lk_release that m by (auto simp: held_def)
  ultimately show ?thesis
    using assms(1) lk_release(1) by (auto simp: locks_ok_def)
next
  case (lk_do k c xs r' lost)
  from assms(1) lk_do(2) have "ok_script (held s k) xs"
    by (auto simp: locks_ok_def dest: spec [of _ k])
  with assms(1) lk_do(1) show ?thesis
    by (auto simp: locks_ok_def held_def call_joins_def ok_script_joins)
next
  case (lk_join k j xs)
  from assms(1) lk_join(2) have "ok_script (held s k) xs"
    by (auto simp: locks_ok_def dest: spec [of _ k])
  with assms(1) lk_join(1) show ?thesis by (auto simp: locks_ok_def held_def)
qed

lemma locks_ok_reach: "(lk_step th)\<^sup>*\<^sup>* s s' \<Longrightarrow> locks_ok s \<Longrightarrow> locks_ok s'"
  by (induction rule: rtranclp_induct) (auto intro: locks_ok_step)


section \<open>Who waits for whom\<close>

lemma ok_script_done: "ok_script H [] \<Longrightarrow> m \<notin> H"
  by simp

text \<open>In a state in which nobody can move, a thread that waits for a mutex waits for one below
  a mutex for which another one waits, unless a call failed or a join waits.\<close>

definition lk_stuck :: "(cid \<Rightarrow> nat option) \<Rightarrow> lsystem \<Rightarrow> bool" where
  "lk_stuck th s \<longleftrightarrow> (\<nexists>s'. lk_step th s s')"

definition call_fails :: "lsystem \<Rightarrow> bool" where
  "call_fails s \<longleftrightarrow> (\<exists>k c xs e. lk_todo s k = Do c # xs \<and> rt_call c (lk_router s) = Inl e)"

definition join_waits :: "lsystem \<Rightarrow> bool" where
  "join_waits s \<longleftrightarrow> (\<exists>k j xs. lk_todo s k = JoinThread j # xs \<and> lk_todo s j \<noteq> [])"

lemma stuck_head:
  assumes "lk_stuck th s" and "\<not> call_fails s" and "\<not> join_waits s" and "lk_todo s k \<noteq> []"
  shows "\<exists>m xs j. lk_todo s k = Acq m # xs \<and> lk_owner s m = Some j"
proof -
  obtain x xs where k: "lk_todo s k = x # xs" using assms(4) by (cases "lk_todo s k") auto
  show ?thesis
  proof (cases x)
    case (Acq m)
    with k assms(1) lk_acquire [of s k m xs th] show ?thesis
      by (cases "lk_owner s m") (auto simp: lk_stuck_def)
  next
    case (Rel m)
    with k assms(1) lk_release [of s k m xs th] show ?thesis by (auto simp: lk_stuck_def)
  next
    case (Do c)
    then show ?thesis
    proof (cases "rt_call c (lk_router s)")
      case (Inl e)
      with Do k assms(2) show ?thesis by (auto simp: call_fails_def)
    next
      case (Inr r')
      with Do k assms(1) lk_do [of s k c xs r' th "\<lambda>_. False"] show ?thesis by (auto simp: lk_stuck_def)
    qed
  next
    case (JoinThread j)
    with k assms(3) have "lk_todo s j = []" by (auto simp: join_waits_def)
    with JoinThread k assms(1) lk_join [of s k j xs th] show ?thesis by (auto simp: lk_stuck_def)
  qed
qed

lemma stuck_done:
  assumes ok: "locks_ok s" and stuck: "lk_stuck th s" "\<not> call_fails s" "\<not> join_waits s"
  shows "lk_todo s k = []"
proof (rule ccontr)
  assume "lk_todo s k \<noteq> []"
  let ?W = "{m. \<exists>k xs. lk_todo s k = Acq m # xs}"
  from stuck_head [OF stuck \<open>lk_todo s k \<noteq> []\<close>] have "?W \<noteq> {}" by auto
  then have "Max ?W \<in> ?W" using finite_rmutex by (rule Max_in [rotated])
  then obtain k' xs where k': "lk_todo s k' = Acq (Max ?W) # xs" by blast
  then obtain j where j: "lk_owner s (Max ?W) = Some j"
    using stuck_head [OF stuck, of k'] by auto
  then have m: "Max ?W \<in> held s j" by (simp add: held_def)
  have okj: "ok_script (held s j) (lk_todo s j)" using ok by (simp add: locks_ok_def)
  with m have "lk_todo s j \<noteq> []" using ok_script_done by fastforce
  then obtain m' ys where j': "lk_todo s j = Acq m' # ys" using stuck_head [OF stuck] by blast
  with okj m have "Max ?W < m'" by simp
  moreover have "m' \<le> Max ?W" using j' finite_rmutex by (intro Max_ge) auto
  ultimately show False by simp
qed

section \<open>Guarded data\<close>

text \<open>A call changes the servers, the zones and the users only under the mutex that guards them,
  but for two: \<open>delZone\<close> erases the zone from its server's map with the mutex of the zones
  alone, and \<open>delUser\<close> the user from its zone's map with the mutex of the users alone.\<close>

definition servers_part :: "router \<Rightarrow> (int, rserver) omap" where
  "servers_part r = rt_servers r"

definition zones_part :: "router \<Rightarrow> (int, addr) omap \<times> rzone store" where
  "zones_part r = (rt_zones r, rt_zheap r)"

definition users_part :: "router \<Rightarrow> (int, addr) omap \<times> ruser store" where
  "users_part r = (rt_users r, rt_uheap r)"

lemmas parts = servers_part_def zones_part_def users_part_def

lemmas router_ops = rt_addServer_def rt_connectServer_def rt_delServer_def rt_addZone_def
  rt_delZone_def rt_startZoneToServerTransfer_def rt_endZoneToServerTransfer_def
  rt_setUserToZone_def rt_addUser_def rt_validateUser_def rt_connectUser_def rt_delUser_def
  rt_sendToServer_def rt_sendToServerUsers_def rt_sendToZone_def rt_sendToUser_def
  rt_deleteUser_def rt_deleteZone_def user_validate_def user_connection_def rt_do_Inr

lemma guarded_writes:
  assumes "rt_call c r = Inr r'"
  shows "(ServersM \<in> set (call_mutexes c) \<or> servers_part r' = servers_part r \<or> (\<exists>k. c = DelZone k)) \<and>
    (ZonesM \<in> set (call_mutexes c) \<or> zones_part r' = zones_part r \<or> (\<exists>i. c = DelUser i)) \<and>
    (UsersM \<in> set (call_mutexes c) \<or> users_part r' = users_part r)"
  using assms
  by (cases c) (auto simp: router_ops parts bindR_eq_Inr Let_def
      split: option.splits prod.splits if_splits)


text \<open>The two exceptions are real: the zone 4 of server 1 is deleted, the user 7 of zone 4.\<close>

lemma delZone_unguarded:
  "case foldR (\<lambda>r c. rt_call c r)
      [AddServer (-1), AddServer 1, AddZone 4, StartTransfer 4 1, EndTransfer 4] router_new of
    Inl e \<Rightarrow> False
  | Inr r \<Rightarrow> (case rt_call (DelZone 4) r of Inl e \<Rightarrow> False
      | Inr r' \<Rightarrow> servers_part r' \<noteq> servers_part r \<and> ServersM \<notin> set (call_mutexes (DelZone 4)))"
  by code_simp

lemma delUser_unguarded:
  "case foldR (\<lambda>r c. rt_call c r)
      [AddZone (-1), AddZone 4, AddUser 7 99, SetUserToZone 7 4] router_new of
    Inl e \<Rightarrow> False
  | Inr r \<Rightarrow> (case rt_call (DelUser 7) r of Inl e \<Rightarrow> False
      | Inr r' \<Rightarrow> zones_part r' \<noteq> zones_part r \<and> ZonesM \<notin> set (call_mutexes (DelUser 7)))"
  by code_simp

section \<open>Waiting for a connection's thread\<close>

text \<open>Deleting a user who has a connection waits for that connection's listening thread.\<close>

lemma delUser_joins:
  assumes wf: "rt_wf r" and i: "mp_find (rt_users r) i = Some a"
    and u: "st_look (rt_uheap r) a = Some u" "ru_conn u = Some d" and th: "th d = Some j"
  shows "\<exists>r'. rt_call (DelUser i) r = Inr r' \<and> call_joins th lost r r' = [JoinThread j]"
proof -
  note r = rt_wf_ptr [OF wf]
  have live: "EvDelete d \<notin> set (rt_events r)"
    using conns_live [OF rt_wf_conns [OF wf], of "Inr a" d] u by simp
  obtain h where h: "st_delete a (rt_uheap r) = Inr h" using st_delete_ok [OF u(1)] by blast
  have ev: "user_destroy u = [EvClose d]" using u(2) by (simp add: user_destroy_def)
  show ?thesis
  proof (cases "mp_find (rt_zones r) (ru_zone u)")
    case None
    with i u h ev th show ?thesis
      by (simp add: rt_delUser_def rt_getUser_live rt_deleteUser_def call_joins_def rt_do_def live
          map_filter_simps)
  next
    case (Some za)
    with r obtain z where z: "st_look (rt_zheap r) za = Some z" by (rule rt_wf_zone)
    from u have "rt_getUser a (rt_putZone za (zone_delUser i z) r) = Inr u"
      by (simp add: rt_getUser_live)
    with Some z i u h ev th show ?thesis
      by (simp add: rt_delUser_def rt_getUser_live rt_getZone_live rt_deleteUser_def call_joins_def
          rt_do_def live map_filter_simps)
  qed
qed

text \<open>A thread that holds a mutex and joins a thread that wants the mutex: nobody else can end it.\<close>

definition lk_clinch :: "nat \<Rightarrow> nat \<Rightarrow> rmutex \<Rightarrow> lsystem \<Rightarrow> bool" where
  "lk_clinch k j m s \<longleftrightarrow> lk_owner s m = Some k \<and> (\<exists>xs. lk_todo s k = JoinThread j # xs) \<and>
     (\<exists>xs. lk_todo s j = Acq m # xs)"

lemma clinch_step:
  assumes "lk_clinch k j m s" and "locks_ok s" and "lk_step th s s'"
  shows "lk_clinch k j m s'"
  using assms(3)
proof cases
  case (lk_acquire l n xs)
  with assms(1) have "l \<noteq> k" "l \<noteq> j" "n \<noteq> m" by (auto simp: lk_clinch_def)
  with lk_acquire assms(1) show ?thesis by (simp add: lk_clinch_def)
next
  case (lk_release l n xs)
  from assms(2) lk_release(2) have "n \<in> held s l" by (auto simp: locks_ok_def dest: spec [of _ l])
  with lk_release(2) assms(1) have "l \<noteq> k" "l \<noteq> j" "n \<noteq> m" by (auto simp: lk_clinch_def held_def)
  with lk_release assms(1) show ?thesis by (simp add: lk_clinch_def)
next
  case (lk_do l c xs r' lost)
  with assms(1) have "l \<noteq> k" "l \<noteq> j" by (auto simp: lk_clinch_def)
  with lk_do assms(1) show ?thesis by (simp add: lk_clinch_def)
next
  case (lk_join l n xs)
  with assms(1) have "l \<noteq> k" "l \<noteq> j" by (auto simp: lk_clinch_def)
  with lk_join assms(1) show ?thesis by (simp add: lk_clinch_def)
qed

lemma clinch_reach:
  "(lk_step th)\<^sup>*\<^sup>* s s' \<Longrightarrow> lk_clinch k j m s \<Longrightarrow> locks_ok s \<Longrightarrow> lk_clinch k j m s'"
  by (induction rule: rtranclp_induct) (auto intro: clinch_step locks_ok_reach)

lemma delUser_clinches:
  assumes "rt_call (DelUser i) r = Inr r'" and "call_joins th (\<lambda>_. False) r r' = [JoinThread j]" and "k \<noteq> j"
    and "calls k = DelUser i # cs" and "calls j = c # cs'" and "call_mutexes c = UsersM # ms"
  shows "\<exists>s. (lk_step th)\<^sup>*\<^sup>* (lk_init r calls) s \<and> lk_clinch k j UsersM s"
proof -
  let ?s0 = "lk_init r calls"
  define xs where "xs = Rel UsersM # concat (map call_script cs)"
  define s1 where "s1 = ?s0\<lparr>lk_owner := (lk_owner ?s0)(UsersM := Some k),
    lk_todo := (lk_todo ?s0)(k := Do (DelUser i) # xs)\<rparr>"
  define s2 where "s2 = s1\<lparr>lk_router := r', lk_todo := (lk_todo s1)(k := JoinThread j # xs)\<rparr>"
  have "lk_todo ?s0 k = Acq UsersM # Do (DelUser i) # xs"
    using assms(4) by (simp add: lk_init_def call_script_def xs_def)
  then have "lk_step th ?s0 s1"
    unfolding s1_def by (rule lk_acquire) (simp add: lk_init_def)
  moreover have "lk_step th s1 s2"
    using lk_do [of s1 k "DelUser i" xs r' th "\<lambda>_. False"] assms(1,2)
    by (simp add: s1_def s2_def lk_init_def)
  ultimately have "(lk_step th)\<^sup>*\<^sup>* ?s0 s2" by (meson rtranclp.intros)
  moreover have "lk_clinch k j UsersM s2"
    using assms(3,5,6) by (simp add: s2_def s1_def lk_clinch_def lk_init_def call_script_def)
  ultimately show ?thesis by blast
qed

section \<open>Properties\<close>

text \<open>C10. The router's mutexes alone never deadlock: whatever calls the threads make, when a state is
  reached in which no thread can move, then every thread has made all its calls, or a call has
  come to undefined behaviour, or a thread waits in a join for the thread of a connection that it
  closes, deletes or fails to write to. No state is stuck because threads wait for each other's mutexes.\<close>

theorem router_locks_deadlock_free:
  assumes "(lk_step th)\<^sup>*\<^sup>* (lk_init r calls) s" and "lk_stuck th s"
  shows "(\<forall>k. lk_todo s k = []) \<or> call_fails s \<or> join_waits s"
  using locks_ok_reach [OF assms(1) locks_ok_init] assms(2) stuck_done by blast

definition ex_calls :: "nat \<Rightarrow> router_call list" where
  "ex_calls = (\<lambda>_. [])(0 := [DelUser 7], 1 := [AddUser 7 5])"

theorem router_locks_deadlock_free_witness:
  "\<exists>s. (lk_step (\<lambda>_. None))\<^sup>*\<^sup>* (lk_init router_new (\<lambda>k. if k = 0 then [AddServer 1] else [])) s \<and>
    mp_find (rt_servers (lk_router s)) 1 = Some (server_new 1) \<and>
    ((\<forall>k. lk_todo s k = []) \<or> call_fails s \<or> join_waits s)"
proof -
  let ?th = "\<lambda>_ :: cid. None :: nat option"
  let ?s0 = "lk_init router_new (\<lambda>k. if k = 0 then [AddServer 1] else [])"
  define s1 where "s1 = ?s0\<lparr>lk_owner := (lk_owner ?s0)(ServersM := Some 0),
    lk_todo := (lk_todo ?s0)(0 := [Do (AddServer 1), Rel ServersM])\<rparr>"
  define s2 where "s2 = s1\<lparr>lk_router := rt_addServer 1 router_new,
    lk_todo := (lk_todo s1)(0 := [Rel ServersM])\<rparr>"
  define s3 where "s3 = s2\<lparr>lk_owner := (lk_owner s2)(ServersM := None), lk_todo := (lk_todo s2)(0 := [])\<rparr>"
  have "lk_step ?th ?s0 s1"
    unfolding s1_def by (rule lk_acquire) (simp_all add: lk_init_def call_script_def)
  moreover have "call_joins ?th (\<lambda>_. False) router_new (rt_addServer 1 router_new) = []"
    by code_simp
  then have "lk_step ?th s1 s2"
    using lk_do [of s1 0 "AddServer 1" "[Rel ServersM]" "rt_addServer 1 router_new" ?th "\<lambda>_. False"]
    by (simp add: s1_def s2_def lk_init_def)
  moreover have "lk_step ?th s2 s3"
    unfolding s3_def by (rule lk_release) (simp add: s2_def)
  ultimately have reach: "(lk_step ?th)\<^sup>*\<^sup>* ?s0 s3" by (meson rtranclp.intros)
  have "\<forall>k. lk_todo s3 k = []" by (simp add: s3_def s2_def s1_def lk_init_def)
  then have "lk_stuck ?th s3" by (simp add: lk_stuck_def lk_step_simps)
  from router_locks_deadlock_free [OF reach this] reach
  show ?thesis
    by (intro exI [of _ s3])
      (simp add: s3_def s2_def rt_addServer_def rt_putServer_def router_new_def mp_find_def)
qed

text \<open>C17. Closing a connection under a mutex can deadlock: when a user has a connection and one
  thread deletes the user while the listening thread of that connection executes an instruction
  that needs the mutex of the users, a state is reached from which neither ever gets on: the one
  holds the mutex and joins the other, the other waits for the mutex.\<close>

theorem closing_under_mutex_deadlocks:
  assumes "rt_wf r" and "mp_find (rt_users r) i = Some a" and "st_look (rt_uheap r) a = Some u"
    and "ru_conn u = Some d" and "th d = Some j" and "k \<noteq> j"
    and "calls k = DelUser i # cs" and "calls j = c # cs'" and "call_mutexes c = UsersM # ms"
  shows "\<exists>s. (lk_step th)\<^sup>*\<^sup>* (lk_init r calls) s \<and>
    (\<forall>s'. (lk_step th)\<^sup>*\<^sup>* s s' \<longrightarrow> lk_todo s' k \<noteq> [] \<and> lk_todo s' j \<noteq> [] \<and>
      lk_owner s' UsersM = Some k)"
proof -
  obtain r' where "rt_call (DelUser i) r = Inr r'" "call_joins th (\<lambda>_. False) r r' = [JoinThread j]"
    using delUser_joins [where i = i and th = th and lost = "\<lambda>_. False", OF assms(1-5)] by blast
  then obtain s where s: "(lk_step th)\<^sup>*\<^sup>* (lk_init r calls) s" "lk_clinch k j UsersM s"
    using delUser_clinches [of i r r' th j k calls cs c cs' ms] assms(6-9) by blast
  have "lk_clinch k j UsersM s'" if "(lk_step th)\<^sup>*\<^sup>* s s'" for s'
    using clinch_reach [OF that s(2)] locks_ok_reach [OF s(1) locks_ok_init] by blast
  with s(1) show ?thesis by (fastforce simp: lk_clinch_def)
qed

theorem closing_under_mutex_deadlocks_witness:
  "\<exists>r s. (lk_step (\<lambda>_. Some 1))\<^sup>*\<^sup>* (lk_init r ex_calls) s \<and>
    (\<forall>s'. (lk_step (\<lambda>_. Some 1))\<^sup>*\<^sup>* s s' \<longrightarrow> lk_todo s' 0 \<noteq> [] \<and> lk_todo s' 1 \<noteq> [])"
proof -
  let ?cs = "[AddUser 7 99, ConnectUser 7 1 3]"
  let ?u = "(user_new 7 1)\<lparr>ru_conn := Some 3\<rparr>"
  have "case foldR (\<lambda>r c. rt_call c r) ?cs router_new of Inl e \<Rightarrow> False
    | Inr r \<Rightarrow> mp_find (rt_users r) 7 = Some 0 \<and> st_look (rt_uheap r) 0 = Some ?u"
    by code_simp
  then obtain r where run: "foldR (\<lambda>r c. rt_call c r) ?cs router_new = Inr r"
    and r: "mp_find (rt_users r) 7 = Some 0" "st_look (rt_uheap r) 0 = Some ?u"
    by (auto split: sum.splits)
  have "rt_wf r"
    using rt_calls_wf [OF _ rt_new_wf, of ?cs] run by (simp add: known_new)
  from closing_under_mutex_deadlocks [OF this r, of 3 "\<lambda>_. Some 1" 1 0 ex_calls "[]" "AddUser 7 5" "[]" "[]"]
  show ?thesis by (auto simp: ex_calls_def)
qed

end
