(* ===== verification/Binary64.thy ===== *)
theory Binary64
  imports Complex_Main "HOL-Library.Log_Nat"
begin

text \<open>
  \<open>double\<close> as the programs use it: IEEE 754 binary64 with rounding to nearest even. A finite
  value is the rational it stands for; the two zeros are one value, which makes a difference
  only for a division by zero (taken as a division by +0, the only zero the code divides
  by). \<open>sqrt\<close> is correctly rounded as the standard asks.
\<close>

datatype dbl = NaN | PInf | NInf | Fin rat

section \<open>Rounding\<close>

text \<open>The exponent of a rational that is not zero: \<open>2 powi expo x \<le> \<bar>x\<bar> < 2 powi (expo x + 1)\<close>.\<close>

definition expo :: "rat \<Rightarrow> int" where
  "expo x = (let (n, d) = quotient_of \<bar>x\<bar>; e = bitlen n - bitlen d
             in if 2 powi e \<le> \<bar>x\<bar> then e else e - 1)"

definition ulp :: "rat \<Rightarrow> rat" where
  "ulp x = 2 powi (max (expo x) (-1022) - 52)"

text \<open>The nearest integer, the even one of two.\<close>

definition rne :: "rat \<Rightarrow> int" where
  "rne q = (let f = \<lfloor>q\<rfloor>; r = q - of_int f in
     if r < 1 / 2 then f else if 1 / 2 < r then f + 1 else if even f then f else f + 1)"

definition dbl_limit :: rat where
  "dbl_limit = 2 ^ 1024"

definition overflow :: "rat \<Rightarrow> dbl" where
  "overflow y = (if dbl_limit \<le> y then PInf else if y \<le> - dbl_limit then NInf else Fin y)"

definition rnd :: "rat \<Rightarrow> dbl" where
  "rnd x = (if x = 0 then Fin 0 else overflow (of_int (rne (x / ulp x)) * ulp x))"

section \<open>Operations\<close>

fun dneg :: "dbl \<Rightarrow> dbl" where
  "dneg NaN = NaN" | "dneg PInf = NInf" | "dneg NInf = PInf" | "dneg (Fin x) = Fin (- x)"

fun dadd :: "dbl \<Rightarrow> dbl \<Rightarrow> dbl" where
  "dadd (Fin x) (Fin y) = rnd (x + y)"
| "dadd NaN y = NaN"
| "dadd x NaN = NaN"
| "dadd PInf NInf = NaN"
| "dadd NInf PInf = NaN"
| "dadd PInf y = PInf"
| "dadd NInf y = NInf"
| "dadd (Fin x) y = y"

definition dsub :: "dbl \<Rightarrow> dbl \<Rightarrow> dbl" where
  "dsub x y = dadd x (dneg y)"

fun dsign :: "dbl \<Rightarrow> int" where
  "dsign NaN = 0" | "dsign PInf = 1" | "dsign NInf = -1"
| "dsign (Fin x) = (if 0 < x then 1 else if x < 0 then -1 else 0)"

definition dinf :: "int \<Rightarrow> dbl" where
  "dinf s = (if 0 < s then PInf else if s < 0 then NInf else NaN)"

fun dmul :: "dbl \<Rightarrow> dbl \<Rightarrow> dbl" where
  "dmul (Fin x) (Fin y) = rnd (x * y)"
| "dmul NaN y = NaN"
| "dmul x NaN = NaN"
| "dmul x y = dinf (dsign x * dsign y)"

fun ddiv :: "dbl \<Rightarrow> dbl \<Rightarrow> dbl" where
  "ddiv (Fin x) (Fin y) = (if y = 0 then dinf (dsign (Fin x)) else rnd (x / y))"
| "ddiv NaN y = NaN"
| "ddiv x NaN = NaN"
| "ddiv (Fin x) y = Fin 0"
| "ddiv x (Fin y) = (if y < 0 then dneg x else x)"
| "ddiv x y = NaN"

text \<open>Comparisons are false when an operand is not a number.\<close>

fun dlt :: "dbl \<Rightarrow> dbl \<Rightarrow> bool" where
  "dlt (Fin x) (Fin y) = (x < y)"
| "dlt NaN y = False"
| "dlt x NaN = False"
| "dlt NInf y = (y \<noteq> NInf)"
| "dlt x PInf = (x \<noteq> PInf)"
| "dlt x y = False"

definition deq :: "dbl \<Rightarrow> dbl \<Rightarrow> bool" where
  "deq x y = (x = y \<and> x \<noteq> NaN)"

definition dle :: "dbl \<Rightarrow> dbl \<Rightarrow> bool" where
  "dle x y = (dlt x y \<or> deq x y)"

definition d_of_int :: "int \<Rightarrow> dbl" where
  "d_of_int i = rnd (of_int i)"

text \<open>
  \<open>sqrt\<close>: the root is computed with more than twice the precision of a \<open>double\<close>; when it is
  not exact the value half way to the next integer rounds as the root does.
\<close>

function isqrt :: "int \<Rightarrow> int" where
  "isqrt n = (if n \<le> 0 then 0
     else let r = 2 * isqrt (n div 4) in if (r + 1) * (r + 1) \<le> n then r + 1 else r)"
  by auto

termination isqrt by (relation "measure nat") auto

declare isqrt.simps [simp del]

definition sqrt_rat :: "rat \<Rightarrow> rat" where
  "sqrt_rat x =
     (let k = 55 + bitlen (snd (quotient_of x)); y = x * 4 powi k; m = isqrt \<lfloor>y\<rfloor> in
      (if of_int m * of_int m = y then of_int m else of_int m + 1 / 2) / 2 powi k)"

fun dsqrt :: "dbl \<Rightarrow> dbl" where
  "dsqrt NaN = NaN"
| "dsqrt PInf = PInf"
| "dsqrt NInf = NaN"
| "dsqrt (Fin x) = (if x < 0 then NaN else if x = 0 then Fin 0 else rnd (sqrt_rat x))"

section \<open>The exponent\<close>

lemma int_between_powers:
  assumes "0 < n"
  shows "2 powi (bitlen n - 1) \<le> (of_int n :: rat) \<and> (of_int n :: rat) < 2 powi bitlen n"
proof -
  have b: "0 \<le> bitlen n" "0 \<le> bitlen n - 1"
    using assms bitlen_eq_zero_iff [of n] bitlen_nonneg [of n] by linarith+
  have "(of_int (2 ^ nat (bitlen n - 1)) :: rat) \<le> of_int n"
    using bitlen_bounds [OF assms] by (simp only: of_int_le_iff)
  moreover have "(of_int n :: rat) < of_int (2 ^ nat (bitlen n))"
    using bitlen_bounds [OF assms] by (simp only: of_int_less_iff)
  ultimately show ?thesis
    by (simp only: power_int_nonneg_exp [OF b(1)] power_int_nonneg_exp [OF b(2)] of_int_power
        of_int_numeral)
qed

lemma expo_bounds:
  assumes "x \<noteq> 0"
  shows "2 powi expo x \<le> \<bar>x\<bar>" and "\<bar>x\<bar> < 2 powi (expo x + 1)"
proof -
  obtain n d where q: "quotient_of \<bar>x\<bar> = (n, d)" by fastforce
  have d: "0 < d" using quotient_of_denom_pos [OF q] .
  have x: "\<bar>x\<bar> = of_int n / of_int d" using quotient_of_div [OF q] .
  have n: "0 < n"
  proof -
    have "0 < \<bar>x\<bar>" using assms by simp
    then have "(0::rat) < of_int n" unfolding x using d by (simp add: zero_less_divide_iff)
    then show ?thesis by simp
  qed
  let ?e = "bitlen n - bitlen d"
  have nb: "2 powi (bitlen n - 1) \<le> (of_int n :: rat)" "(of_int n :: rat) < 2 powi bitlen n"
    and db: "2 powi (bitlen d - 1) \<le> (of_int d :: rat)" "(of_int d :: rat) < 2 powi bitlen d"
    using int_between_powers [OF n] int_between_powers [OF d] by blast+
  have low: "2 powi (?e - 1) \<le> \<bar>x\<bar>"
  proof -
    have "2 powi (?e - 1) * of_int d \<le> 2 powi (?e - 1) * (2 powi bitlen d :: rat)"
      using db(2) by simp
    also have "\<dots> = 2 powi (bitlen n - 1)" by (simp add: flip: power_int_add)
    also have "\<dots> \<le> of_int n" by (rule nb(1))
    finally show ?thesis using d x by (simp add: pos_le_divide_eq)
  qed
  have high: "\<bar>x\<bar> < 2 powi (?e + 1)"
  proof -
    have "of_int n < (2 powi bitlen n :: rat)" by (rule nb(2))
    also have "\<dots> = 2 powi (?e + 1) * 2 powi (bitlen d - 1)" by (simp add: flip: power_int_add)
    also have "\<dots> \<le> 2 powi (?e + 1) * of_int d" using db(1) by simp
    finally show ?thesis using d x by (simp add: pos_divide_less_eq)
  qed
  show "2 powi expo x \<le> \<bar>x\<bar>" and "\<bar>x\<bar> < 2 powi (expo x + 1)"
    using low high q by (auto simp: expo_def Let_def)
qed

lemma expo_mono: "x \<noteq> 0 \<Longrightarrow> \<bar>x\<bar> \<le> \<bar>y\<bar> \<Longrightarrow> expo x \<le> expo y"
proof -
  assume x: "x \<noteq> 0" and le: "\<bar>x\<bar> \<le> \<bar>y\<bar>"
  then have "y \<noteq> 0" by auto
  have "2 powi expo x < (2::rat) powi (expo y + 1)"
    using expo_bounds(1) [OF x] le expo_bounds(2) [OF \<open>y \<noteq> 0\<close>] by linarith
  then have "\<not> expo y + 1 \<le> expo x"
    using power_int_increasing [of "expo y + 1" "expo x" "2 :: rat"] by auto
  then show "expo x \<le> expo y" by simp
qed

section \<open>Rounding is exact and monotone on the doubles\<close>

text \<open>The rationals that are doubles.\<close>

definition fin_ok :: "rat \<Rightarrow> bool" where
  "fin_ok x = (x = 0 \<or> (of_int \<lfloor>x / ulp x\<rfloor> = x / ulp x \<and> \<bar>x\<bar> < dbl_limit))"

fun dbl_ok :: "dbl \<Rightarrow> bool" where
  "dbl_ok (Fin x) = fin_ok x"
| "dbl_ok _ = True"

lemma ulp_pos [simp]: "0 < ulp x"
  by (simp add: ulp_def zero_less_power_int)

lemma ulp_nz [simp]: "ulp x \<noteq> 0"
  using ulp_pos [of x] by linarith

lemma ulp_nonneg [simp]: "0 \<le> ulp x"
  using ulp_pos [of x] by linarith

lemma rne_of_int [simp]: "rne (of_int k) = k"
  by (simp add: rne_def)

lemma rne_bounds: "\<lfloor>q\<rfloor> \<le> rne q" "rne q \<le> \<lfloor>q\<rfloor> + 1"
  by (simp_all add: rne_def Let_def)

lemma rne_ge: "of_int k \<le> q \<Longrightarrow> k \<le> rne q"
  using rne_bounds(1) [of q] by (meson le_floor_iff order_trans)

lemma rne_le:
  assumes "q \<le> of_int k"
  shows "rne q \<le> k"
proof (cases "q = of_int k")
  case False
  with assms have "\<lfloor>q\<rfloor> < k" by (simp add: floor_less_iff)
  with rne_bounds(2) [of q] show ?thesis by simp
qed simp

lemma fin_ok_multiple: "fin_ok x \<Longrightarrow> \<exists>k. x = of_int k * ulp x"
proof -
  assume "fin_ok x"
  then have "x = 0 \<or> of_int \<lfloor>x / ulp x\<rfloor> = x / ulp x" unfolding fin_ok_def by blast
  then have "x = of_int \<lfloor>x / ulp x\<rfloor> * ulp x \<or> x = of_int 0 * ulp x"
    by (metis nonzero_divide_eq_eq ulp_nz mult_zero_left of_int_0)
  then show ?thesis by blast
qed

lemma multiple_fin_ok: "x = of_int k * ulp x \<Longrightarrow> \<bar>x\<bar> < dbl_limit \<Longrightarrow> fin_ok x"
proof -
  assume x: "x = of_int k * ulp x" and "\<bar>x\<bar> < dbl_limit"
  from x have "x / ulp x = of_int k" by (metis nonzero_mult_div_cancel_right ulp_nz)
  with \<open>\<bar>x\<bar> < dbl_limit\<close> show ?thesis by (simp add: fin_ok_def)
qed

lemma dbl_limit_pos [simp]: "0 < dbl_limit"
  by (simp add: dbl_limit_def)

lemma fin_ok_bound: "fin_ok x \<Longrightarrow> \<bar>x\<bar> < dbl_limit"
  by (auto simp: fin_ok_def)

lemma rnd_exact:
  assumes "fin_ok x"
  shows "rnd x = Fin x"
proof (cases "x = 0")
  case False
  with assms have i: "of_int \<lfloor>x / ulp x\<rfloor> = x / ulp x" and b: "\<bar>x\<bar> < dbl_limit"
    unfolding fin_ok_def by simp_all
  have "rne (x / ulp x) = \<lfloor>x / ulp x\<rfloor>" using i by (metis rne_of_int)
  then have "of_int (rne (x / ulp x)) * ulp x = x"
    using i by (metis nonzero_divide_eq_eq ulp_nz)
  with False b show ?thesis by (simp add: rnd_def overflow_def abs_less_iff)
qed (simp add: rnd_def)

lemma ulp_ratio: "expo x \<le> expo y \<Longrightarrow> \<exists>n. ulp y = of_int (2 ^ n) * ulp x"
proof -
  assume le: "expo x \<le> expo y"
  let ?a = "max (expo x) (-1022) - 52" and ?b = "max (expo y) (-1022) - 52"
  have ab: "?a \<le> ?b" using le by simp
  have "ulp y = 2 powi (?b - ?a + ?a)" by (simp add: ulp_def)
  also have "\<dots> = 2 powi (?b - ?a) * 2 powi ?a" by (rule power_int_add) simp
  also have "(2 :: rat) powi (?b - ?a) = of_int (2 ^ nat (?b - ?a))"
    using ab by (simp only: power_int_nonneg_exp [of "?b - ?a"] diff_ge_0_iff_ge of_int_power of_int_numeral)
  finally show ?thesis by (auto simp: ulp_def)
qed

lemma fin_ok_multiple_ulp:
  assumes "fin_ok y" and "x \<noteq> 0" and "\<bar>x\<bar> \<le> \<bar>y\<bar>"
  shows "\<exists>k. y = of_int k * ulp x"
proof -
  obtain k where k: "y = of_int k * ulp y" using fin_ok_multiple [OF assms(1)] by blast
  obtain n where n: "ulp y = of_int (2 ^ n) * ulp x" using ulp_ratio [OF expo_mono [OF assms(2,3)]] by blast
  from k n have "y = of_int (k * 2 ^ n) * ulp x" by (metis mult.assoc of_int_mult)
  then show ?thesis by blast
qed

text \<open>A value between 0 and a double rounds to something between them.\<close>

lemma rnd_between:
  assumes "0 \<le> x" and "x \<le> y" and "fin_ok y"
  shows "\<exists>z. rnd x = Fin z \<and> 0 \<le> z \<and> z \<le> y"
proof (cases "x = 0")
  case True
  with assms show ?thesis by (simp add: rnd_def)
next
  case False
  with assms(1,2) obtain k where k: "y = of_int k * ulp x"
    using fin_ok_multiple_ulp [OF assms(3) False] by auto
  have "x / ulp x \<le> of_int k" using assms(2) k by (simp add: pos_divide_le_eq)
  then have "rne (x / ulp x) \<le> k" by (rule rne_le)
  then have "of_int (rne (x / ulp x)) * ulp x \<le> y" unfolding k by (simp add: mult_right_mono)
  moreover have "0 \<le> x / ulp x" using assms(1) ulp_pos [of x] by (intro divide_nonneg_pos) simp_all
  then have "0 \<le> rne (x / ulp x)" by (intro rne_ge) simp
  then have "0 \<le> of_int (rne (x / ulp x)) * ulp x"
    using ulp_pos [of x] by (intro mult_nonneg_nonneg) simp_all
  moreover have "y < dbl_limit" using fin_ok_bound [OF assms(3)] by simp
  ultimately have "rnd x = Fin (of_int (rne (x / ulp x)) * ulp x)"
    using False by (auto simp: rnd_def overflow_def)
  then show ?thesis
    using \<open>of_int (rne (x / ulp x)) * ulp x \<le> y\<close> \<open>0 \<le> of_int (rne (x / ulp x)) * ulp x\<close> by blast
qed

text \<open>What rounding returns is a double.\<close>

lemma pow2_multiple: "a \<le> b \<Longrightarrow> \<exists>k. (2 :: rat) powi b = of_int k * 2 powi a"
proof -
  assume "a \<le> b"
  then have "(2 :: rat) powi (b - a) = of_int (2 ^ nat (b - a))"
    by (simp only: power_int_nonneg_exp [of "b - a"] diff_ge_0_iff_ge of_int_power of_int_numeral)
  moreover have "(2 :: rat) powi b = 2 powi (b - a) * 2 powi a"
    using power_int_add [of "2 :: rat" "b - a" a] by simp
  ultimately have "(2 :: rat) powi b = of_int (2 ^ nat (b - a)) * 2 powi a" by metis
  then show ?thesis by blast
qed

lemma rne_abs_le:
  assumes "\<bar>q\<bar> \<le> of_int k"
  shows "\<bar>rne q\<bar> \<le> k"
proof -
  have "rne q \<le> k" using assms by (intro rne_le) simp
  moreover have "- k \<le> rne q" using assms by (intro rne_ge) simp
  ultimately show ?thesis by simp
qed

lemma rounded_multiple:
  assumes x: "x \<noteq> 0" and z: "z = of_int (rne (x / ulp x)) * ulp x" and "z \<noteq> 0"
  shows "\<exists>k. z = of_int k * ulp z"
proof -
  let ?a = "max (expo x) (-1022)"
  have ua: "ulp x = 2 powi (?a - 52)" by (simp add: ulp_def)
  obtain m where m: "(2 :: rat) powi (?a + 1) = of_int m * 2 powi (?a - 52)"
    using pow2_multiple [of "?a - 52" "?a + 1"] by auto
  have "2 powi (expo x + 1) \<le> (2 :: rat) powi (?a + 1)" by (rule power_int_increasing) simp_all
  then have "\<bar>x\<bar> \<le> of_int m * ulp x" using expo_bounds(2) [OF x] m ua by simp
  then have "\<bar>x / ulp x\<bar> \<le> of_int m"
    using ulp_pos [of x] by (simp only: abs_divide abs_of_pos pos_divide_le_eq)
  then have le: "\<bar>rne (x / ulp x)\<bar> \<le> m" by (rule rne_abs_le)
  have "\<bar>z\<bar> = of_int \<bar>rne (x / ulp x)\<bar> * ulp x"
    using ulp_pos [of x] by (simp only: z abs_mult abs_of_pos of_int_abs)
  also have "\<dots> \<le> of_int m * ulp x" using le by (intro mult_right_mono) (simp_all del: of_int_abs)
  finally have zb: "\<bar>z\<bar> \<le> 2 powi (?a + 1)" using m ua by simp
  show ?thesis
  proof (cases "expo z \<le> ?a")
    case True
    then obtain n where "ulp x = of_int n * ulp z"
      using pow2_multiple [of "max (expo z) (-1022) - 52" "?a - 52"] by (auto simp: ulp_def)
    with z have "z = of_int (rne (x / ulp x) * n) * ulp z" by (metis mult.assoc of_int_mult)
    then show ?thesis by blast
  next
    case False
    then have "(2 :: rat) powi (?a + 1) \<le> 2 powi expo z" by (intro power_int_increasing) simp_all
    with zb expo_bounds(1) [OF assms(3)] have "\<bar>z\<bar> = 2 powi expo z" by simp
    moreover obtain n where "(2 :: rat) powi expo z = of_int n * ulp z"
      using pow2_multiple [of "max (expo z) (-1022) - 52" "expo z"] False by (auto simp: ulp_def)
    ultimately have "z = of_int n * ulp z \<or> z = of_int (- n) * ulp z"
      by (cases "0 \<le> z") auto
    then show ?thesis by blast
  qed
qed

lemma rnd_ok: "dbl_ok (rnd x)"
proof (cases "x = 0")
  case True
  then show ?thesis by (simp add: rnd_def fin_ok_def)
next
  case False
  let ?z = "of_int (rne (x / ulp x)) * ulp x"
  show ?thesis
  proof (cases "?z = 0 \<or> dbl_limit \<le> ?z \<or> ?z \<le> - dbl_limit")
    case True
    with False show ?thesis by (auto simp: rnd_def overflow_def fin_ok_def)
  next
    case nz: False
    then obtain k where "?z = of_int k * ulp ?z" using rounded_multiple [OF False refl] by blast
    then have "fin_ok ?z" by (rule multiple_fin_ok) (use nz in auto)
    with False nz show ?thesis by (auto simp: rnd_def overflow_def)
  qed
qed

section \<open>The operations keep doubles\<close>

lemma dbl_ok_dinf [simp]: "dbl_ok (dinf s)"
  by (simp add: dinf_def)

lemma fin_ok_0 [simp]: "fin_ok 0"
  by (simp add: fin_ok_def)

lemma dbl_ok_dadd: "dbl_ok x \<Longrightarrow> dbl_ok y \<Longrightarrow> dbl_ok (dadd x y)"
  by (cases "(x, y)" rule: dadd.cases) (simp_all add: rnd_ok)

lemma dbl_ok_dmul: "dbl_ok (dmul x y)"
  by (cases "(x, y)" rule: dmul.cases) (simp_all add: rnd_ok)

lemma dbl_ok_ddiv: "dbl_ok (ddiv x y)"
  by (cases "(x, y)" rule: ddiv.cases) (simp_all add: rnd_ok)

lemma dmul_between:
  assumes "fin_ok y" and "0 \<le> y" and "0 \<le> c" and "c \<le> 1"
  shows "\<exists>z. dmul (Fin y) (Fin c) = Fin z \<and> 0 \<le> z \<and> z \<le> y \<and> fin_ok z"
proof -
  have "0 \<le> y * c" and "y * c \<le> y" using assms(2-4) by (simp_all add: mult_left_le)
  from rnd_between [OF this assms(1)] obtain z where z: "rnd (y * c) = Fin z" "0 \<le> z" "z \<le> y"
    by blast
  with rnd_ok [of "y * c"] show ?thesis by simp
qed

text \<open>The integer square root.\<close>

lemma isqrt_bounds: "0 \<le> n \<Longrightarrow> 0 \<le> isqrt n \<and> isqrt n * isqrt n \<le> n \<and> n < (isqrt n + 1) * (isqrt n + 1)"
proof (induction n rule: isqrt.induct)
  case (1 n)
  show ?case
  proof (cases "n = 0")
    case True
    then show ?thesis by (simp add: isqrt.simps)
  next
    case False
    define s where "s = isqrt (n div 4)"
    have "\<not> n \<le> 0" "0 \<le> n div 4" using 1(2) False by simp_all
    with 1 have s: "0 \<le> s" "s * s \<le> n div 4" "n div 4 < (s + 1) * (s + 1)" by (simp_all add: s_def)
    have low: "2 * s * (2 * s) \<le> n" using s(2) by simp
    have high: "n < (2 * s + 2) * (2 * s + 2)"
    proof -
      have "n div 4 + 1 \<le> (s + 1) * (s + 1)" using s(3) by simp
      moreover have "n < 4 * (n div 4 + 1)" by simp
      moreover have "(2 * s + 2) * (2 * s + 2) = 4 * ((s + 1) * (s + 1))" by algebra
      ultimately show ?thesis by linarith
    qed
    have "isqrt n = (if (2 * s + 1) * (2 * s + 1) \<le> n then 2 * s + 1 else 2 * s)"
      using \<open>\<not> n \<le> 0\<close> by (subst isqrt.simps) (simp add: s_def Let_def)
    with low high s(1) show ?thesis
      by (cases "(2 * s + 1) * (2 * s + 1) \<le> n") (simp_all add: algebra_simps)
  qed
qed

lemma isqrt_eq:
  assumes "0 \<le> r" and "r * r \<le> n" and "n < (r + 1) * (r + 1)"
  shows "isqrt n = r"
proof -
  let ?i = "isqrt n"
  have "0 \<le> n" using assms(1,2) by (meson mult_nonneg_nonneg order_trans)
  then have i: "0 \<le> ?i" "?i * ?i \<le> n" "n < (?i + 1) * (?i + 1)" using isqrt_bounds [of n] by simp_all
  have "\<not> r + 1 \<le> ?i"
  proof
    assume "r + 1 \<le> ?i"
    then have "(r + 1) * (r + 1) \<le> ?i * ?i" using assms(1) by (intro mult_mono) simp_all
    with i assms(3) show False by linarith
  qed
  moreover have "\<not> ?i + 1 \<le> r"
  proof
    assume "?i + 1 \<le> r"
    then have "(?i + 1) * (?i + 1) \<le> r * r" using i(1) by (intro mult_mono) simp_all
    with i assms(2) show False by linarith
  qed
  ultimately show ?thesis by simp
qed

text \<open>Finding an exponent, and the value of a rounding, from bounds.\<close>

lemma expo_eqI:
  assumes "2 powi e \<le> \<bar>x\<bar>" and "\<bar>x\<bar> < 2 powi (e + 1)"
  shows "expo x = e"
proof -
  have "(0 :: rat) < 2 powi e" by (rule zero_less_power_int) simp
  then have "0 < \<bar>x\<bar>" using assms(1) by linarith
  then have x: "x \<noteq> 0" by simp
  have "2 powi e < (2 :: rat) powi (expo x + 1)" "2 powi expo x < (2 :: rat) powi (e + 1)"
    using assms expo_bounds [OF x] by linarith+
  then have "\<not> expo x + 1 \<le> e" "\<not> e + 1 \<le> expo x"
    using power_int_increasing [of "expo x + 1" e "2 :: rat"]
      power_int_increasing [of "e + 1" "expo x" "2 :: rat"] by auto
  then show ?thesis by simp
qed

lemma rne_eqI: "\<bar>q - of_int k\<bar> < 1 / 2 \<Longrightarrow> rne q = k"
proof -
  assume a: "\<bar>q - of_int k\<bar> < 1 / 2"
  show ?thesis
  proof (cases "of_int k \<le> q")
    case True
    with a have "\<lfloor>q\<rfloor> = k" by (simp add: floor_eq_iff)
    moreover have "q - of_int k < 1 / 2" using a by (simp only: abs_less_iff)
    ultimately show ?thesis by (simp add: rne_def)
  next
    case False
    with a have "\<lfloor>q\<rfloor> = k - 1" by (simp add: floor_eq_iff)
    moreover have "- (q - of_int k) < 1 / 2" using a by (simp only: abs_less_iff)
    then have "1 / 2 < q - of_int (k - 1)" unfolding of_int_diff of_int_1 by linarith
    ultimately show ?thesis by (simp add: rne_def Let_def)
  qed
qed

lemma rnd_eqI:
  assumes "2 powi e \<le> \<bar>x\<bar>" and "\<bar>x\<bar> < 2 powi (e + 1)" and "-1022 \<le> e"
    and "\<bar>x / 2 powi (e - 52) - of_int k\<bar> < 1 / 2" and "\<bar>of_int k * 2 powi (e - 52)\<bar> < dbl_limit"
  shows "rnd x = Fin (of_int k * 2 powi (e - 52))"
proof -
  have "(0 :: rat) < 2 powi e" by (rule zero_less_power_int) simp
  then have "0 < \<bar>x\<bar>" using assms(1) by linarith
  then have x: "x \<noteq> 0" by simp
  have "ulp x = 2 powi (e - 52)" using expo_eqI [OF assms(1,2)] assms(3) by (simp add: ulp_def)
  with x rne_eqI [OF assms(4)] assms(5) show ?thesis by (auto simp: rnd_def overflow_def)
qed

section \<open>Small dyadic values\<close>

lemma fin_ok_dyadic:
  assumes x: "x = of_int k * 2 powi e" and k: "\<bar>k\<bar> < 2 ^ 53" and e: "-1074 \<le> e" "e \<le> 900"
  shows "fin_ok x"
proof (cases "k = 0")
  case False
  have p: "(0 :: rat) < 2 powi e" by (rule zero_less_power_int) simp
  with False have nz: "x \<noteq> 0" by (simp add: x)
  have ax: "\<bar>x\<bar> = of_int \<bar>k\<bar> * 2 powi e" using p by (simp add: x abs_mult)
  have "(of_int \<bar>k\<bar> :: rat) < of_int (2 ^ 53)" using k by (simp only: of_int_less_iff)
  then have "(of_int \<bar>k\<bar> :: rat) < 2 powi 53" by (simp only: of_int_power of_int_numeral power_int_numeral)
  then have "\<bar>x\<bar> < 2 powi 53 * 2 powi e" unfolding ax by (rule mult_strict_right_mono [OF _ p])
  also have "\<dots> = 2 powi (53 + e)" by (rule power_int_add [symmetric]) simp
  finally have lt: "\<bar>x\<bar> < 2 powi (53 + e)" .
  have "2 powi expo x < (2 :: rat) powi (53 + e)" using expo_bounds(1) [OF nz] lt by linarith
  then have "\<not> 53 + e \<le> expo x"
    using power_int_increasing [of "53 + e" "expo x" "2 :: rat"] by auto
  then have "max (expo x) (-1022) - 52 \<le> e" using e by simp
  then obtain m where "(2 :: rat) powi e = of_int m * ulp x"
    using pow2_multiple [of "max (expo x) (-1022) - 52" e] by (auto simp: ulp_def)
  then have "x = of_int (k * m) * ulp x" using x by simp
  moreover have "\<bar>x\<bar> < dbl_limit"
  proof -
    have "(2 :: rat) powi (53 + e) \<le> 2 powi 1024" using e by (intro power_int_increasing) simp_all
    with lt show ?thesis unfolding dbl_limit_def power_int_numeral by linarith
  qed
  ultimately show ?thesis by (rule multiple_fin_ok)
qed (simp add: x)

lemma rnd_dyadic: "\<bar>k\<bar> < 2 ^ 53 \<Longrightarrow> -1074 \<le> e \<Longrightarrow> e \<le> 900 \<Longrightarrow> rnd (of_int k * 2 powi e) = Fin (of_int k * 2 powi e)"
  by (rule rnd_exact, rule fin_ok_dyadic) auto

lemma d_of_int_exact: "\<bar>k\<bar> < 2 ^ 53 \<Longrightarrow> d_of_int k = Fin (of_int k)"
  using rnd_dyadic [of k 0] by (simp add: d_of_int_def)

lemma rnd_0 [simp]: "rnd 0 = Fin 0"
  by (simp add: rnd_def)

end
