(* ===== verification/Control_Model.thy ===== *)
theory Control_Model
  imports Cpp_Heap Wire Binary64
begin

text \<open>
  The control server's data (servcontrol/include/Control.h, Server.h, ZoneLoad.h) and the
  operations of the \<open>Control\<close> singleton that balance the game servers
  (servcontrol/src/Control.cpp).

  A \<open>Server\<close> is reached through the store, because the server list and the zone table
  point to the same objects; the \<open>ZoneLoad\<close> objects are only pointed to by their server's
  vector and are kept in it. Connections are named by numbers, what is handed to one is an
  event. \<open>list<Server*>::sort()\<close> orders by the pointers' values: \<open>place\<close> says where an
  object lies.
\<close>

section \<open>Data\<close>

type_synonym gcid = nat

datatype control_msg =
  ServerLoadSend
| RemoveZoneSend int
| GetZoneSend int int
| RouterChangeZoneSend int int int
| SetZoneToServerSend int int
| IPServerSend "int option" "byte option list" "byte option list"
| GameNewUserSend int int
| RouterNewUserSend int int int
| RouterDeleteUserSend int
| LoginOnlineSend

datatype control_event =
  CSend gcid control_msg
| CAnswer gcid control_msg
| CClose gcid

record zone_load =
  zl_zone :: int
  zl_load :: dbl

record cserver =
  cs_id :: int
  cs_ip :: "string option"
  cs_port :: "string option"
  cs_c :: "gcid option"
  cs_distribution :: "zone_load list"
  cs_totalLoad :: dbl

definition IPLENGTH :: nat where "IPLENGTH = 16"
definition PORTLENGTH :: nat where "PORTLENGTH = 5"
definition DEF_GAME_SERVERS :: int where "DEF_GAME_SERVERS = 3"
definition MAX_GAME_SERVERS :: int where "MAX_GAME_SERVERS = 50"
definition NZONES :: nat where "NZONES = 4"

text \<open>\<open>cs_c\<close> and \<open>cs_totalLoad\<close> are not set by the constructor.\<close>

definition cserver_new :: "int \<Rightarrow> string option \<Rightarrow> string option \<Rightarrow> gcid option \<Rightarrow> dbl \<Rightarrow> cserver" where
  "cserver_new idServer ip port raw_c raw_load = \<lparr>cs_id = idServer, cs_ip = ip, cs_port = port,
     cs_c = raw_c, cs_distribution = [], cs_totalLoad = raw_load\<rparr>"

definition cserver_less :: "cserver \<Rightarrow> cserver \<Rightarrow> bool" where
  "cserver_less s t = dlt (cs_totalLoad s) (cs_totalLoad t)"

text \<open>A text buffer is \<open>None\<close> while nothing was copied into it.\<close>

record control =
  ct_numberServers :: int
  ct_ipServers :: "string option list"
  ct_portServers :: "string option list"
  ct_ipRouter :: "string option"
  ct_portRouter :: "string option"
  ct_ipLogin :: "string option"
  ct_portLogin :: "string option"
  ct_zoneServer :: "addr option list"
  ct_servers :: "addr list"
  ct_heap :: "cserver store"
  ct_mask :: "32 word"
  ct_loginConnection :: "gcid option"
  ct_routerConnection :: "gcid option"
  ct_events :: "control_event list"

definition control_new :: control where
  "control_new = \<lparr>ct_numberServers = 0, ct_ipServers = [], ct_portServers = [], ct_ipRouter = None,
     ct_portRouter = None, ct_ipLogin = None, ct_portLogin = None,
     ct_zoneServer = replicate NZONES None, ct_servers = [], ct_heap = st_empty, ct_mask = 0,
     ct_loginConnection = None, ct_routerConnection = None, ct_events = []\<rparr>"

definition ct_emit :: "control_event list \<Rightarrow> control \<Rightarrow> control" where
  "ct_emit es s = s\<lparr>ct_events := ct_events s @ es\<rparr>"

definition ct_get :: "addr \<Rightarrow> control \<Rightarrow> cserver result" where
  "ct_get a s = st_get (ct_heap s) a"

definition ct_put :: "addr \<Rightarrow> cserver \<Rightarrow> control \<Rightarrow> control" where
  "ct_put a v s = s\<lparr>ct_heap := st_put a v (ct_heap s)\<rparr>"

text \<open>\<open>p->c->send(m)\<close> through a pointer that may be null.\<close>

definition ct_sendTo :: "gcid option \<Rightarrow> control_msg \<Rightarrow> control \<Rightarrow> control result" where
  "ct_sendTo c m s = bindR (ofOption (UB NullDeref) c) (\<lambda>i. Inr (ct_emit [CSend i m] s))"

definition ct_answerTo :: "gcid option \<Rightarrow> control_msg \<Rightarrow> control \<Rightarrow> control result" where
  "ct_answerTo c m s = bindR (ofOption (UB NullDeref) c) (\<lambda>i. Inr (ct_emit [CAnswer i m] s))"

text \<open>\<open>zoneServer[i] = p\<close> and reading \<open>zoneServer[i]\<close>.\<close>

definition ct_setZoneServer :: "int \<Rightarrow> addr \<Rightarrow> control \<Rightarrow> control result" where
  "ct_setZoneServer i p s =
     (if 0 \<le> i \<and> i < int NZONES
      then Inr (s\<lparr>ct_zoneServer := (ct_zoneServer s)[nat i := Some p]\<rparr>) else Inl (UB OutOfBounds))"

definition ct_getZoneServer :: "int \<Rightarrow> control \<Rightarrow> addr option result" where
  "ct_getZoneServer i s =
     (if 0 \<le> i \<and> i < int NZONES then Inr (ct_zoneServer s ! nat i) else Inl (UB OutOfBounds))"

section \<open>Load statistics\<close>

definition ct_loads :: "control \<Rightarrow> dbl list result" where
  "ct_loads s = foldR (\<lambda>ls a. bindR (ct_get a s) (\<lambda>v. Inr (ls @ [cs_totalLoad v]))) (ct_servers s) []"

definition ct_getAverage :: "control \<Rightarrow> dbl result" where
  "ct_getAverage s = bindR (ct_loads s)
     (\<lambda>ls. Inr (ddiv (foldl dadd (Fin 0) ls) (d_of_int (ct_numberServers s))))"

definition ct_getStDev :: "control \<Rightarrow> dbl result" where
  "ct_getStDev s = bindR (ct_getAverage s) (\<lambda>avg. bindR (ct_loads s) (\<lambda>ls.
     let incr = foldl (\<lambda>i l. dadd i (dmul (dsub l avg) (dsub l avg))) (Fin 0) ls;
         n = ct_numberServers s in
     Inr (dsqrt (ddiv incr (d_of_int (if n < 2 then n else n - 1))))))"

section \<open>Balancing\<close>

definition ct_zoneChange :: "addr \<Rightarrow> int \<Rightarrow> addr \<Rightarrow> control \<Rightarrow> control result" where
  "ct_zoneChange source pos dest s =
     bindR (ct_get source s) (\<lambda>src. bindR (ct_get dest s) (\<lambda>dst.
     bindR (ct_sendTo (cs_c src) (RemoveZoneSend pos) s) (\<lambda>s1.
     bindR (ct_sendTo (cs_c dst) (GetZoneSend pos (cs_id src)) s1) (\<lambda>s2.
       ct_sendTo (ct_routerConnection s2) (RouterChangeZoneSend pos (cs_id src) (cs_id dst)) s2))))"

text \<open>The scan for the least loaded zone: the index of the first zone below \<open>minLoadZone\<close>
  that no later zone undercuts.\<close>

fun ct_scan :: "int \<Rightarrow> zone_load list \<Rightarrow> dbl \<Rightarrow> int \<Rightarrow> int" where
  "ct_scan i [] minLoadZone pos = pos"
| "ct_scan i (z # zs) minLoadZone pos =
     (if dlt (zl_load z) minLoadZone then ct_scan (i + 1) zs (zl_load z) i
      else ct_scan (i + 1) zs minLoadZone pos)"

definition ct_sortByPointer :: "(addr \<Rightarrow> nat) \<Rightarrow> control \<Rightarrow> control" where
  "ct_sortByPointer place s = s\<lparr>ct_servers := sort_key place (ct_servers s)\<rparr>"

text \<open>\<open>left\<close> is \<open>servers.size() - numIterations\<close>.\<close>

fun ct_balance_loop :: "(addr \<Rightarrow> nat) \<Rightarrow> nat \<Rightarrow> dbl \<Rightarrow> addr \<Rightarrow> addr \<Rightarrow> control \<Rightarrow> control result" where
  "ct_balance_loop place 0 standardDev maxS minS s = Inr s"
| "ct_balance_loop place (Suc left) standardDev maxS minS s =
     (if \<not> dlt (Fin 1) standardDev then Inr s
      else bindR (ct_get maxS s) (\<lambda>m.
        if length (cs_distribution m) = 1 \<or> maxS = minS then Inr s
        else let pos = ct_scan 0 (cs_distribution m) (Fin 1) (-1) in
          bindR (ct_zoneChange maxS pos minS s) (\<lambda>s1.
          bindR (ct_setZoneServer pos minS s1) (\<lambda>s2.
            let s3 = ct_sortByPointer place s2 in
            bindR (ct_getStDev s3) (\<lambda>dev.
              ct_balance_loop place left dev (last (ct_servers s3)) (hd (ct_servers s3)) s3)))))"

text \<open>The computed deviation is overwritten with 2 before the loop.\<close>

definition ct_balance :: "(addr \<Rightarrow> nat) \<Rightarrow> control \<Rightarrow> control result" where
  "ct_balance place s =
     (if ct_servers s = [] then Inl (UB EndDeref)
      else bindR (ct_getStDev s)
        (\<lambda>_. ct_balance_loop place (length (ct_servers s)) (Fin 2) (last (ct_servers s))
               (hd (ct_servers s)) s))"

section \<open>Sorting by load\<close>

definition compareServersLoad :: "cserver \<Rightarrow> cserver \<Rightarrow> bool" where
  "compareServersLoad first second = dlt (cs_totalLoad first) (cs_totalLoad second)"

text \<open>A stable sort by a strict order; the order is none when a load is not a number.\<close>

fun ct_insert :: "(addr \<times> cserver) \<Rightarrow> (addr \<times> cserver) list \<Rightarrow> (addr \<times> cserver) list" where
  "ct_insert x [] = [x]"
| "ct_insert x (y # ys) =
     (if compareServersLoad (snd y) (snd x) then y # ct_insert x ys else x # y # ys)"

definition ct_sortByLoad :: "control \<Rightarrow> control result" where
  "ct_sortByLoad s =
     bindR (foldR (\<lambda>ps a. bindR (ct_get a s) (\<lambda>v. Inr (ps @ [(a, v)]))) (ct_servers s) [])
       (\<lambda>ps. if \<exists>p\<in>set ps. cs_totalLoad (snd p) = NaN then Inl (UB BadOrder)
         else Inr (s\<lparr>ct_servers := map fst (foldr ct_insert ps [])\<rparr>))"

end
