(* ===== verification/Control_Balance.thy ===== *)
theory Control_Balance
  imports Control_Model "HOL-Library.Multiset"
begin

text \<open>
  What balancing does: the scan finds the first least loaded zone below load 1, each round
  hands out three orders for the \<open>index\<close> found, the rounds a pass runs, and a server whose zones
  are all at load 1 or above makes the balancer write outside its zone table.
\<close>

section \<open>The scan\<close>

lemma ct_scan_none: "\<forall>z\<in>set zs. \<not> dlt (zl_load z) m \<Longrightarrow> ct_scan i zs m pos = pos"
  by (induction zs arbitrary: i) auto

lemma dlt_trans: "dlt a b \<Longrightarrow> dlt b c \<Longrightarrow> dlt a c"
  by (cases a; cases b; cases c) auto

lemma dlt_irrefl [simp]: "\<not> dlt a a"
  by (cases a) auto

text \<open>The result is the start value when no zone is below the bound, else the index of the first
  zone that no zone of the vector is below.\<close>

lemma ct_scan_spec:
  "ct_scan i zs m pos = pos \<and> (\<forall>z\<in>set zs. \<not> dlt (zl_load z) m) \<or>
   (\<exists>k<length zs. ct_scan i zs m pos = i + int k \<and> dlt (zl_load (zs ! k)) m \<and>
     (\<forall>z\<in>set zs. \<not> dlt (zl_load z) (zl_load (zs ! k))) \<and>
     (\<forall>j<k. zl_load (zs ! j) \<noteq> zl_load (zs ! k)))"
proof (induction zs arbitrary: i m pos)
  case Nil
  then show ?case by simp
next
  case (Cons z zs)
  show ?case
  proof (cases "dlt (zl_load z) m")
    case True
    from Cons.IH [of "i + 1" "zl_load z" i] show ?thesis
    proof
      assume "ct_scan (i + 1) zs (zl_load z) i = i \<and> (\<forall>y\<in>set zs. \<not> dlt (zl_load y) (zl_load z))"
      with True show ?thesis by (intro disjI2 exI [of _ 0]) simp
    next
      assume "\<exists>k<length zs. ct_scan (i + 1) zs (zl_load z) i = i + 1 + int k \<and>
        dlt (zl_load (zs ! k)) (zl_load z) \<and> (\<forall>y\<in>set zs. \<not> dlt (zl_load y) (zl_load (zs ! k))) \<and>
        (\<forall>j<k. zl_load (zs ! j) \<noteq> zl_load (zs ! k))"
      then obtain k where k: "k < length zs" "ct_scan (i + 1) zs (zl_load z) i = i + 1 + int k"
        "dlt (zl_load (zs ! k)) (zl_load z)" "\<forall>y\<in>set zs. \<not> dlt (zl_load y) (zl_load (zs ! k))"
        "\<forall>j<k. zl_load (zs ! j) \<noteq> zl_load (zs ! k)" by blast
      have "\<not> dlt (zl_load z) (zl_load (zs ! k))" using k(3) dlt_trans dlt_irrefl by blast
      moreover have "zl_load ((z # zs) ! j) \<noteq> zl_load (zs ! k)" if "j < Suc k" for j
        using k(3,5) that by (cases j) auto
      ultimately show ?thesis using k True dlt_trans by (intro disjI2 exI [of _ "Suc k"]) auto
    qed
  next
    case False
    from Cons.IH [of "i + 1" m pos] show ?thesis
    proof
      assume "ct_scan (i + 1) zs m pos = pos \<and> (\<forall>y\<in>set zs. \<not> dlt (zl_load y) m)"
      with False show ?thesis by simp
    next
      assume "\<exists>k<length zs. ct_scan (i + 1) zs m pos = i + 1 + int k \<and>
        dlt (zl_load (zs ! k)) m \<and> (\<forall>y\<in>set zs. \<not> dlt (zl_load y) (zl_load (zs ! k))) \<and>
        (\<forall>j<k. zl_load (zs ! j) \<noteq> zl_load (zs ! k))"
      then obtain k where k: "k < length zs" "ct_scan (i + 1) zs m pos = i + 1 + int k"
        "dlt (zl_load (zs ! k)) m" "\<forall>y\<in>set zs. \<not> dlt (zl_load y) (zl_load (zs ! k))"
        "\<forall>j<k. zl_load (zs ! j) \<noteq> zl_load (zs ! k)" by blast
      have "\<not> dlt (zl_load z) (zl_load (zs ! k))" using k(3) False dlt_trans by blast
      moreover have "zl_load ((z # zs) ! j) \<noteq> zl_load (zs ! k)" if "j < Suc k" for j
        using k(3,5) False that by (cases j) auto
      ultimately show ?thesis using k False by (intro disjI2 exI [of _ "Suc k"]) auto
    qed
  qed
qed

section \<open>Rounds\<close>

text \<open>One round of the balancer: the source server's address, the index, the destination's
  address; the three orders it sends.\<close>

definition round_orders :: "control \<Rightarrow> addr \<times> int \<times> addr \<Rightarrow> control_event list option" where
  "round_orders s rd = (case rd of (src, pos, dst) \<Rightarrow>
     (case (st_look (ct_heap s) src, st_look (ct_heap s) dst) of
        (Some m, Some d) \<Rightarrow>
          (case (cs_c m, cs_c d, ct_routerConnection s) of
             (Some cm, Some cd, Some cr) \<Rightarrow>
               Some [CSend cm (RemoveZoneSend pos), CSend cd (GetZoneSend pos (cs_id m)),
                 CSend cr (RouterChangeZoneSend pos (cs_id m) (cs_id d))]
           | _ \<Rightarrow> None)
      | _ \<Rightarrow> None))"

text \<open>The index of the first least loaded zone of a vector, when there is one below load 1.\<close>

definition least_loaded :: "zone_load list \<Rightarrow> int \<Rightarrow> bool" where
  "least_loaded zs pos \<longleftrightarrow> (\<exists>k<length zs. pos = int k \<and> dlt (zl_load (zs ! k)) (Fin 1) \<and>
     (\<forall>z\<in>set zs. \<not> dlt (zl_load z) (zl_load (zs ! k))) \<and>
     (\<forall>j<k. zl_load (zs ! j) \<noteq> zl_load (zs ! k)))"

lemma scan_least_loaded:
  "0 \<le> ct_scan 0 zs (Fin 1) (-1) \<Longrightarrow> least_loaded zs (ct_scan 0 zs (Fin 1) (-1))"
  using ct_scan_spec [of 0 zs "Fin 1" "-1"] by (auto simp: least_loaded_def)

definition round_ok :: "control \<Rightarrow> addr \<times> int \<times> addr \<Rightarrow> bool" where
  "round_ok s rd = (case rd of (src, pos, dst) \<Rightarrow> src \<noteq> dst \<and> pos < int NZONES \<and>
     (\<exists>m. st_look (ct_heap s) src = Some m \<and> least_loaded (cs_distribution m) pos))"

definition rounds_table :: "(addr \<times> int \<times> addr) list \<Rightarrow> addr option list \<Rightarrow> addr option list" where
  "rounds_table rds t = foldl (\<lambda>t (src, pos, dst). t[nat pos := Some dst]) t rds"

lemma ct_emit_frame [simp]:
  "ct_heap (ct_emit es s) = ct_heap s" "ct_servers (ct_emit es s) = ct_servers s"
  "ct_zoneServer (ct_emit es s) = ct_zoneServer s"
  "ct_routerConnection (ct_emit es s) = ct_routerConnection s"
  "ct_numberServers (ct_emit es s) = ct_numberServers s" "ct_mask (ct_emit es s) = ct_mask s"
  "ct_events (ct_emit es s) = ct_events s @ es"
  "ct_ipServers (ct_emit es s) = ct_ipServers s" "ct_portServers (ct_emit es s) = ct_portServers s"
  by (simp_all add: ct_emit_def)

lemma ct_get_Inr [simp]: "ct_get a s = Inr v \<longleftrightarrow> st_look (ct_heap s) a = Some v"
  by (simp add: ct_get_def)

lemma ct_get_live: "st_look (ct_heap s) a = Some v \<Longrightarrow> ct_get a s = Inr v"
  by simp

lemma ct_sendTo_Inr [simp]:
  "ct_sendTo c m s = Inr s' \<longleftrightarrow> (\<exists>i. c = Some i \<and> s' = ct_emit [CSend i m] s)"
  by (auto simp: ct_sendTo_def bindR_eq_Inr)

lemma ct_emit_emit [simp]: "ct_emit fs (ct_emit es s) = ct_emit (es @ fs) s"
  by (simp add: ct_emit_def)

lemma ct_zoneChange_Inr:
  "ct_zoneChange src pos dst s = Inr s' \<longleftrightarrow>
   (\<exists>es. round_orders s (src, pos, dst) = Some es \<and> s' = ct_emit es s)"
  by (auto simp: ct_zoneChange_def bindR_eq_Inr round_orders_def split: option.splits)

lemma round_frame:
  assumes "ct_heap s' = ct_heap s" and "ct_routerConnection s' = ct_routerConnection s"
  shows "round_orders s' = round_orders s" and "round_ok s' = round_ok s"
  unfolding round_orders_def [abs_def] round_ok_def [abs_def] assms by (rule refl)+

definition orders_of :: "control \<Rightarrow> (addr \<times> int \<times> addr) list \<Rightarrow> control_event list" where
  "orders_of s rds = concat (map (\<lambda>rd. case round_orders s rd of None \<Rightarrow> [] | Some es \<Rightarrow> es) rds)"

text \<open>What the rounds leave behind.\<close>

definition rounds_effect :: "control \<Rightarrow> (addr \<times> int \<times> addr) list \<Rightarrow> control \<Rightarrow> bool" where
  "rounds_effect s rds s' \<longleftrightarrow> ct_events s' = ct_events s @ orders_of s rds \<and>
     ct_zoneServer s' = rounds_table rds (ct_zoneServer s) \<and>
     ct_heap s' = ct_heap s \<and> mset (ct_servers s') = mset (ct_servers s)"

text \<open>When a pass ends before its next round, whatever the deviation.\<close>

definition balance_stops :: "control \<Rightarrow> addr list \<Rightarrow> bool" where
  "balance_stops s ss \<longleftrightarrow> last ss = hd ss \<or>
     (\<exists>m. st_look (ct_heap s) (last ss) = Some m \<and> length (cs_distribution m) = 1)"

definition deviates :: "control \<Rightarrow> bool" where
  "deviates s \<longleftrightarrow> (\<exists>dev. ct_getStDev s = Inr dev \<and> dlt (Fin 1) dev)"

text \<open>Source and destination of the rounds of a pass: first the ends of the server list as it is,
  then, over and over, the ends of the list sorted by pointer.\<close>

definition balance_pairs :: "(addr \<Rightarrow> nat) \<Rightarrow> control \<Rightarrow> (addr \<times> addr) list" where
  "balance_pairs place s =
     (let ss = ct_servers s; sorted = ct_servers (ct_sortByPointer place s) in
      if balance_stops s ss then []
      else (last ss, hd ss) #
        (if balance_stops s sorted \<or> \<not> deviates (ct_sortByPointer place s) then []
         else replicate (length ss - 1) (last sorted, hd sorted)))"

definition round_pair :: "addr \<times> int \<times> addr \<Rightarrow> addr \<times> addr" where
  "round_pair rd = (case rd of (src, pos, dst) \<Rightarrow> (src, dst))"

lemma round_pair_simp [simp]: "round_pair (src, pos, dst) = (src, dst)"
  by (simp add: round_pair_def)

lemma getStDev_cong:
  assumes "ct_heap s' = ct_heap s" and "ct_servers s' = ct_servers s"
    and "ct_numberServers s' = ct_numberServers s"
  shows "ct_getStDev s' = ct_getStDev s"
proof -
  have "ct_loads s' = ct_loads s" using assms by (simp add: ct_loads_def ct_get_def)
  with assms(3) show ?thesis by (simp add: ct_getStDev_def ct_getAverage_def)
qed

lemma sortByPointer_frame [simp]:
  "ct_servers (ct_sortByPointer place s) = sort_key place (ct_servers s)"
  "ct_heap (ct_sortByPointer place s) = ct_heap s"
  "ct_routerConnection (ct_sortByPointer place s) = ct_routerConnection s"
  "ct_numberServers (ct_sortByPointer place s) = ct_numberServers s"
  "ct_events (ct_sortByPointer place s) = ct_events s"
  "ct_zoneServer (ct_sortByPointer place s) = ct_zoneServer s"
  by (simp_all add: ct_sortByPointer_def)

text \<open>One turn of the loop.\<close>

lemma balance_halts:
  assumes "ct_balance_loop place left dev maxS minS s = Inr s'"
    and "left = 0 \<or> \<not> dlt (Fin 1) dev \<or> maxS = minS \<or>
      (\<exists>m. st_look (ct_heap s) maxS = Some m \<and> length (cs_distribution m) = 1)"
  shows "s' = s"
  using assms by (cases left) (auto simp: bindR_eq_Inr split: if_splits)

lemma balance_turn:
  assumes run: "ct_balance_loop place (Suc left) dev maxS minS s = Inr s'" and big: "dlt (Fin 1) dev"
    and go: "maxS \<noteq> minS"
      "\<not> (\<exists>m. st_look (ct_heap s) maxS = Some m \<and> length (cs_distribution m) = 1)"
  shows "\<exists>pos es s3 dev'. round_ok s (maxS, pos, minS) \<and> round_orders s (maxS, pos, minS) = Some es \<and>
    ct_heap s3 = ct_heap s \<and> ct_routerConnection s3 = ct_routerConnection s \<and>
    ct_numberServers s3 = ct_numberServers s \<and> ct_events s3 = ct_events s @ es \<and>
    ct_servers s3 = sort_key place (ct_servers s) \<and>
    ct_zoneServer s3 = (ct_zoneServer s)[nat pos := Some minS] \<and> ct_getStDev s3 = Inr dev' \<and>
    ct_balance_loop place left dev' (last (ct_servers s3)) (hd (ct_servers s3)) s3 = Inr s'"
proof -
  from run big go obtain m where m: "st_look (ct_heap s) maxS = Some m"
    "length (cs_distribution m) \<noteq> 1"
    by (cases "st_look (ct_heap s) maxS") (auto simp: ct_get_def st_get_def ofOption_def)
  let ?pos = "ct_scan 0 (cs_distribution m) (Fin 1) (-1)"
  have "bindR (ct_zoneChange maxS ?pos minS s) (\<lambda>s1. bindR (ct_setZoneServer ?pos minS s1) (\<lambda>s2.
      bindR (ct_getStDev (ct_sortByPointer place s2)) (\<lambda>dev. ct_balance_loop place left dev
        (last (ct_servers (ct_sortByPointer place s2))) (hd (ct_servers (ct_sortByPointer place s2)))
        (ct_sortByPointer place s2)))) = Inr s'"
    using run big m go(1) by (simp add: ct_get_live Let_def del: sortByPointer_frame)
  then obtain es s2 dev' where es: "round_orders s (maxS, ?pos, minS) = Some es"
    and s2: "ct_setZoneServer ?pos minS (ct_emit es s) = Inr s2"
    and rest: "ct_getStDev (ct_sortByPointer place s2) = Inr dev'"
      "ct_balance_loop place left dev' (last (ct_servers (ct_sortByPointer place s2)))
        (hd (ct_servers (ct_sortByPointer place s2))) (ct_sortByPointer place s2) = Inr s'"
    by (auto simp: bindR_eq_Inr ct_zoneChange_Inr simp del: sortByPointer_frame ct_balance_loop.simps)
  from s2 have pos: "0 \<le> ?pos" "?pos < int NZONES"
    and s2': "s2 = (ct_emit es s)\<lparr>ct_zoneServer := (ct_zoneServer s)[nat ?pos := Some minS]\<rparr>"
    by (auto simp: ct_setZoneServer_def split: if_splits)
  have "round_ok s (maxS, ?pos, minS)"
    using go(1) pos m scan_least_loaded by (simp add: round_ok_def)
  with es rest show ?thesis
    by (intro exI [of _ ?pos] exI [of _ es] exI [of _ "ct_sortByPointer place s2"] exI [of _ dev'])
       (simp add: s2')
qed

lemma rounds_effect_refl: "rounds_effect s [] s"
  by (simp add: rounds_effect_def orders_of_def rounds_table_def)

lemma rounds_effect_cons:
  assumes "round_orders s (src, pos, dst) = Some es" and "ct_heap s3 = ct_heap s"
    and "ct_routerConnection s3 = ct_routerConnection s" and "ct_events s3 = ct_events s @ es"
    and "mset (ct_servers s3) = mset (ct_servers s)"
    and "ct_zoneServer s3 = (ct_zoneServer s)[nat pos := Some dst]" and "rounds_effect s3 rds s'"
  shows "rounds_effect s ((src, pos, dst) # rds) s'"
  using assms round_frame(1) [OF assms(2,3)]
  by (simp add: rounds_effect_def orders_of_def rounds_table_def)

text \<open>Once the list is sorted nothing that the loop looks at changes any more.\<close>

lemma balance_steady:
  assumes "ct_balance_loop place left dev (last (ct_servers s)) (hd (ct_servers s)) s = Inr s'"
    and "sort_key place (ct_servers s) = ct_servers s" and "ct_getStDev s = Inr dev"
  shows "\<exists>rds. map round_pair rds = (if balance_stops s (ct_servers s) \<or> \<not> dlt (Fin 1) dev then []
      else replicate left (last (ct_servers s), hd (ct_servers s))) \<and>
    (\<forall>rd\<in>set rds. round_ok s rd \<and> round_orders s rd \<noteq> None) \<and> rounds_effect s rds s'"
  using assms
proof (induction left arbitrary: s dev)
  case 0
  then show ?case using rounds_effect_refl by auto
next
  case (Suc left)
  show ?case
  proof (cases "balance_stops s (ct_servers s) \<or> \<not> dlt (Fin 1) dev")
    case True
    with balance_halts [OF Suc.prems(1)] have "s' = s" by (auto simp: balance_stops_def)
    with True rounds_effect_refl show ?thesis by auto
  next
    case False
    then have "dlt (Fin 1) dev" "last (ct_servers s) \<noteq> hd (ct_servers s)"
      "\<not> (\<exists>m. st_look (ct_heap s) (last (ct_servers s)) = Some m \<and> length (cs_distribution m) = 1)"
      by (auto simp: balance_stops_def)
    from balance_turn [OF Suc.prems(1) this] obtain pos es s3 dev' where
      ok: "round_ok s (last (ct_servers s), pos, hd (ct_servers s))"
      and es: "round_orders s (last (ct_servers s), pos, hd (ct_servers s)) = Some es"
      and s3: "ct_heap s3 = ct_heap s" "ct_routerConnection s3 = ct_routerConnection s"
        "ct_numberServers s3 = ct_numberServers s" "ct_events s3 = ct_events s @ es"
        "ct_servers s3 = sort_key place (ct_servers s)"
        "ct_zoneServer s3 = (ct_zoneServer s)[nat pos := Some (hd (ct_servers s))]"
      and dev': "ct_getStDev s3 = Inr dev'"
      and run: "ct_balance_loop place left dev' (last (ct_servers s3)) (hd (ct_servers s3)) s3 = Inr s'"
      by blast
    have same: "ct_servers s3 = ct_servers s" using s3(5) Suc.prems(2) by simp
    have "dev' = dev" using dev' Suc.prems(3) getStDev_cong [OF s3(1) same s3(3)] by simp
    moreover have "balance_stops s3 (ct_servers s3) = balance_stops s (ct_servers s)"
      by (simp add: balance_stops_def same s3(1))
    ultimately obtain rds where rds: "map round_pair rds = replicate left (last (ct_servers s), hd (ct_servers s))"
      "\<forall>rd\<in>set rds. round_ok s rd \<and> round_orders s rd \<noteq> None" "rounds_effect s3 rds s'"
      using Suc.IH [OF run _ dev'] False Suc.prems(2) unfolding round_frame [OF s3(1,2)] same by auto
    have "rounds_effect s ((last (ct_servers s), pos, hd (ct_servers s)) # rds) s'"
      by (rule rounds_effect_cons [OF es s3(1,2,4) _ s3(6) rds(3)]) (simp add: same)
    with ok es rds(1,2) False show ?thesis
      by (intro exI [of _ "(last (ct_servers s), pos, hd (ct_servers s)) # rds"])
         simp
  qed
qed

lemma balance_rounds:
  assumes "ct_balance place s = Inr s'"
  shows "\<exists>rds. map round_pair rds = balance_pairs place s \<and>
    (\<forall>rd\<in>set rds. round_ok s rd \<and> round_orders s rd \<noteq> None) \<and> rounds_effect s rds s'"
proof -
  let ?ss = "ct_servers s"
  from assms have ne: "?ss \<noteq> []"
    and run: "ct_balance_loop place (length ?ss) (Fin 2) (last ?ss) (hd ?ss) s = Inr s'"
    by (auto simp: ct_balance_def bindR_eq_Inr split: if_splits)
  show ?thesis
  proof (cases "balance_stops s ?ss")
    case True
    with balance_halts [OF run] have "s' = s" by (auto simp: balance_stops_def)
    with True rounds_effect_refl show ?thesis by (auto simp: balance_pairs_def)
  next
    case False
    then have go: "last ?ss \<noteq> hd ?ss"
      "\<not> (\<exists>m. st_look (ct_heap s) (last ?ss) = Some m \<and> length (cs_distribution m) = 1)"
      by (auto simp: balance_stops_def)
    obtain left where left: "length ?ss = Suc left" using ne by (cases ?ss) auto
    from balance_turn [OF run [unfolded left] _ go] obtain pos es s3 dev' where
      ok: "round_ok s (last ?ss, pos, hd ?ss)" and es: "round_orders s (last ?ss, pos, hd ?ss) = Some es"
      and s3: "ct_heap s3 = ct_heap s" "ct_routerConnection s3 = ct_routerConnection s"
        "ct_numberServers s3 = ct_numberServers s" "ct_events s3 = ct_events s @ es"
        "ct_servers s3 = sort_key place ?ss" "ct_zoneServer s3 = (ct_zoneServer s)[nat pos := Some (hd ?ss)]"
      and dev': "ct_getStDev s3 = Inr dev'"
      and rest: "ct_balance_loop place left dev' (last (ct_servers s3)) (hd (ct_servers s3)) s3 = Inr s'"
      by auto
    have "ct_getStDev (ct_sortByPointer place s) = Inr dev'"
      using dev' getStDev_cong [of s3 "ct_sortByPointer place s"] s3 by simp
    then have dev: "deviates (ct_sortByPointer place s) = dlt (Fin 1) dev'" by (simp add: deviates_def)
    have stops: "balance_stops s3 ss = balance_stops s ss" for ss
      by (simp add: balance_stops_def s3(1))
    have "sort_key place (ct_servers s3) = ct_servers s3"
      by (simp add: s3(5) sort_key_id_if_sorted)
    from balance_steady [OF rest this dev'] obtain rds where
      rds: "map round_pair rds = (if balance_stops s (sort_key place ?ss) \<or> \<not> dlt (Fin 1) dev' then []
        else replicate left (last (sort_key place ?ss), hd (sort_key place ?ss)))"
      "\<forall>rd\<in>set rds. round_ok s rd \<and> round_orders s rd \<noteq> None" "rounds_effect s3 rds s'"
      unfolding round_frame [OF s3(1,2)] s3(5) stops by blast
    have "rounds_effect s ((last ?ss, pos, hd ?ss) # rds) s'"
      by (rule rounds_effect_cons [OF es s3(1,2,4) _ s3(6) rds(3)]) (simp add: s3(5))
    moreover have "map round_pair ((last ?ss, pos, hd ?ss) # rds) = balance_pairs place s"
      using False left rds(1) dev by (simp add: balance_pairs_def Let_def)
    ultimately show ?thesis using ok es rds(2)
      by (intro exI [of _ "(last ?ss, pos, hd ?ss) # rds"]) simp
  qed
qed

section \<open>Properties\<close>

text \<open>C7. What a balancing pass amounts to, when it returns. It runs no round when the last and the
  first server of the list are the same object or the last one has exactly one zone. Else it
  takes the last server as the source and the first as the destination of a first round; after
  that it takes the ends of the list sorted by pointer, for as many rounds as there are other
  servers, unless those ends rule it out in the same way or the deviation of the loads is not
  above 1. Each round takes the index of the first least loaded zone of the source's vector,
  which is below load 1, and sends, in this order, \<open>RemoveZone\<close> to the source, \<open>GetZone\<close> to
  the destination and \<open>RouterChangeZone\<close> to the router; the zone table records the destinations
  of the rounds in order. The server objects, so also whose vector holds which zone, are
  unchanged, and the server list is a permutation of what it was.\<close>

theorem balance_is_rounds:
  assumes "ct_balance place s = Inr s'"
  shows "\<exists>rds. map round_pair rds = balance_pairs place s \<and>
    (\<forall>rd\<in>set rds. round_ok s rd \<and> round_orders s rd \<noteq> None) \<and>
    ct_events s' = ct_events s @ orders_of s rds \<and>
    ct_zoneServer s' = rounds_table rds (ct_zoneServer s) \<and>
    ct_heap s' = ct_heap s \<and> mset (ct_servers s') = mset (ct_servers s)"
  using balance_rounds [OF assms] unfolding rounds_effect_def .

definition ex_server :: "int \<Rightarrow> zone_load list \<Rightarrow> dbl \<Rightarrow> cserver" where
  "ex_server i zs l = \<lparr>cs_id = i, cs_ip = Some ''10.0.0.1'', cs_port = Some ''3000'',
     cs_c = Some (nat i), cs_distribution = zs, cs_totalLoad = l\<rparr>"

definition ex_control :: "zone_load list \<Rightarrow> dbl \<Rightarrow> control" where
  "ex_control zs l = control_new\<lparr>ct_numberServers := 2, ct_servers := [0, 1],
     ct_heap := \<lparr>st_objs = [(0, ex_server 0 [] (Fin 0)), (1, ex_server 1 zs l)], st_next = 2\<rparr>,
     ct_routerConnection := Some 9\<rparr>"

lemma ex_control_balance:
  "ct_balance (\<lambda>a. a)
     (ex_control [\<lparr>zl_zone = 2, zl_load = Fin (1 / 2)\<rparr>, \<lparr>zl_zone = 3, zl_load = Fin 0\<rparr>] (Fin 0)) =
   Inr ((ex_control [\<lparr>zl_zone = 2, zl_load = Fin (1 / 2)\<rparr>, \<lparr>zl_zone = 3, zl_load = Fin 0\<rparr>] (Fin 0))
     \<lparr>ct_zoneServer := [None, Some 0, None, None],
      ct_events := [CSend 1 (RemoveZoneSend 1), CSend 0 (GetZoneSend 1 1),
        CSend 9 (RouterChangeZoneSend 1 1 0)]\<rparr>)"
  by (simp add: ct_balance_def ex_control_def ex_server_def control_new_def ct_getStDev_def
      ct_getAverage_def ct_loads_def ct_get_def st_get_def st_look_def dsub_def d_of_int_exact
      ct_zoneChange_def ct_sendTo_def ct_emit_def ct_setZoneServer_def NZONES_def
      ct_sortByPointer_def numeral_eq_Suc Let_def)

theorem balance_is_rounds_witness:
  "\<exists>rd. round_pair rd = (1, 0) \<and>
    round_ok (ex_control [\<lparr>zl_zone = 2, zl_load = Fin (1 / 2)\<rparr>, \<lparr>zl_zone = 3, zl_load = Fin 0\<rparr>] (Fin 0)) rd"
proof -
  let ?s = "ex_control [\<lparr>zl_zone = 2, zl_load = Fin (1 / 2)\<rparr>, \<lparr>zl_zone = 3, zl_load = Fin 0\<rparr>] (Fin 0)"
  have "(1, 0) \<in> set (balance_pairs (\<lambda>a. a) ?s)"
    by (simp add: balance_pairs_def balance_stops_def ex_control_def ex_server_def st_look_def Let_def)
  with balance_is_rounds [OF ex_control_balance] show ?thesis
    by (metis (no_types, lifting) ex_map_conv in_set_conv_nth nth_map length_map)
qed

lemma ct_loads_live:
  assumes "\<forall>a\<in>set (ct_servers s). st_look (ct_heap s) a \<noteq> None"
  shows "\<exists>ls. ct_loads s = Inr ls \<and> True"
  unfolding ct_loads_def
  by (rule foldR_total) (use assms in \<open>auto simp: ct_get_def st_get_def\<close>)

lemma ct_getStDev_live:
  assumes "\<forall>a\<in>set (ct_servers s). st_look (ct_heap s) a \<noteq> None"
  shows "\<exists>dev. ct_getStDev s = Inr dev"
  using ct_loads_live [OF assms] by (auto simp: ct_getStDev_def ct_getAverage_def Let_def)

text \<open>C35. A saturated server breaks the balancer: when the most loaded server is another object than
  the least loaded one and no zone in its vector is below load 1 (all its zones are at full
  load, or it has no zone), and it does not hold exactly one zone, the balancer orders the
  transfer of zone -1 and then writes in front of the zone table.\<close>

theorem balance_saturated_out_of_bounds:
  assumes "ct_servers s \<noteq> []" and "hd (ct_servers s) \<noteq> last (ct_servers s)"
    and "\<forall>a\<in>set (ct_servers s). st_look (ct_heap s) a \<noteq> None"
    and "st_look (ct_heap s) (last (ct_servers s)) = Some m"
    and "round_orders s (last (ct_servers s), -1, hd (ct_servers s)) = Some es"
    and "length (cs_distribution m) \<noteq> 1" and "\<forall>z\<in>set (cs_distribution m). \<not> dlt (zl_load z) (Fin 1)"
  shows "ct_zoneChange (last (ct_servers s)) (-1) (hd (ct_servers s)) s = Inr (ct_emit es s) \<and>
    ct_balance place s = Inl (UB OutOfBounds)"
proof
  show zc: "ct_zoneChange (last (ct_servers s)) (-1) (hd (ct_servers s)) s = Inr (ct_emit es s)"
    using assms(5) by (simp add: ct_zoneChange_Inr)
  obtain k where k: "length (ct_servers s) = Suc k" using assms(1) by (cases "ct_servers s") auto
  have "ct_scan 0 (cs_distribution m) (Fin 1) (-1) = -1" using assms(7) by (rule ct_scan_none)
  moreover obtain dev where "ct_getStDev s = Inr dev" using ct_getStDev_live [OF assms(3)] by blast
  ultimately show "ct_balance place s = Inl (UB OutOfBounds)"
    using assms zc
    by (simp add: ct_balance_def k ct_get_live ct_setZoneServer_def)
qed

theorem balance_saturated_out_of_bounds_witness:
  "ct_balance (\<lambda>a. a)
     (ex_control [\<lparr>zl_zone = 2, zl_load = Fin 1\<rparr>, \<lparr>zl_zone = 3, zl_load = Fin 1\<rparr>] (Fin 2)) = Inl (UB OutOfBounds)"
proof -
  let ?s = "ex_control [\<lparr>zl_zone = 2, zl_load = Fin 1\<rparr>, \<lparr>zl_zone = 3, zl_load = Fin 1\<rparr>] (Fin 2)"
  have orders: "round_orders ?s (last (ct_servers ?s), -1, hd (ct_servers ?s)) =
      Some [CSend 1 (RemoveZoneSend (-1)), CSend 0 (GetZoneSend (-1) 1),
        CSend 9 (RouterChangeZoneSend (-1) 1 0)]"
    by (simp add: round_orders_def ex_control_def ex_server_def st_look_def)
  show ?thesis
    by (rule balance_saturated_out_of_bounds [where m = "ex_server 1 [\<lparr>zl_zone = 2, zl_load = Fin 1\<rparr>,
          \<lparr>zl_zone = 3, zl_load = Fin 1\<rparr>] (Fin 2)", OF _ _ _ _ orders, THEN conjunct2])
       (simp_all add: ex_control_def ex_server_def st_look_def)
qed

end
