(* ===== verification/Control_Setup.thy ===== *)
theory Control_Setup
  imports Control_Balance Connection
begin

text \<open>
  How the control server sets itself up (servcontrol/src/Control.cpp: the address tables, the
  connections, the first assignment of the zones, and the parts of \<open>main\<close> that size and run
  the rebalancing), and how it forgets servers.

  What the environment decides is an argument: the rows of the address table, which
  connections succeed, which links are up (\<open>online\<close>, for the duration of one call), what
  uninitialised members hold.
\<close>

section \<open>Addresses\<close>

record address_row =
  ar_ip :: string
  ar_port :: string
  ar_type :: string

definition TYPE_GAME_SERVER :: string where "TYPE_GAME_SERVER = ''game''"
definition TYPE_ROUTER_SERVER :: string where "TYPE_ROUTER_SERVER = ''router''"
definition TYPE_LOGIN_SERVER :: string where "TYPE_LOGIN_SERVER = ''login''"

text \<open>\<open>strcpy\<close> into a buffer of \<open>n\<close> bytes: the text and its terminator have to fit.\<close>

definition strcpy_into :: "nat \<Rightarrow> string \<Rightarrow> string result" where
  "strcpy_into n t = (if length t < n then Inr t else Inl (UB OutOfBounds))"

definition ct_fill_row :: "address_row \<Rightarrow> nat \<times> control \<Rightarrow> (nat \<times> control) result" where
  "ct_fill_row r js = (let (j, s) = js in
     if ar_type r = TYPE_GAME_SERVER \<and> int j < ct_numberServers s then
       bindR (strcpy_into IPLENGTH (ar_ip r)) (\<lambda>ip.
       bindR (strcpy_into PORTLENGTH (ar_port r)) (\<lambda>port.
         Inr (Suc j, s\<lparr>ct_ipServers := (ct_ipServers s)[j := Some ip],
                       ct_portServers := (ct_portServers s)[j := Some port]\<rparr>)))
     else if ar_type r = TYPE_ROUTER_SERVER then
       bindR (strcpy_into IPLENGTH (ar_ip r)) (\<lambda>ip.
       bindR (strcpy_into PORTLENGTH (ar_port r)) (\<lambda>port.
         Inr (j, s\<lparr>ct_ipRouter := Some ip, ct_portRouter := Some port\<rparr>)))
     else if ar_type r = TYPE_LOGIN_SERVER then
       bindR (strcpy_into IPLENGTH (ar_ip r)) (\<lambda>ip.
       bindR (strcpy_into PORTLENGTH (ar_port r)) (\<lambda>port.
         Inr (j, s\<lparr>ct_ipLogin := Some ip, ct_portLogin := Some port\<rparr>)))
     else Inr (j, s))"

definition ct_fillIpServerTable :: "address_row list \<Rightarrow> control \<Rightarrow> control result" where
  "ct_fillIpServerTable rows s =
     (let n = nat (ct_numberServers s) in
      bindR (foldR (\<lambda>js r. ct_fill_row r js) rows
               (0, s\<lparr>ct_ipServers := replicate n None, ct_portServers := replicate n None,
                     ct_ipRouter := None, ct_portRouter := None, ct_ipLogin := None,
                     ct_portLogin := None\<rparr>))
        (\<lambda>(_, s'). Inr s'))"

text \<open>The pointer to a server's buffer, by an index nobody checks.\<close>

definition ct_getIpServerById :: "int \<Rightarrow> control \<Rightarrow> string option result" where
  "ct_getIpServerById i s =
     (if 0 \<le> i \<and> i < int (length (ct_ipServers s)) then Inr (ct_ipServers s ! nat i)
      else Inl (UB OutOfBounds))"

definition ct_getPortServerById :: "int \<Rightarrow> control \<Rightarrow> string option result" where
  "ct_getPortServerById i s =
     (if 0 \<le> i \<and> i < int (length (ct_portServers s)) then Inr (ct_portServers s ! nat i)
      else Inl (UB OutOfBounds))"

section \<open>Connecting\<close>

text \<open>\<open>connect\<close> takes its address as a string: an unset buffer is read. \<open>up i\<close> says whether the
  connection to game server \<open>i\<close> succeeds; its connection is number \<open>i\<close>.\<close>

definition ct_connect_server :: "(nat \<Rightarrow> bool) \<Rightarrow> (nat \<Rightarrow> dbl) \<Rightarrow> nat \<Rightarrow> control \<Rightarrow> control result" where
  "ct_connect_server up raw i s =
     bindR (ofOption (UB UninitRead) (ct_ipServers s ! i)) (\<lambda>ip.
     bindR (ofOption (UB UninitRead) (ct_portServers s ! i)) (\<lambda>port.
       if up i then
         (let (a, h) = st_new ((cserver_new (int i) (Some ip) (Some port) None (raw i))\<lparr>cs_c := Some i\<rparr>)
                         (ct_heap s)
          in Inr (s\<lparr>ct_heap := h, ct_servers := ct_servers s @ [a]\<rparr>))
       else Inr (s\<lparr>ct_numberServers := ct_numberServers s - 1\<rparr>)))"

definition ct_initializeConnectionsAndServerList ::
    "address_row list \<Rightarrow> (nat \<Rightarrow> bool) \<Rightarrow> (nat \<Rightarrow> dbl) \<Rightarrow> control \<Rightarrow> control result" where
  "ct_initializeConnectionsAndServerList rows up raw s =
     bindR (ct_fillIpServerTable rows s) (\<lambda>s1.
       let ipsIni = nat (ct_numberServers s1) in
       bindR (foldR (\<lambda>s i. ct_connect_server up raw i s) [0..<ipsIni] s1) (\<lambda>s2.
       bindR (ofOption (UB UninitRead) (ct_ipLogin s2)) (\<lambda>_.
       bindR (ofOption (UB UninitRead) (ct_portLogin s2)) (\<lambda>_.
       bindR (ofOption (UB UninitRead) (ct_ipRouter s2)) (\<lambda>_.
       bindR (ofOption (UB UninitRead) (ct_portRouter s2)) (\<lambda>_.
         Inr (s2\<lparr>ct_loginConnection := Some ipsIni, ct_routerConnection := Some (Suc ipsIni)\<rparr>)))))))"

section \<open>Assigning zones\<close>

definition cs_isUp :: "(gcid \<Rightarrow> bool) \<Rightarrow> cserver \<Rightarrow> bool" where
  "cs_isUp online v = (case cs_c v of None \<Rightarrow> False | Some c \<Rightarrow> online c)"

definition ct_giveZone :: "int \<Rightarrow> addr \<Rightarrow> cserver \<Rightarrow> control \<Rightarrow> control result" where
  "ct_giveZone zone a v s =
     bindR (ct_sendTo (cs_c v) (SetZoneToServerSend zone (cs_id v)) s) (\<lambda>s1.
     bindR (ct_setZoneServer zone a s1) (\<lambda>s2.
       Inr (ct_put a (v\<lparr>cs_distribution := cs_distribution v @ [\<lparr>zl_zone = zone, zl_load = Fin 0\<rparr>],
                       cs_totalLoad := Fin 0\<rparr>) s2)))"

text \<open>The first loop: the zones left over go to the front server, if it is up.\<close>

definition ct_assign_front :: "(gcid \<Rightarrow> bool) \<Rightarrow> addr \<Rightarrow> nat \<Rightarrow> control \<times> int \<Rightarrow> (control \<times> int) result" where
  "ct_assign_front online front i sr = (let (s, zonesRestants) = sr in
     bindR (ct_get front s) (\<lambda>v.
       if cs_isUp online v
       then bindR (ct_giveZone (int i) front v s) (\<lambda>s'. Inr (s', zonesRestants - 1))
       else Inr (s, zonesRestants)))"

text \<open>One run through the server list; the flag says that the function returned.\<close>

fun ct_assign_pass :: "(gcid \<Rightarrow> bool) \<Rightarrow> addr list \<Rightarrow> control \<Rightarrow> int \<Rightarrow> int \<Rightarrow>
    (control \<times> int \<times> int \<times> bool) result" where
  "ct_assign_pass online [] s zoneIndex zonesRestants = Inr (s, zoneIndex, zonesRestants, False)"
| "ct_assign_pass online (a # as) s zoneIndex zonesRestants =
     bindR (ct_get a s) (\<lambda>v.
       if cs_isUp online v then
         bindR (ct_giveZone zoneIndex a v s) (\<lambda>s'.
           if zoneIndex + 1 = int NZONES then Inr (s', zoneIndex + 1, zonesRestants, True)
           else ct_assign_pass online as s' (zoneIndex + 1) (zonesRestants - 1))
       else ct_assign_pass online as s zoneIndex zonesRestants)"

text \<open>\<open>while (zonesRestants > 0)\<close>; \<open>Pending\<close> when \<open>fuel\<close> runs are not enough.\<close>

fun ct_assign_loop :: "(gcid \<Rightarrow> bool) \<Rightarrow> nat \<Rightarrow> control \<Rightarrow> int \<Rightarrow> int \<Rightarrow> control io" where
  "ct_assign_loop online fuel s zoneIndex zonesRestants =
     (if zonesRestants \<le> 0 then Ret s
      else case fuel of 0 \<Rightarrow> Pending
      | Suc k \<Rightarrow>
          bindIO (lift_result (ct_assign_pass online (ct_servers s) s zoneIndex zonesRestants))
            (\<lambda>(s', zi, zr, returned). if returned then Ret s' else ct_assign_loop online k s' zi zr))"

declare ct_assign_loop.simps [simp del]

definition ct_zoneAssignment :: "(gcid \<Rightarrow> bool) \<Rightarrow> nat \<Rightarrow> control \<Rightarrow> control io" where
  "ct_zoneAssignment online fuel s =
     (if ct_numberServers s = 0 then Fails (UB DivByZero)
      else let m = nat (int NZONES mod ct_numberServers s) in
      if ct_servers s = [] then Fails (UB EndDeref)
      else bindIO (lift_result (foldR (\<lambda>sr i. ct_assign_front online (hd (ct_servers s)) i sr) [0..<m]
                                  (s, int NZONES)))
             (\<lambda>(s1, zonesRestants). ct_assign_loop online fuel s1 (int m) zonesRestants))"

section \<open>Forgetting servers\<close>

fun ct_erase_id :: "int \<Rightarrow> addr list \<Rightarrow> control \<Rightarrow> addr list result" where
  "ct_erase_id idServer [] s = Inr []"
| "ct_erase_id idServer (a # as) s =
     bindR (ct_get a s) (\<lambda>v. if cs_id v = idServer then Inr as
       else bindR (ct_erase_id idServer as s) (\<lambda>r. Inr (a # r)))"

definition ct_eliminarServidor :: "int \<Rightarrow> control \<Rightarrow> control result" where
  "ct_eliminarServidor idServer s =
     bindR (ct_erase_id idServer (ct_servers s) s) (\<lambda>as. Inr (s\<lparr>ct_servers := as\<rparr>))"

text \<open>\<open>Server::~Server\<close> closes and deletes its connection.\<close>

definition ct_deleteServer :: "addr \<Rightarrow> control \<Rightarrow> control result" where
  "ct_deleteServer a s =
     bindR (ct_get a s) (\<lambda>v. bindR (ofOption (UB NullDeref) (cs_c v)) (\<lambda>c.
     bindR (st_delete a (ct_heap s)) (\<lambda>h. Inr (ct_emit [CClose c] (s\<lparr>ct_heap := h\<rparr>)))))"

text \<open>The destructor's loop erases through the iterator and increments what \<open>erase\<close> returned:
  the element after the erased one is stepped over, and after the last one the iterator is
  \<open>end()\<close> when it is incremented.\<close>

fun ct_destroy_loop :: "addr list \<Rightarrow> control \<Rightarrow> control result" where
  "ct_destroy_loop [] s = Inr s"
| "ct_destroy_loop [a] s = bindR (ct_deleteServer a s) (\<lambda>_. Inl (UB BadIterator))"
| "ct_destroy_loop (a # b # as) s =
     bindR (ct_deleteServer a s)
       (\<lambda>s1. ct_destroy_loop as (s1\<lparr>ct_servers := remove1 a (ct_servers s1)\<rparr>))"

definition ct_destroy :: "control \<Rightarrow> control result" where
  "ct_destroy s = ct_destroy_loop (ct_servers s) s"

section \<open>The main program\<close>

text \<open>The number of game servers from the command line (\<open>atoi\<close> of the argument when there is
  one), then the number the address table has. \<open>None\<close>: the program returns.\<close>

definition ct_main_argument :: "int option \<Rightarrow> int option" where
  "ct_main_argument arg =
     (case arg of None \<Rightarrow> Some DEF_GAME_SERVERS
      | Some aux \<Rightarrow> if aux < 1 then None
          else if aux \<le> MAX_GAME_SERVERS then Some aux else Some MAX_GAME_SERVERS)"

definition ct_main_database :: "address_row list \<Rightarrow> int \<Rightarrow> int" where
  "ct_main_database rows n =
     (let aux = int (length (filter (\<lambda>r. ar_type r = TYPE_GAME_SERVER) rows)) in
      if aux < n then aux else n)"

text \<open>\<open>shift\<close> is computed modulo \<open>2 ^ 32\<close>; shifting a 32 bit value by 32 or more is undefined.\<close>

definition ct_main_mask :: "control \<Rightarrow> control result" where
  "ct_main_mask s =
     (let shift = (32 - ct_numberServers s) mod 2 ^ 32 in
      if 32 \<le> shift then Inl (UB BadShift)
      else Inr (s\<lparr>ct_mask := drop_bit (nat shift) (not 0)\<rparr>))"

definition ct_main_loginOnline :: "control \<Rightarrow> control result" where
  "ct_main_loginOnline s = ct_sendTo (ct_loginConnection s) LoginOnlineSend s"

definition ct_main_requestLoads :: "(gcid \<Rightarrow> bool) \<Rightarrow> control \<Rightarrow> control result" where
  "ct_main_requestLoads online s =
     foldR (\<lambda>s a. bindR (ct_get a s) (\<lambda>v.
       if cs_isUp online v
       then ct_sendTo (cs_c v) ServerLoadSend (ct_put a (v\<lparr>cs_totalLoad := Fin 0\<rparr>) s)
       else Inr s)) (ct_servers s) s"

text \<open>Between the request and the sort the answers come in (\<open>Control_Handlers\<close>), until the mask
  is empty or the alarm rings.\<close>

definition ct_main_rebalance :: "(addr \<Rightarrow> nat) \<Rightarrow> control \<Rightarrow> control result" where
  "ct_main_rebalance place s = bindR (ct_sortByLoad s) (ct_balance place)"

end
