(* ===== verification/Control_Assign.thy ===== *)
theory Control_Assign
  imports Control_Setup
begin

text \<open>
  The first assignment of the zones: who gets which zone when every server is up, and what
  happens when none is.
\<close>

lemma cs_isUp_update [simp]:
  "cs_isUp online (v\<lparr>cs_distribution := d, cs_totalLoad := t\<rparr>) = cs_isUp online v"
  by (simp add: cs_isUp_def)

lemma ct_put_frame [simp]:
  "ct_servers (ct_put a v s) = ct_servers s" "ct_zoneServer (ct_put a v s) = ct_zoneServer s"
  "ct_events (ct_put a v s) = ct_events s" "ct_heap (ct_put a v s) = st_put a v (ct_heap s)"
  "ct_mask (ct_put a v s) = ct_mask s" "ct_numberServers (ct_put a v s) = ct_numberServers s"
  "ct_routerConnection (ct_put a v s) = ct_routerConnection s"
  by (simp_all add: ct_put_def)

text \<open>What giving a zone to a server that is up does.\<close>

definition given :: "cserver \<Rightarrow> nat \<Rightarrow> cserver" where
  "given v z = v\<lparr>cs_distribution := cs_distribution v @ [\<lparr>zl_zone = int z, zl_load = Fin 0\<rparr>],
     cs_totalLoad := Fin 0\<rparr>"

definition order_zone :: "cserver \<Rightarrow> nat \<Rightarrow> control_event" where
  "order_zone v z = CSend (the (cs_c v)) (SetZoneToServerSend (int z) (cs_id v))"

definition give :: "addr \<Rightarrow> cserver \<Rightarrow> nat \<Rightarrow> control \<Rightarrow> control" where
  "give a v z s = ct_put a (given v z)
     ((ct_emit [order_zone v z] s)\<lparr>ct_zoneServer := (ct_zoneServer s)[z := Some a]\<rparr>)"

lemma given_simps [simp]:
  "cs_isUp online (given v z) = cs_isUp online v" "order_zone (given v z) y = order_zone v y"
  by (simp_all add: given_def order_zone_def)

lemma give_frame [simp]:
  "ct_servers (give a v z s) = ct_servers s"
  "ct_zoneServer (give a v z s) = (ct_zoneServer s)[z := Some a]"
  "ct_events (give a v z s) = ct_events s @ [order_zone v z]"
  "ct_heap (give a v z s) = st_put a (given v z) (ct_heap s)"
  by (simp_all add: give_def)

lemma ct_giveZone_up:
  assumes "cs_isUp online v" and "z < 4"
  shows "ct_giveZone (int z) a v s = Inr (give a v z s)"
proof -
  obtain c where "cs_c v = Some c" using assms(1) by (auto simp: cs_isUp_def split: option.splits)
  with assms(2) show ?thesis
    by (simp add: ct_giveZone_def ct_sendTo_def ct_setZoneServer_def NZONES_def give_def given_def
        order_zone_def)
qed

lemma assign_front_step:
  assumes "st_look (ct_heap s) a = Some v" and "cs_isUp online v" and "z < 4"
  shows "ct_assign_front online a z (s, zr) = Inr (give a v z s, zr - 1)"
  using assms by (simp add: ct_assign_front_def ct_get_live ct_giveZone_up)

lemma assign_pass_step:
  assumes "st_look (ct_heap s) a = Some v" and "cs_isUp online v" and "z < 4"
  shows "ct_assign_pass online (a # as) s (int z) zr =
    (if z = 3 then Inr (give a v z s, 4, zr, True)
     else ct_assign_pass online as (give a v z s) (int (Suc z)) (zr - 1))"
  using assms by (auto simp: ct_get_live ct_giveZone_up NZONES_def add.commute)

declare ct_assign_pass.simps(2) [simp del]

text \<open>The server, by its place in the list, that gets zone \<open>z\<close> of 4 when there are \<open>n\<close>.\<close>

definition zone_owner :: "nat \<Rightarrow> nat \<Rightarrow> nat" where
  "zone_owner n z = (if z < 4 mod n then 0 else (z - 4 mod n) mod n)"

definition live_up :: "(gcid \<Rightarrow> bool) \<Rightarrow> control \<Rightarrow> bool" where
  "live_up online s \<longleftrightarrow> (\<forall>a\<in>set (ct_servers s). \<exists>v. st_look (ct_heap s) a = Some v \<and> cs_isUp online v)"

definition assigned :: "control \<Rightarrow> control \<Rightarrow> bool" where
  "assigned s s' \<longleftrightarrow> ct_servers s' = ct_servers s \<and>
     (\<forall>z<4. ct_zoneServer s' ! z = Some (ct_servers s ! zone_owner (length (ct_servers s)) z)) \<and>
     ct_events s' = ct_events s @ map (\<lambda>z. order_zone
       (the (st_look (ct_heap s) (ct_servers s ! zone_owner (length (ct_servers s)) z))) z) [0..<4]"

lemma upt_simps: "[0..<0] = []" "[0..<Suc 0] = [0]" "[0..<4] = [0, 1, 2, 3 :: nat]"
  by (simp_all add: numeral_eq_Suc)

lemma less4: "z < 4 \<longleftrightarrow> z = 0 \<or> z = 1 \<or> z = 2 \<or> z = (3 :: nat)"
  by auto

lemma assign_many:
  assumes s: "ct_servers s = a # as" "length (ct_servers s) = n" "4 < n" "length (ct_zoneServer s) = 4"
    and n: "ct_numberServers s = int n" and up: "live_up online s"
  shows "\<exists>s'. ct_zoneAssignment online fuel s = Ret s' \<and> assigned s s'"
proof -
  from up s obtain v where v: "st_look (ct_heap s) a = Some v" "cs_isUp online v"
    by (auto simp: live_up_def)
  have m: "4 mod int n = 4" "4 mod n = 4" using s(3) by simp_all
  let ?s = "give a (given (given (given v 0) 1) 2) 3 (give a (given (given v 0) 1) 2
    (give a (given v 0) 1 (give a v 0 s)))"
  have "ct_zoneAssignment online fuel s = Ret ?s"
    using s n m v
    by (simp add: ct_zoneAssignment_def NZONES_def upt_simps assign_front_step ct_assign_loop.simps)
  moreover have "assigned s ?s"
    using s m v by (simp add: assigned_def zone_owner_def less4 upt_simps nth_list_update)
  ultimately show ?thesis by blast
qed

lemma ct_assign_loop_Suc:
  "0 < zr \<Longrightarrow> ct_assign_loop online (Suc k) s zi zr =
     bindIO (lift_result (ct_assign_pass online (ct_servers s) s zi zr))
       (\<lambda>(s', zi, zr, returned). if returned then Ret s' else ct_assign_loop online k s' zi zr)"
  by (subst ct_assign_loop.simps) simp

lemmas assign_step0 = assign_pass_step [of _ _ _ _ 0, simplified]
lemmas assign_step1 = assign_pass_step [of _ _ _ _ "Suc 0", simplified]
lemmas assign_step2 = assign_pass_step [of _ _ _ _ 2, simplified]
lemmas assign_step3 = assign_pass_step [of _ _ _ _ 3, simplified]
lemmas assign_steps = assign_step0 assign_step1 assign_step2 assign_step3 ct_assign_loop_Suc

lemma zone_owner_simps:
  "zone_owner (Suc (Suc 0)) 0 = 0"
  "zone_owner (Suc (Suc 0)) (Suc 0) = 1"
  "zone_owner (Suc (Suc 0)) 2 = 0"
  "zone_owner (Suc (Suc 0)) 3 = 1"
  "zone_owner (Suc (Suc (Suc 0))) 0 = 0"
  "zone_owner (Suc (Suc (Suc 0))) (Suc 0) = 0"
  "zone_owner (Suc (Suc (Suc 0))) 2 = 1"
  "zone_owner (Suc (Suc (Suc 0))) 3 = 2"
  "zone_owner (Suc (Suc (Suc (Suc 0)))) 0 = 0"
  "zone_owner (Suc (Suc (Suc (Suc 0)))) (Suc 0) = 1"
  "zone_owner (Suc (Suc (Suc (Suc 0)))) 2 = 2"
  "zone_owner (Suc (Suc (Suc (Suc 0)))) 3 = 3"
  by code_simp+

lemma assign_1:
  assumes s: "ct_servers s = [a]" "length (ct_zoneServer s) = 4"
    and n: "ct_numberServers s = 1" and up: "live_up online s"
  shows "\<exists>s'. ct_zoneAssignment online (Suc (Suc (Suc (Suc k)))) s = Ret s' \<and> assigned s s'"
proof -
  from up s obtain v where v: "st_look (ct_heap s) a = Some v" "cs_isUp online v"
    by (auto simp: live_up_def)
  let ?s = "give a (given (given (given v 0) 1) 2) 3 (give a (given (given v 0) 1) 2
    (give a (given v 0) 1 (give a v 0 s)))"
  have "ct_zoneAssignment online (Suc (Suc (Suc (Suc k)))) s = Ret ?s"
    using s n v by (simp add: ct_zoneAssignment_def NZONES_def assign_steps)
  moreover have "assigned s ?s"
    using s v by (simp add: assigned_def zone_owner_def less4 upt_simps nth_list_update)
  ultimately show ?thesis by blast
qed

lemma assign_2:
  assumes s: "ct_servers s = [a, b]" "a \<noteq> b" "length (ct_zoneServer s) = 4"
    and n: "ct_numberServers s = 2" and up: "live_up online s"
  shows "\<exists>s'. ct_zoneAssignment online (Suc (Suc (Suc (Suc k)))) s = Ret s' \<and> assigned s s'"
proof -
  from up s obtain v w where v: "st_look (ct_heap s) a = Some v" "cs_isUp online v"
    "st_look (ct_heap s) b = Some w" "cs_isUp online w"
    by (auto simp: live_up_def)
  let ?s = "give b (given w 1) 3 (give a (given v 0) 2 (give b w 1 (give a v 0 s)))"
  have "ct_zoneAssignment online (Suc (Suc (Suc (Suc k)))) s = Ret ?s"
    using s n v by (simp add: ct_zoneAssignment_def NZONES_def assign_steps)
  moreover have "assigned s ?s"
    using s v by (simp add: assigned_def zone_owner_simps less4 upt_simps nth_list_update)
  ultimately show ?thesis by blast
qed

lemma assign_3:
  assumes s: "ct_servers s = [a, b, c]" "distinct [a, b, c]" "length (ct_zoneServer s) = 4"
    and n: "ct_numberServers s = 3" and up: "live_up online s"
  shows "\<exists>s'. ct_zoneAssignment online (Suc (Suc (Suc (Suc k)))) s = Ret s' \<and> assigned s s'"
proof -
  from up s obtain v w x where v: "st_look (ct_heap s) a = Some v" "cs_isUp online v"
    "st_look (ct_heap s) b = Some w" "cs_isUp online w"
    "st_look (ct_heap s) c = Some x" "cs_isUp online x"
    by (auto simp: live_up_def)
  let ?s = "give c x 3 (give b w 2 (give a (given v 0) 1 (give a v 0 s)))"
  have "ct_zoneAssignment online (Suc (Suc (Suc (Suc k)))) s = Ret ?s"
    using s n v by (simp add: ct_zoneAssignment_def NZONES_def upt_simps assign_front_step assign_steps)
  moreover have "assigned s ?s"
    using s v by (simp add: assigned_def zone_owner_simps less4 upt_simps nth_list_update)
  ultimately show ?thesis by blast
qed

lemma assign_4:
  assumes s: "ct_servers s = [a, b, c, d]" "distinct [a, b, c, d]" "length (ct_zoneServer s) = 4"
    and n: "ct_numberServers s = 4" and up: "live_up online s"
  shows "\<exists>s'. ct_zoneAssignment online (Suc (Suc (Suc (Suc k)))) s = Ret s' \<and> assigned s s'"
proof -
  from up s obtain v w x y where v: "st_look (ct_heap s) a = Some v" "cs_isUp online v"
    "st_look (ct_heap s) b = Some w" "cs_isUp online w"
    "st_look (ct_heap s) c = Some x" "cs_isUp online x"
    "st_look (ct_heap s) d = Some y" "cs_isUp online y"
    by (auto simp: live_up_def)
  let ?s = "give d y 3 (give c x 2 (give b w 1 (give a v 0 s)))"
  have "ct_zoneAssignment online (Suc (Suc (Suc (Suc k)))) s = Ret ?s"
    using s n v by (simp add: ct_zoneAssignment_def NZONES_def assign_steps)
  moreover have "assigned s ?s"
    using s v by (simp add: assigned_def zone_owner_simps less4 upt_simps nth_list_update)
  ultimately show ?thesis by blast
qed

section \<open>No server up\<close>

lemma assign_pass_down:
  "\<forall>a\<in>set as. \<exists>v. st_look (ct_heap s) a = Some v \<and> \<not> cs_isUp online v \<Longrightarrow>
   ct_assign_pass online as s zi zr = Inr (s, zi, zr, False)"
  by (induction as) (auto simp: ct_assign_pass.simps(2) ct_get_live)

lemma assign_loop_down:
  "\<forall>a\<in>set (ct_servers s). \<exists>v. st_look (ct_heap s) a = Some v \<and> \<not> cs_isUp online v \<Longrightarrow> 0 < zr \<Longrightarrow>
   ct_assign_loop online fuel s zi zr = Pending"
proof (induction fuel)
  case 0
  then show ?case by (simp add: ct_assign_loop.simps)
next
  case (Suc k)
  then show ?case by (simp add: ct_assign_loop_Suc assign_pass_down)
qed

lemma assign_front_down:
  "st_look (ct_heap s) a = Some v \<Longrightarrow> \<not> cs_isUp online v \<Longrightarrow>
   foldR (\<lambda>sr i. ct_assign_front online a i sr) is (s, zr) = Inr (s, zr)"
  by (induction "is") (auto simp: ct_assign_front_def ct_get_live)

section \<open>Properties\<close>

lemma assignment_deals:
  assumes "ct_numberServers s = int (length (ct_servers s))" and "ct_servers s \<noteq> []"
    and "distinct (ct_servers s)" and "length (ct_zoneServer s) = 4" and "live_up online s"
  shows "\<exists>s'. ct_zoneAssignment online (4 + k) s = Ret s' \<and> assigned s s'"
proof -
  have fuel: "4 + k = Suc (Suc (Suc (Suc k)))" by simp
  from assms(2) obtain a as where as: "ct_servers s = a # as" by (cases "ct_servers s") auto
  consider "as = []" | b where "as = [b]" | b c where "as = [b, c]" | b c d where "as = [b, c, d]"
    | "4 < length (ct_servers s)"
    using as by (cases as rule: remdups_adj.cases; cases "tl (tl as)"; cases "tl (tl (tl as))") auto
  then show ?thesis
  proof cases
    case 1
    then show ?thesis using assign_1 [of s a online k] assms as by (simp add: fuel)
  next
    case (2 b)
    then show ?thesis using assign_2 [of s a b online k] assms as by (simp add: fuel)
  next
    case (3 b c)
    then show ?thesis using assign_3 [of s a b c online k] assms as by (simp add: fuel)
  next
    case (4 b c d)
    then show ?thesis using assign_4 [of s a b c d online k] assms as by (simp add: fuel)
  next
    case 5
    then show ?thesis using assign_many [OF as refl _ assms(4) _ assms(5)] assms(1) by simp
  qed
qed

text \<open>C23. The first assignment: when every game server of the list is up, \<open>zoneAssignment\<close>
  returns, every one of the four zones is given to exactly one server and that server alone
  is told so, in zone order: the \<open>4 mod n\<close> left-over zones go to the front server and the rest
  is dealt round robin. With more servers than zones the front server gets all four. Four
  runs through the list are enough.\<close>

theorem zoneAssignment_deals_zones:
  assumes "ct_numberServers s = int (length (ct_servers s))" and "ct_servers s \<noteq> []"
    and "distinct (ct_servers s)" and "length (ct_zoneServer s) = 4" and "live_up online s"
  shows "\<exists>s'. ct_zoneAssignment online (4 + k) s = Ret s' \<and> assigned s s'"
  using assignment_deals [OF assms] .

definition ex_rows :: "address_row list" where
  "ex_rows = [\<lparr>ar_ip = ''10.0.0.1'', ar_port = ''3000'', ar_type = ''game''\<rparr>,
     \<lparr>ar_ip = ''10.0.0.2'', ar_port = ''3000'', ar_type = ''game''\<rparr>,
     \<lparr>ar_ip = ''10.0.0.3'', ar_port = ''3001'', ar_type = ''login''\<rparr>,
     \<lparr>ar_ip = ''10.0.0.4'', ar_port = ''3002'', ar_type = ''router''\<rparr>]"

definition ex_started :: control where
  "ex_started = (case ct_initializeConnectionsAndServerList ex_rows (\<lambda>_. True) (\<lambda>_. Fin 0)
     (control_new\<lparr>ct_numberServers := 2\<rparr>) of Inr s \<Rightarrow> s | Inl _ \<Rightarrow> control_new)"

lemma ex_started_value:
  "ct_numberServers ex_started = 2" "ct_servers ex_started = [0, 1]"
  "ct_zoneServer ex_started = [None, None, None, None]"
  "st_look (ct_heap ex_started) 0 = Some ((cserver_new 0 (Some ''10.0.0.1'') (Some ''3000'') (Some 0) (Fin 0)))"
  "st_look (ct_heap ex_started) 1 = Some ((cserver_new 1 (Some ''10.0.0.2'') (Some ''3000'') (Some 1) (Fin 0)))"
  "ct_events ex_started = []" "ct_routerConnection ex_started = Some 3" "ct_mask ex_started = 0"
  "ct_ipServers ex_started = [Some ''10.0.0.1'', Some ''10.0.0.2'']"
  unfolding ex_started_def by code_simp+

theorem zoneAssignment_deals_zones_witness:
  "\<exists>s'. ct_zoneAssignment (\<lambda>_. True) 4 ex_started = Ret s' \<and> ct_zoneServer s' ! 3 = Some 1"
proof -
  have up: "live_up (\<lambda>_. True) ex_started"
    using ex_started_value by (auto simp: live_up_def cserver_new_def cs_isUp_def)
  have "ct_numberServers ex_started = int (length (ct_servers ex_started))" "ct_servers ex_started \<noteq> []"
    "distinct (ct_servers ex_started)" "length (ct_zoneServer ex_started) = 4"
    using ex_started_value by simp_all
  from zoneAssignment_deals_zones [OF this up, of 0] obtain s'
    where s': "ct_zoneAssignment (\<lambda>_. True) 4 ex_started = Ret s'" and a: "assigned ex_started s'" by auto
  have "zone_owner 2 3 = 1" by code_simp
  with a have "ct_zoneServer s' ! 3 = Some 1"
    using ex_started_value(2) by (simp add: assigned_def numeral_2_eq_2)
  with s' show ?thesis by blast
qed

text \<open>C36. The assignment with nobody to assign to: when no game server could be connected the
  program divides by zero, and when every connected server's link is down it loops for ever,
  however long one waits.\<close>

theorem zoneAssignment_without_servers:
  "(ct_numberServers s = 0 \<longrightarrow> ct_zoneAssignment online fuel s = Fails (UB DivByZero)) \<and>
   (ct_numberServers s \<noteq> 0 \<and> ct_servers s \<noteq> [] \<and>
      (\<forall>a\<in>set (ct_servers s). \<exists>v. st_look (ct_heap s) a = Some v \<and> \<not> cs_isUp online v) \<longrightarrow>
    ct_zoneAssignment online fuel s = Pending)"
proof (intro conjI impI; (elim conjE)?)
  assume n: "ct_numberServers s \<noteq> 0" and ne: "ct_servers s \<noteq> []"
    and down: "\<forall>a\<in>set (ct_servers s). \<exists>v. st_look (ct_heap s) a = Some v \<and> \<not> cs_isUp online v"
  from ne down obtain v where "st_look (ct_heap s) (hd (ct_servers s)) = Some v" "\<not> cs_isUp online v"
    by (meson list.set_sel(1))
  from assign_front_down [OF this] assign_loop_down [OF down] n ne
  show "ct_zoneAssignment online fuel s = Pending"
    by (simp add: ct_zoneAssignment_def NZONES_def)
qed (simp add: ct_zoneAssignment_def)

theorem zoneAssignment_without_servers_witness:
  "ct_zoneAssignment (\<lambda>_. False) 100 ex_started = Pending"
  by (rule zoneAssignment_without_servers [THEN conjunct2, THEN mp])
     (use ex_started_value in \<open>auto simp: cserver_new_def cs_isUp_def\<close>)

section \<open>Addresses, mask and destruction\<close>

lemma ct_fill_row_fault: "ct_fill_row r js = Inl e \<Longrightarrow> e = UB OutOfBounds"
  by (cases js) (auto simp: ct_fill_row_def strcpy_into_def bindR_eq_Inl split: if_splits)

lemma ct_fill_rows_fault:
  assumes "r \<in> set rows" and "\<And>js. ct_fill_row r js = Inl (UB OutOfBounds)"
  shows "foldR (\<lambda>js r. ct_fill_row r js) rows js = Inl (UB OutOfBounds)"
  using assms
proof (induction rows arbitrary: js)
  case (Cons q rows)
  show ?case
  proof (cases "ct_fill_row q js")
    case (Inl e)
    then show ?thesis using ct_fill_row_fault by fastforce
  next
    case (Inr js')
    with Cons.prems(2) [of js] have "r \<noteq> q" by auto
    with Cons.prems(1) have "r \<in> set rows" by simp
    with Inr Cons show ?thesis by simp
  qed
qed simp

text \<open>C37. Ports of five digits do not fit: when the address table has a router or login row whose
  port takes five characters or more, filling the tables writes past the five byte buffer,
  which also has to hold the terminator.\<close>

theorem five_digit_port_overflows:
  assumes "r \<in> set rows" and "ar_type r = TYPE_ROUTER_SERVER \<or> ar_type r = TYPE_LOGIN_SERVER"
    and "PORTLENGTH \<le> length (ar_port r)"
  shows "ct_fillIpServerTable rows s = Inl (UB OutOfBounds)"
proof -
  have "ct_fill_row r js = Inl (UB OutOfBounds)" for js
    using assms(2,3)
    by (cases js) (auto simp: ct_fill_row_def TYPE_GAME_SERVER_def TYPE_ROUTER_SERVER_def
      TYPE_LOGIN_SERVER_def strcpy_into_def bindR_def split: if_splits)
  from ct_fill_rows_fault [OF assms(1) this] show ?thesis
    by (simp add: ct_fillIpServerTable_def Let_def)
qed

theorem five_digit_port_overflows_witness:
  "ct_fillIpServerTable [\<lparr>ar_ip = ''10.0.0.4'', ar_port = ''30002'', ar_type = ''router''\<rparr>] control_new
     = Inl (UB OutOfBounds)"
  by (rule five_digit_port_overflows [of "\<lparr>ar_ip = ''10.0.0.4'', ar_port = ''30002'', ar_type = ''router''\<rparr>"])
     (simp_all add: TYPE_ROUTER_SERVER_def PORTLENGTH_def)

text \<open>The mask of awaited answers: for 1 to 32 connected game servers exactly the lowest bits,
  one per server, are set; with no server, and with 33 to 50 (which the command line allows),
  the shift count is out of range.\<close>

lemma main_mask_bits:
  "(1 \<le> ct_numberServers s \<and> ct_numberServers s \<le> 32 \<longrightarrow>
     (\<exists>s'. ct_main_mask s = Inr s' \<and>
       (\<forall>i. bit (ct_mask s') i \<longleftrightarrow> int i < ct_numberServers s))) \<and>
   (ct_numberServers s = 0 \<or> 32 < ct_numberServers s \<and> ct_numberServers s \<le> MAX_GAME_SERVERS \<longrightarrow>
     ct_main_mask s = Inl (UB BadShift))"
proof (intro conjI impI)
  assume n: "1 \<le> ct_numberServers s \<and> ct_numberServers s \<le> 32"
  define m where "m = (drop_bit (nat (32 - ct_numberServers s)) (not 0) :: 32 word)"
  have "bit m i \<longleftrightarrow> int i < ct_numberServers s" for i
    using n unfolding m_def bit_drop_bit_eq by (auto simp: bit_not_iff nat_less_iff)
  moreover have "ct_main_mask s = Inr (s\<lparr>ct_mask := m\<rparr>)"
    using n by (simp add: ct_main_mask_def m_def)
  ultimately show "\<exists>s'. ct_main_mask s = Inr s' \<and> (\<forall>i. bit (ct_mask s') i \<longleftrightarrow> int i < ct_numberServers s)"
    by simp
next
  assume "ct_numberServers s = 0 \<or> 32 < ct_numberServers s \<and> ct_numberServers s \<le> MAX_GAME_SERVERS"
  then have "32 \<le> (32 - ct_numberServers s) mod 2 ^ 32"
  proof
    assume "32 < ct_numberServers s \<and> ct_numberServers s \<le> MAX_GAME_SERVERS"
    then have "(32 - ct_numberServers s + 2 ^ 32) mod 2 ^ 32 = 32 - ct_numberServers s + 2 ^ 32"
      by (intro mod_pos_pos_trivial) (simp_all add: MAX_GAME_SERVERS_def)
    then have "(32 - ct_numberServers s) mod 2 ^ 32 = 32 - ct_numberServers s + 2 ^ 32"
      by (simp only: mod_add_self2)
    with \<open>32 < ct_numberServers s \<and> ct_numberServers s \<le> MAX_GAME_SERVERS\<close> show ?thesis
      by (simp add: MAX_GAME_SERVERS_def)
  qed simp
  then show "ct_main_mask s = Inl (UB BadShift)" by (simp add: ct_main_mask_def)
qed

lemma main_mask_bits_example:
  "\<exists>s'. ct_main_mask ex_started = Inr s' \<and> bit (ct_mask s') 1 \<and> \<not> bit (ct_mask s') 2"
  using main_mask_bits [of ex_started] ex_started_value(1) by auto

end
