(* ===== verification/Control_Handlers.thy ===== *)
theory Control_Handlers
  imports Control_Assign
begin

text \<open>
  The instructions the control server receives (servcontrol/src/ServerLoad.cpp, IPServer.cpp,
  NewUser.cpp, DisconnectUser.cpp, with their headers), the constructor of its answer
  \<open>IPServerSend\<close>, the query of \<open>Control::getZoneDB\<close> and the numbering of ControlProfile.cpp.
  The database is an argument: what a query's result holds in its first column, or nothing
  when the query fails. Debug output is left out.
\<close>

unbundle bit_operations_syntax

section \<open>Classes and numbers\<close>

datatype control_inst =
  ServerLoadRcvd int int dbl int
| IPServerRcvd int
| NewUserRcvd int int
| DisconnectUserRcvd int

definition ccls :: "string \<Rightarrow> ftype list \<Rightarrow> bool \<Rightarrow> dclass" where
  "ccls n fs e = \<lparr>dc_name = n, dc_fields = fs, dc_exec = e\<rparr>"

definition cls_ServerLoadRcvd :: dclass where
  "cls_ServerLoadRcvd = ccls ''ServerLoadRcvd'' [FInt, FInt, FDouble, FInt] True"

definition cls_IPServerRcvd :: dclass where
  "cls_IPServerRcvd = ccls ''IPServerRcvd'' [FInt] True"

definition cls_NewUserRcvd :: dclass where
  "cls_NewUserRcvd = ccls ''NewUserRcvd'' [FInt, FInt] True"

definition cls_DisconnectUserRcvd :: dclass where
  "cls_DisconnectUserRcvd = ccls ''DisconnectUserRcvd'' [FInt] True"

definition ControlProfile :: profile where
  "ControlProfile = \<lparr>
     pf_creators = [(0, cls_ServerLoadRcvd), (1, cls_IPServerRcvd), (50, cls_NewUserRcvd),
       (52, cls_DisconnectUserRcvd)],
     pf_ids = [(''ServerLoadSend'', 2), (''RemoveZoneSend'', 3), (''GetZoneSend'', 4),
       (''IPServerSend'', 6), (''SetZoneToServerSend'', 7), (''GameNewUserSend'', 8),
       (''GameDeleteUserSend'', 9), (''LoginOnlineSend'', 51), (''RouterChangeZoneSend'', 5),
       (''RouterNewUserSend'', 60), (''RouterDeleteUserSend'', 61)]\<rparr>"

text \<open>The destructor deletes the creators and empties the vector before the base class's
  destructor walks it.\<close>

definition ControlProfile_destroy :: "profile \<Rightarrow> dclass list" where
  "ControlProfile_destroy p = map snd (pf_creators p) @ profile_destroy (p\<lparr>pf_creators := []\<rparr>)"

text \<open>The object a sent message is, as name and field values; \<open>ri\<close> and \<open>rb\<close> are what an
  uninitialised \<open>int\<close> and \<open>char\<close> happen to hold.\<close>

fun control_wire :: "32 word \<Rightarrow> byte \<Rightarrow> control_msg \<Rightarrow> string \<times> fval list" where
  "control_wire ri rb ServerLoadSend = (''ServerLoadSend'', [])"
| "control_wire ri rb (RemoveZoneSend z) = (''RemoveZoneSend'', [VInt (word_of_int z)])"
| "control_wire ri rb (GetZoneSend z s) = (''GetZoneSend'', [VInt (word_of_int z), VInt (word_of_int s)])"
| "control_wire ri rb (RouterChangeZoneSend z s d) = (''RouterChangeZoneSend'',
     [VInt (word_of_int z), VInt (word_of_int s), VInt (word_of_int d)])"
| "control_wire ri rb (SetZoneToServerSend z s) = (''SetZoneToServerSend'',
     [VInt (word_of_int z), VInt (word_of_int s)])"
| "control_wire ri rb (GameNewUserSend u z) = (''GameNewUserSend'', [VInt (word_of_int u), VInt (word_of_int z)])"
| "control_wire ri rb (RouterNewUserSend u t z) = (''RouterNewUserSend'',
     [VInt (word_of_int u), VInt (word_of_int t), VInt (word_of_int z)])"
| "control_wire ri rb (RouterDeleteUserSend u) = (''RouterDeleteUserSend'', [VInt (word_of_int u)])"
| "control_wire ri rb LoginOnlineSend = (''LoginOnlineSend'', [])"
| "control_wire ri rb (IPServerSend i ip port) = (''IPServerSend'',
     [VInt (case i of None \<Rightarrow> ri | Some j \<Rightarrow> word_of_int j),
      VChars (map (\<lambda>b. case b of None \<Rightarrow> rb | Some c \<Rightarrow> c) ip),
      VChars (map (\<lambda>b. case b of None \<Rightarrow> rb | Some c \<Rightarrow> c) port)])"

text \<open>The value of a \<open>double\<close>'s 64 bits.\<close>

definition dbl_of_bits :: "64 word \<Rightarrow> dbl" where
  "dbl_of_bits w =
     (let e = uint (drop_bit 52 w) mod 2048; m = uint w mod 2 ^ 52;
          sg = (if bit w 63 then -1 else 1 :: rat) in
      if e = 2047 then (if m \<noteq> 0 then NaN else if bit w 63 then NInf else PInf)
      else if e = 0 then Fin (sg * of_int m * 2 powi (-1074))
      else Fin (sg * of_int (2 ^ 52 + m) * 2 powi (e - 1075)))"

fun control_inst_of :: "string \<Rightarrow> fval list \<Rightarrow> control_inst option" where
  "control_inst_of n [VInt s, VInt z, VDouble l, VInt r] =
     (if n = ''ServerLoadRcvd'' then Some (ServerLoadRcvd (sint s) (sint z) (dbl_of_bits l) (sint r))
      else None)"
| "control_inst_of n [VInt a, VInt b] =
     (if n = ''NewUserRcvd'' then Some (NewUserRcvd (sint a) (sint b)) else None)"
| "control_inst_of n [VInt a] =
     (if n = ''IPServerRcvd'' then Some (IPServerRcvd (sint a))
      else if n = ''DisconnectUserRcvd'' then Some (DisconnectUserRcvd (sint a)) else None)"
| "control_inst_of n _ = None"

section \<open>Loads\<close>

text \<open>Every entry of the zone takes the load, and the server's total grows with each.\<close>

definition cs_report :: "int \<Rightarrow> dbl \<Rightarrow> cserver \<Rightarrow> cserver" where
  "cs_report idZone zoneLoad v = v\<lparr>
     cs_distribution := map (\<lambda>z. if zl_zone z = idZone then z\<lparr>zl_load := zoneLoad\<rparr> else z) (cs_distribution v),
     cs_totalLoad := foldl (\<lambda>t z. if zl_zone z = idZone then dadd t zoneLoad else t) (cs_totalLoad v)
       (cs_distribution v)\<rparr>"

definition ct_clearBit :: "int \<Rightarrow> control \<Rightarrow> control result" where
  "ct_clearBit idServer s =
     (if idServer < 0 \<or> 32 \<le> idServer then Inl (UB BadShift)
      else Inr (s\<lparr>ct_mask := ct_mask s AND NOT (push_bit (nat idServer) 1)\<rparr>))"

fun ServerLoadRcvd_loop :: "int \<Rightarrow> int \<Rightarrow> dbl \<Rightarrow> int \<Rightarrow> addr list \<Rightarrow> control \<Rightarrow> control result" where
  "ServerLoadRcvd_loop idServer idZone zoneLoad remainingZones [] s = Inr s"
| "ServerLoadRcvd_loop idServer idZone zoneLoad remainingZones (a # as) s =
     bindR (ct_get a s) (\<lambda>v.
       if cs_id v = idServer then
         (let s1 = ct_put a (cs_report idZone zoneLoad v) s in
          if remainingZones = 0 then ct_clearBit idServer s1
          else ServerLoadRcvd_loop idServer idZone zoneLoad remainingZones as s1)
       else ServerLoadRcvd_loop idServer idZone zoneLoad remainingZones as s)"

definition ServerLoadRcvd_exec :: "int \<Rightarrow> int \<Rightarrow> dbl \<Rightarrow> int \<Rightarrow> control \<Rightarrow> control result" where
  "ServerLoadRcvd_exec idServer idZone zoneLoad remainingZones s =
     ServerLoadRcvd_loop idServer idZone zoneLoad remainingZones (ct_servers s) s"

section \<open>Addresses\<close>

text \<open>Copying characters up to and including the first zero; the flag says that it was met.\<close>

fun copy_chars :: "nat \<Rightarrow> byte list \<Rightarrow> byte option list \<times> bool" where
  "copy_chars 0 src = ([], False)"
| "copy_chars (Suc n) [] = (replicate (Suc n) None, False)"
| "copy_chars (Suc n) (b # bs) =
     (if b = 0 then (Some 0 # replicate n None, True)
      else (let (r, z) = copy_chars n bs in (Some b # r, z)))"

text \<open>The constructor returns at the terminator of the first text it copies.\<close>

definition IPServerSend_new :: "int \<Rightarrow> byte list \<Rightarrow> byte list \<Rightarrow> control_msg" where
  "IPServerSend_new i ip port =
     (let (ipSourceServer, stop) = copy_chars IPLENGTH ip in
      if stop then IPServerSend None ipSourceServer (replicate PORTLENGTH None)
      else (let (portSourceServer, stop2) = copy_chars PORTLENGTH port in
            if stop2 then IPServerSend None ipSourceServer portSourceServer
            else IPServerSend (Some i) ipSourceServer portSourceServer))"

definition IPServerRcvd_exec :: "int \<Rightarrow> gcid \<Rightarrow> control \<Rightarrow> control result" where
  "IPServerRcvd_exec idServer c s =
     bindR (ct_getIpServerById idServer s) (\<lambda>ipo.
     bindR (ofOption (UB UninitRead) ipo) (\<lambda>ip.
     bindR (ct_getPortServerById idServer s) (\<lambda>porto.
     bindR (ofOption (UB UninitRead) porto) (\<lambda>port.
       foldR (\<lambda>s a. bindR (ct_get a s) (\<lambda>v.
         if cs_id v = idServer
         then ct_answerTo (Some c) (IPServerSend_new (cs_id v) (map char_byte ip @ [0]) (map char_byte port @ [0])) s
         else Inr s)) (ct_servers s) s))))"

section \<open>Users\<close>

fun nat_digits :: "nat \<Rightarrow> string" where
  "nat_digits n = (if n < 10 then [char_of (48 + n)] else nat_digits (n div 10) @ [char_of (48 + n mod 10)])"

declare nat_digits.simps [simp del]

definition to_string :: "int \<Rightarrow> string" where
  "to_string i = (if i < 0 then ''-'' @ nat_digits (nat (- i)) else nat_digits (nat i))"

definition zone_query :: "int \<Rightarrow> string" where
  "zone_query idUsuari = ''select IDZONE from PLAYERS where IDUSER='' @ [CHR 0x27] @ to_string idUsuari @ [CHR 0x27]"

definition ct_getZoneDB :: "(string \<Rightarrow> int list option) \<Rightarrow> int \<Rightarrow> int result" where
  "ct_getZoneDB db idUsuari =
     (case db (zone_query idUsuari) of
        None \<Rightarrow> Inr (-1)
      | Some [] \<Rightarrow> Inl (UB OutOfBounds)
      | Some (z # _) \<Rightarrow> Inr z)"

definition NewUserRcvd_exec ::
    "(string \<Rightarrow> int list option) \<Rightarrow> int \<Rightarrow> int \<Rightarrow> gcid \<Rightarrow> control \<Rightarrow> control result" where
  "NewUserRcvd_exec db idUser token c s =
     bindR (ct_getZoneDB db idUser) (\<lambda>zone.
     bindR (ct_getZoneServer zone s) (\<lambda>p.
     bindR (ofOption (UB NullDeref) p) (\<lambda>a.
     bindR (ct_get a s) (\<lambda>gameServer.
     bindR (ct_answerTo (ct_routerConnection s) (RouterNewUserSend idUser token zone) s) (\<lambda>s1.
       ct_answerTo (cs_c gameServer) (GameNewUserSend idUser zone) s1)))))"

definition DisconnectUserRcvd_exec :: "int \<Rightarrow> gcid \<Rightarrow> control \<Rightarrow> control result" where
  "DisconnectUserRcvd_exec idUser c s =
     ct_answerTo (ct_routerConnection s) (RouterDeleteUserSend idUser) s"

fun control_exec ::
    "(string \<Rightarrow> int list option) \<Rightarrow> control_inst \<Rightarrow> gcid \<Rightarrow> control \<Rightarrow> control result" where
  "control_exec db (ServerLoadRcvd sv z l r) c s = ServerLoadRcvd_exec sv z l r s"
| "control_exec db (IPServerRcvd i) c s = IPServerRcvd_exec i c s"
| "control_exec db (NewUserRcvd u t) c s = NewUserRcvd_exec db u t c s"
| "control_exec db (DisconnectUserRcvd u) c s = DisconnectUserRcvd_exec u c s"

section \<open>The mask and the answers\<close>

lemma ct_clearBit_Inr:
  "ct_clearBit i s = Inr s' \<Longrightarrow> ct_servers s' = ct_servers s \<and> ct_heap s' = ct_heap s \<and> 0 \<le> i \<and> i < 32 \<and>
   (\<forall>j. bit (ct_mask s') j \<longleftrightarrow> bit (ct_mask s) j \<and> int j \<noteq> i)"
  using bit_imp_le_length [of "ct_mask s"]
  by (auto simp: ct_clearBit_def bit_and_iff bit_not_iff bit_exp_iff split: if_splits)

definition known_id :: "control \<Rightarrow> int \<Rightarrow> bool" where
  "known_id s i \<longleftrightarrow> (\<exists>a\<in>set (ct_servers s). \<exists>v. st_look (ct_heap s) a = Some v \<and> cs_id v = i)"

text \<open>A report keeps the ids of the servers.\<close>

lemma cs_report_id [simp]: "cs_id (cs_report z l v) = cs_id v"
  by (simp add: cs_report_def)

definition same_ids :: "control \<Rightarrow> control \<Rightarrow> bool" where
  "same_ids s s' \<longleftrightarrow> ct_servers s' = ct_servers s \<and>
     (\<forall>a. map_option cs_id (st_look (ct_heap s') a) = map_option cs_id (st_look (ct_heap s) a))"

lemma known_id_alt:
  "known_id s i \<longleftrightarrow> (\<exists>a\<in>set (ct_servers s). map_option cs_id (st_look (ct_heap s) a) = Some i)"
  by (auto simp: known_id_def)

lemma same_ids_known: "same_ids s s' \<Longrightarrow> known_id s' i = known_id s i"
  unfolding known_id_alt by (simp add: same_ids_def)

lemma same_ids_refl [simp]: "same_ids s s"
  by (simp add: same_ids_def)

lemma same_ids_trans: "same_ids s t \<Longrightarrow> same_ids t u \<Longrightarrow> same_ids s u"
  by (simp add: same_ids_def)

lemma same_ids_put: "st_look (ct_heap s) a = Some v \<Longrightarrow> cs_id w = cs_id v \<Longrightarrow> same_ids s (ct_put a w s)"
  by (simp add: same_ids_def)

lemma report_loop:
  assumes "ServerLoadRcvd_loop i z l r as s = Inr s'" and "set as \<subseteq> set (ct_servers s)"
  shows "same_ids s s' \<and> (\<forall>j. bit (ct_mask s') j \<longleftrightarrow> bit (ct_mask s) j \<and>
    \<not> (r = 0 \<and> int j = i \<and> (\<exists>a\<in>set as. \<exists>v. st_look (ct_heap s) a = Some v \<and> cs_id v = i)))"
  using assms
proof (induction i z l r as s rule: ServerLoadRcvd_loop.induct)
  case (1 i z l r s)
  then show ?case by simp
next
  case (2 i z l r a as s)
  then obtain v where v: "st_look (ct_heap s) a = Some v" by (auto simp: bindR_eq_Inr)
  let ?s1 = "ct_put a (cs_report z l v) s"
  show ?case
  proof (cases "cs_id v = i")
    case False
    with 2 v show ?thesis by (auto simp: ct_get_live)
  next
    case True
    have same: "same_ids s ?s1" using v by (rule same_ids_put) simp
    show ?thesis
    proof (cases "r = 0")
      case r: True
      with "2.prems"(1) v True have "ct_clearBit i ?s1 = Inr s'" by (simp add: ct_get_live)
      from ct_clearBit_Inr [OF this] same have "same_ids s s'" by (simp add: same_ids_def)
      with ct_clearBit_Inr [OF \<open>ct_clearBit i ?s1 = Inr s'\<close>] v True r show ?thesis by auto
    next
      case r: False
      with "2.prems"(1) v True have rest: "ServerLoadRcvd_loop i z l r as ?s1 = Inr s'"
        by (simp add: ct_get_live Let_def)
      have "same_ids ?s1 s' \<and> (\<forall>j. bit (ct_mask s') j = bit (ct_mask s) j)"
        using "2.IH"(1) [OF True refl r rest] "2.prems"(2) r by simp
      with same_ids_trans [OF same] r show ?thesis by simp
    qed
  qed
qed

lemma report_exec:
  assumes "ServerLoadRcvd_exec i z l r s = Inr s'"
  shows "same_ids s s' \<and> (\<forall>j. bit (ct_mask s') j \<longleftrightarrow> bit (ct_mask s) j \<and>
    \<not> (r = 0 \<and> int j = i \<and> known_id s i))"
  using report_loop [of i z l r "ct_servers s" s s'] assms
  by (simp add: ServerLoadRcvd_exec_def known_id_def)

type_synonym load_report = "int \<times> int \<times> dbl \<times> int"

definition receive_reports :: "load_report list \<Rightarrow> control \<Rightarrow> control result" where
  "receive_reports ms s = foldR (\<lambda>s (i, z, l, r). ServerLoadRcvd_exec i z l r s) ms s"

lemma receive_reports_bits:
  "receive_reports ms s = Inr s' \<Longrightarrow> same_ids s s' \<and>
   (\<forall>j. bit (ct_mask s') j \<longleftrightarrow> bit (ct_mask s) j \<and>
     \<not> (\<exists>z l. (int j, z, l, 0) \<in> set ms \<and> known_id s (int j)))"
proof (induction ms arbitrary: s)
  case Nil
  then show ?case by (simp add: receive_reports_def)
next
  case (Cons m ms)
  obtain i z l r where m: "m = (i, z, l, r)" by (cases m) auto
  with Cons.prems obtain s1 where s1: "ServerLoadRcvd_exec i z l r s = Inr s1"
    and rest: "receive_reports ms s1 = Inr s'"
    by (auto simp: receive_reports_def bindR_eq_Inr)
  from report_exec [OF s1] have same: "same_ids s s1"
    and b1: "\<And>j. bit (ct_mask s1) j \<longleftrightarrow> bit (ct_mask s) j \<and> \<not> (r = 0 \<and> int j = i \<and> known_id s i)"
    by simp_all
  from Cons.IH [OF rest] same_ids_known [OF same] b1 same_ids_trans [OF same] m show ?case by auto
qed

lemma copy_chars_stops:
  "0 \<notin> set bs \<Longrightarrow> length bs < n \<Longrightarrow>
   copy_chars n (bs @ [0]) = (map Some (bs @ [0]) @ replicate (n - Suc (length bs)) None, True)"
proof (induction bs arbitrary: n)
  case Nil
  then show ?case by (cases n) simp_all
next
  case (Cons b bs)
  then show ?case by (cases n) auto
qed

section \<open>Properties\<close>

lemma bits_of_3: "bit (3 :: 32 word) j \<longleftrightarrow> j < 2"
proof -
  have "(3 :: 32 word) = mask 2" by (simp add: mask_eq_exp_minus_1)
  then have "bit (3 :: 32 word) j \<longleftrightarrow> bit (mask 2 :: 32 word) j" by (rule arg_cong)
  then show ?thesis unfolding bit_mask_iff by auto
qed

text \<open>Waiting for the loads: started with the bits of the first \<open>n\<close> server ids, the mask is
  empty after a sequence of load reports exactly when every id below \<open>n\<close> is the id of a
  connected server and was the sender of a report that announced no further zones. One game
  server missing from the middle of the table (its id stays in the mask, because ids are
  table positions and the mask counts connected servers) keeps the mask from ever
  emptying.\<close>

lemma reports_empty_mask:
  assumes "receive_reports ms s = Inr s'" and "\<forall>j. bit (ct_mask s) j \<longleftrightarrow> j < n"
  shows "ct_mask s' = 0 \<longleftrightarrow>
    (\<forall>i<n. known_id s (int i) \<and> (\<exists>z l. (int i, z, l, 0) \<in> set ms))"
proof -
  have "ct_mask s' = 0 \<longleftrightarrow> (\<forall>j. \<not> bit (ct_mask s') j)"
    using bit_imp_le_length [of "ct_mask s'"] by (auto simp: bit_eq_iff)
  with receive_reports_bits [OF assms(1)] assms(2) show ?thesis by auto
qed

lemma reports_empty_mask_example:
  "\<exists>s'. receive_reports [(0, 0, Fin (1 / 2), 0), (1, 1, Fin 0, 0)] (ex_started\<lparr>ct_mask := 3\<rparr>) = Inr s' \<and>
    ct_mask s' = 0"
proof -
  let ?s = "ex_started\<lparr>ct_mask := 3\<rparr>" and ?ms = "[(0, 0, Fin (1 / 2), 0), (1, 1, Fin 0, 0)] :: load_report list"
  have "\<exists>s'. receive_reports ?ms ?s = Inr s'"
    using ex_started_value
    by (simp add: receive_reports_def ServerLoadRcvd_exec_def ct_get_live cserver_new_def
        cs_report_def ct_clearBit_def)
  then obtain s' where s': "receive_reports ?ms ?s = Inr s'" by blast
  have "known_id ?s 0 \<and> known_id ?s 1"
    using ex_started_value by (simp add: known_id_def cserver_new_def)
  then have "\<forall>i<2. known_id ?s (int i) \<and> (\<exists>z l. (int i, z, l, 0) \<in> set ?ms)"
    by (auto simp: less_2_cases_iff)
  with reports_empty_mask [OF s', of 2] bits_of_3 s' show ?thesis by simp
qed

text \<open>A login at the control server: when the database has a zone for the user and the zone
  has a server, the router is told the user, the token and the zone, and then that zone's game
  server is told the user and the zone. A user the database has no zone for makes the zone
  table be read out of its bounds.\<close>

lemma NewUser_announced:
  assumes "db (zone_query u) = Some (z # zs)" and "0 \<le> z" and "z < int NZONES"
    and "ct_zoneServer s ! nat z = Some a" and "st_look (ct_heap s) a = Some v"
    and "cs_c v = Some g" and "ct_routerConnection s = Some r"
  shows "control_exec db (NewUserRcvd u t) c s =
      Inr (ct_emit [CAnswer r (RouterNewUserSend u t z), CAnswer g (GameNewUserSend u z)] s)"
  using assms
  by (auto simp: NewUserRcvd_exec_def ct_getZoneDB_def ct_getZoneServer_def ct_get_live ct_answerTo_def)

lemma NewUser_unknown:
  "db (zone_query u) = None \<or> db (zone_query u) = Some [] \<Longrightarrow>
   control_exec db (NewUserRcvd u t) c s = Inl (UB OutOfBounds)"
  by (auto simp: NewUserRcvd_exec_def ct_getZoneDB_def ct_getZoneServer_def)

text \<open>The answer with a game server's address is incomplete: the constructor stops at the end
  of the address text, so for every address that fits its buffer the port and the server id
  of the message are never set.\<close>

lemma IPServerSend_leaves_port_unset:
  assumes "nul_free ip" and "length ip < IPLENGTH"
  shows "IPServerSend_new i (map char_byte ip @ [0]) port =
    IPServerSend None (map Some (map char_byte ip @ [0]) @ replicate (IPLENGTH - Suc (length ip)) None)
      (replicate PORTLENGTH None)"
proof -
  have "0 \<notin> set (map char_byte ip)" using assms(1) by (rule nul_free_bytes)
  from copy_chars_stops [OF this, of IPLENGTH] assms(2) show ?thesis
    by (simp add: IPServerSend_new_def)
qed

lemma IPServerSend_leaves_port_unset_example:
  "\<exists>ip port. IPServerSend_new 4 (map char_byte ''10.0.0.1'' @ [0]) [51, 48, 0] = IPServerSend None ip port"
  using IPServerSend_leaves_port_unset [of "''10.0.0.1''" 4 "[51, 48, 0]"]
  by (auto simp: nul_free_def IPLENGTH_def)

end
