(* ===== verification/Control_Main.thy ===== *)
theory Control_Main
  imports Control_Handlers
begin

text \<open>
  The control server as a running program (\<open>main\<close> of servcontrol/src/Control.cpp): the start,
  the loop that asks for loads, waits and balances, the two alarm handlers, and the received
  instructions that other threads execute meanwhile.

  The main thread's place in the loop is explicit, because an alarm sets a flag the loop tests:
  between the test and the \<open>sleep\<close> behind it an alarm can ring. A round of requests and a
  balancing are one step each, as is a received instruction. \<open>SIGALRM\<close> goes to any thread of
  the process, so it may or may not end the main thread's \<open>sleep(50)\<close>, which can also run out.
\<close>

section \<open>State\<close>

datatype alarm_handler = LoadRequestHandle | BalanceHandle

datatype main_pc = LoopTop | WaitTest | WaitEnter | WaitSleep | LoopEnter | LoopSleep

record cmain =
  km_control :: control
  km_factory :: factory
  km_breakflag :: bool
  km_timeout :: bool
  km_handler :: "alarm_handler option"
  km_alarm :: bool
  km_pc :: main_pc

section \<open>The start\<close>

text \<open>What the database does: the constructor of its connection throws, which leaves the pointer
  to it null; it is not connected; or it answers with the rows of the address table.\<close>

datatype ct_database = DbThrows | DbOffline | DbRows "address_row list"

definition ct_main_rows :: "ct_database \<Rightarrow> int \<Rightarrow> (int \<times> address_row list) result" where
  "ct_main_rows db n =
     (case db of DbThrows \<Rightarrow> Inl (UB NullDeref)
      | DbOffline \<Rightarrow> Inr (n, [])
      | DbRows rows \<Rightarrow> Inr (ct_main_database rows n, rows))"

definition control_factory :: factory where
  "control_factory = fst (tf_setProtocol ''0.1a'' (tf_setProfile (Some ControlProfile) tf_new))"

text \<open>From the first line of \<open>main\<close> to its loop. \<open>None\<close>: it returned with an error; \<open>Pending\<close>: the
  first assignment needs more than \<open>fuel\<close> passes.\<close>

definition ct_main_start ::
    "int option \<Rightarrow> ct_database \<Rightarrow> (nat \<Rightarrow> bool) \<Rightarrow> (nat \<Rightarrow> dbl) \<Rightarrow> (gcid \<Rightarrow> bool) \<Rightarrow> nat \<Rightarrow> cmain option io" where
  "ct_main_start arg db up raw online fuel =
     (case ct_main_argument arg of None \<Rightarrow> Ret None
      | Some n \<Rightarrow>
          bindIO (lift_result (ct_main_rows db n)) (\<lambda>(n', rows).
          bindIO (lift_result (ct_initializeConnectionsAndServerList rows up raw
                                 (control_new\<lparr>ct_numberServers := n'\<rparr>))) (\<lambda>s1.
          bindIO (ct_zoneAssignment online fuel s1) (\<lambda>s2.
          bindIO (lift_result (ct_main_mask s2)) (\<lambda>s3.
          bindIO (lift_result (ct_main_loginOnline s3)) (\<lambda>s4.
            Ret (Some \<lparr>km_control = s4, km_factory = control_factory, km_breakflag = True,
              km_timeout = True, km_handler = None, km_alarm = False, km_pc = LoopTop\<rparr>)))))))"

section \<open>The loop\<close>

definition balanceHandle :: "cmain \<Rightarrow> cmain" where
  "balanceHandle t = t\<lparr>km_breakflag := True\<rparr>"

definition loadRequestHandle :: "cmain \<Rightarrow> cmain" where
  "loadRequestHandle t = t\<lparr>km_timeout := False\<rparr>"

definition km_handle :: "cmain \<Rightarrow> cmain" where
  "km_handle t = (case km_handler t of None \<Rightarrow> t
     | Some LoadRequestHandle \<Rightarrow> loadRequestHandle t | Some BalanceHandle \<Rightarrow> balanceHandle t)"

text \<open>Where a \<open>sleep\<close> that ends leaves the main thread.\<close>

fun woken :: "main_pc \<Rightarrow> main_pc" where
  "woken WaitSleep = WaitTest"
| "woken LoopSleep = LoopTop"
| "woken p = p"

definition km_request :: "(gcid \<Rightarrow> bool) \<Rightarrow> cmain \<Rightarrow> cmain result" where
  "km_request online t = bindR (ct_main_requestLoads online (km_control t)) (\<lambda>s.
     Inr (t\<lparr>km_control := s, km_handler := Some LoadRequestHandle, km_alarm := True, km_pc := WaitTest\<rparr>))"

definition km_balance :: "(addr \<Rightarrow> nat) \<Rightarrow> cmain \<Rightarrow> cmain result" where
  "km_balance place t = bindR (ct_main_rebalance place (km_control t)) (\<lambda>s.
     Inr (t\<lparr>km_control := s, km_breakflag := False, km_timeout := True,
       km_handler := Some BalanceHandle, km_alarm := True, km_pc := LoopEnter\<rparr>))"

definition still_waiting :: "cmain \<Rightarrow> bool" where
  "still_waiting t = (ct_mask (km_control t) \<noteq> 0 \<and> km_timeout t)"

inductive km_main :: "cmain \<Rightarrow> cmain \<Rightarrow> bool" where
  km_round: "km_pc t = LoopTop \<Longrightarrow> km_breakflag t \<Longrightarrow> km_request online t = Inr t' \<Longrightarrow> km_main t t'"
| km_idle: "km_pc t = LoopTop \<Longrightarrow> \<not> km_breakflag t \<Longrightarrow> km_main t (t\<lparr>km_pc := LoopEnter\<rparr>)"
| km_wait: "km_pc t = WaitTest \<Longrightarrow> still_waiting t \<Longrightarrow> km_main t (t\<lparr>km_pc := WaitEnter\<rparr>)"
| km_ready: "km_pc t = WaitTest \<Longrightarrow> \<not> still_waiting t \<Longrightarrow> km_balance place t = Inr t' \<Longrightarrow> km_main t t'"
| km_waitSleep: "km_pc t = WaitEnter \<Longrightarrow> km_main t (t\<lparr>km_pc := WaitSleep\<rparr>)"
| km_loopSleep: "km_pc t = LoopEnter \<Longrightarrow> km_main t (t\<lparr>km_pc := LoopSleep\<rparr>)"
| km_sleepOver: "km_pc t = WaitSleep \<or> km_pc t = LoopSleep \<Longrightarrow> km_main t (t\<lparr>km_pc := woken (km_pc t)\<rparr>)"

text \<open>The alarm rings, with or without waking the main thread; another thread executes what a
  connection received.\<close>

inductive km_other :: "(string \<Rightarrow> int list option) \<Rightarrow> cmain \<Rightarrow> cmain \<Rightarrow> bool"
  for db :: "string \<Rightarrow> int list option" where
  km_ring: "km_alarm t \<Longrightarrow> p = km_pc t \<or> p = woken (km_pc t) \<Longrightarrow>
     km_other db t ((km_handle t)\<lparr>km_alarm := False, km_pc := p\<rparr>)"
| km_received: "control_exec db i c (km_control t) = Inr s \<Longrightarrow> km_other db t (t\<lparr>km_control := s\<rparr>)"

definition km_step :: "(string \<Rightarrow> int list option) \<Rightarrow> cmain \<Rightarrow> cmain \<Rightarrow> bool" where
  "km_step db t t' = (km_main t t' \<or> km_other db t t')"

inductive_simps km_main_simps: "km_main t t'"
inductive_simps km_other_simps: "km_other db t t'"

inductive km_reach :: "(string \<Rightarrow> int list option) \<Rightarrow> cmain \<Rightarrow> bool" for db :: "string \<Rightarrow> int list option" where
  km_started: "ct_main_start arg rows up raw online fuel = Ret (Some t) \<Longrightarrow> km_reach db t"
| km_steps: "km_reach db t \<Longrightarrow> km_step db t t' \<Longrightarrow> km_reach db t'"

lemma started_flags:
  "ct_main_start arg rows up raw online fuel = Ret (Some t) \<Longrightarrow>
   km_pc t = LoopTop \<and> km_breakflag t \<and> km_timeout t \<and> km_factory t = control_factory \<and> \<not> km_alarm t"
  by (auto simp: ct_main_start_def bindIO_eq_Ret split: option.splits)

lemma km_request_flags:
  "km_request online t = Inr t' \<Longrightarrow> km_pc t' = WaitTest \<and> km_alarm t' \<and> km_handler t' = Some LoadRequestHandle
     \<and> km_breakflag t' = km_breakflag t \<and> km_timeout t' = km_timeout t \<and> km_factory t' = km_factory t"
  by (auto simp: km_request_def bindR_eq_Inr)

lemma km_balance_flags:
  "km_balance place t = Inr t' \<Longrightarrow> km_pc t' = LoopEnter \<and> km_alarm t' \<and> km_handler t' = Some BalanceHandle
     \<and> \<not> km_breakflag t' \<and> km_timeout t' \<and> km_factory t' = km_factory t"
  by (auto simp: km_balance_def bindR_eq_Inr)

section \<open>No sleep without a way out\<close>

definition km_armed :: "alarm_handler \<Rightarrow> cmain \<Rightarrow> bool" where
  "km_armed h t = (km_alarm t \<and> km_handler t = Some h)"

definition km_alive :: "cmain \<Rightarrow> bool" where
  "km_alive t = (case km_pc t of
       LoopTop \<Rightarrow> km_breakflag t \<or> km_armed BalanceHandle t
     | LoopEnter \<Rightarrow> km_breakflag t \<or> km_armed BalanceHandle t
     | LoopSleep \<Rightarrow> km_breakflag t \<or> km_armed BalanceHandle t
     | _ \<Rightarrow> \<not> km_timeout t \<or> km_armed LoadRequestHandle t)"

lemma km_alive_main: "km_main t t' \<Longrightarrow> km_alive t \<Longrightarrow> km_alive t'"
proof (induction rule: km_main.induct)
  case (km_round t online t')
  then show ?case using km_request_flags [OF km_round(3)] by (simp add: km_alive_def km_armed_def)
next
  case (km_ready t place t')
  then show ?case using km_balance_flags [OF km_ready(3)] by (simp add: km_alive_def km_armed_def)
qed (auto simp: km_alive_def km_armed_def)

lemma km_handle_frame [simp]:
  "km_pc (km_handle t) = km_pc t" "km_control (km_handle t) = km_control t"
  "km_factory (km_handle t) = km_factory t" "km_handler (km_handle t) = km_handler t"
  "km_alarm (km_handle t) = km_alarm t"
  by (simp_all add: km_handle_def balanceHandle_def loadRequestHandle_def
      split: option.split alarm_handler.split)

lemma km_handle_flag:
  "km_breakflag (km_handle t) \<longleftrightarrow> km_breakflag t \<or> km_handler t = Some BalanceHandle"
  "km_timeout (km_handle t) \<longleftrightarrow> km_timeout t \<and> km_handler t \<noteq> Some LoadRequestHandle"
  by (auto simp: km_handle_def balanceHandle_def loadRequestHandle_def
      split: option.split alarm_handler.split)

lemma km_alive_other: "km_other db t t' \<Longrightarrow> km_alive t \<Longrightarrow> km_alive t'"
proof (induction rule: km_other.induct)
  case (km_ring t p)
  then show ?case
    by (cases "km_pc t") (auto simp: km_alive_def km_armed_def km_handle_flag)
qed (auto simp: km_alive_def km_armed_def split: main_pc.split)

lemma km_reach_alive: "km_reach db t \<Longrightarrow> km_alive t"
proof (induction rule: km_reach.induct)
  case (km_started arg rows up raw online fuel t)
  then show ?case using started_flags [OF km_started] by (simp add: km_alive_def)
next
  case (km_steps t t')
  then show ?case using km_alive_main km_alive_other by (auto simp: km_step_def)
qed

section \<open>What the control server says, and to whom\<close>

definition is_game :: "control \<Rightarrow> gcid \<Rightarrow> bool" where
  "is_game s c = (\<exists>a v. st_look (ct_heap s) a = Some v \<and> cs_c v = Some c)"

fun meant_for :: "control \<Rightarrow> gcid \<Rightarrow> control_msg \<Rightarrow> bool" where
  "meant_for s c LoginOnlineSend = (ct_loginConnection s = Some c)"
| "meant_for s c (RouterChangeZoneSend z a b) = (ct_routerConnection s = Some c)"
| "meant_for s c (RouterNewUserSend u t z) = (ct_routerConnection s = Some c)"
| "meant_for s c (RouterDeleteUserSend u) = (ct_routerConnection s = Some c)"
| "meant_for s c (IPServerSend i ip port) = (length ip = IPLENGTH \<and> length port = PORTLENGTH)"
| "meant_for s c m = is_game s c"

fun addressed :: "control \<Rightarrow> control_event \<Rightarrow> bool" where
  "addressed s (CSend c m) = meant_for s c m"
| "addressed s (CAnswer c m) = meant_for s c m"
| "addressed s (CClose c) = True"

text \<open>An operation that keeps the connections and says what it says to the right ones; the mask of
  awaited answers can only lose bits.\<close>

definition talks :: "control \<Rightarrow> control \<Rightarrow> bool" where
  "talks s s' \<longleftrightarrow> ct_routerConnection s' = ct_routerConnection s
     \<and> ct_loginConnection s' = ct_loginConnection s
     \<and> (\<forall>c. is_game s c \<longrightarrow> is_game s' c)
     \<and> (\<exists>es. ct_events s' = ct_events s @ es \<and> (\<forall>e \<in> set es. addressed s' e))
     \<and> (\<forall>j. bit (ct_mask s') j \<longrightarrow> bit (ct_mask s) j)"

lemma meant_for_mono:
  assumes "meant_for s c m" and "ct_routerConnection s' = ct_routerConnection s"
    and "ct_loginConnection s' = ct_loginConnection s" and "\<forall>c. is_game s c \<longrightarrow> is_game s' c"
  shows "meant_for s' c m"
  using assms by (cases m) simp_all

lemma addressed_talks: "talks s s' \<Longrightarrow> addressed s e \<Longrightarrow> addressed s' e"
  by (cases e) (auto simp: talks_def intro: meant_for_mono)

lemma talks_refl [simp]: "talks s s"
  by (simp add: talks_def)

lemma talks_trans:
  assumes "talks s t" and "talks t u"
  shows "talks s u"
proof -
  obtain es where es: "ct_events t = ct_events s @ es" "\<forall>e \<in> set es. addressed t e"
    using assms(1) by (auto simp: talks_def)
  obtain fs where fs: "ct_events u = ct_events t @ fs" "\<forall>e \<in> set fs. addressed u e"
    using assms(2) by (auto simp: talks_def)
  have "ct_events u = ct_events s @ (es @ fs)" "\<forall>e \<in> set (es @ fs). addressed u e"
    using es fs addressed_talks [OF assms(2)] by auto
  then show ?thesis using assms
    by (auto simp: talks_def intro!: exI [of _ "es @ fs"])
qed

lemma talks_emit: "\<forall>e \<in> set es. addressed s e \<Longrightarrow> talks s (ct_emit es s)"
proof -
  assume a: "\<forall>e \<in> set es. addressed s e"
  have g: "is_game (ct_emit es s) = is_game s" by (simp add: fun_eq_iff is_game_def ct_emit_def)
  have "meant_for (ct_emit es s) c m = meant_for s c m" for c m
    by (cases m) (simp_all add: g, simp_all add: ct_emit_def)
  then have "addressed (ct_emit es s) e = addressed s e" for e by (cases e) simp_all
  with a g show ?thesis by (auto simp: talks_def ct_emit_def)
qed

lemma talks_send: "ct_sendTo c m s = Inr s' \<Longrightarrow> \<forall>g. c = Some g \<longrightarrow> meant_for s g m \<Longrightarrow> talks s s'"
  by (auto simp: ct_sendTo_def bindR_eq_Inr intro!: talks_emit)

lemma talks_answer: "ct_answerTo c m s = Inr s' \<Longrightarrow> \<forall>g. c = Some g \<longrightarrow> meant_for s g m \<Longrightarrow> talks s s'"
  by (auto simp: ct_answerTo_def bindR_eq_Inr intro!: talks_emit)

lemma is_game_alt: "is_game s c \<longleftrightarrow> (\<exists>a. map_option cs_c (st_look (ct_heap s) a) = Some (Some c))"
  by (auto simp: is_game_def)

lemma is_game_put:
  assumes "st_look (ct_heap s) a = Some v" and "cs_c w = cs_c v"
  shows "is_game (ct_put a w s) = is_game s"
proof -
  have "map_option cs_c (st_look (ct_heap (ct_put a w s)) b) = map_option cs_c (st_look (ct_heap s) b)" for b
    using assms by simp
  then show ?thesis by (simp add: fun_eq_iff is_game_alt)
qed

lemma talks_put: "st_look (ct_heap s) a = Some v \<Longrightarrow> cs_c w = cs_c v \<Longrightarrow> talks s (ct_put a w s)"
  using is_game_put [of s a v w] by (simp add: talks_def ct_put_def)

lemma talks_fold:
  "foldR f xs s = Inr t \<Longrightarrow> (\<And>s x s'. x \<in> set xs \<Longrightarrow> f s x = Inr s' \<Longrightarrow> talks s s') \<Longrightarrow> talks s t"
  by (rule foldR_invariant [where P = "talks s" and f = f and xs = xs and s = s]) (auto intro: talks_trans)

lemma is_game_heap: "ct_heap s' = ct_heap s \<Longrightarrow> is_game s' = is_game s"
  by (simp add: fun_eq_iff is_game_def)

text \<open>An operation that only changes the list of servers and the zone table says nothing.\<close>

lemma talks_quiet:
  assumes "ct_heap s' = ct_heap s" and "ct_events s' = ct_events s" and "ct_mask s' = ct_mask s"
    and "ct_routerConnection s' = ct_routerConnection s" and "ct_loginConnection s' = ct_loginConnection s"
  shows "talks s s'"
  using assms is_game_heap [OF assms(1)] by (simp add: talks_def)

lemma talks_setZoneServer: "ct_setZoneServer i p s = Inr s' \<Longrightarrow> talks s s'"
  by (auto simp: ct_setZoneServer_def split: if_splits intro: talks_quiet)

lemma setZoneServer_heap: "ct_setZoneServer i p s = Inr s' \<Longrightarrow> ct_heap s' = ct_heap s"
  by (auto simp: ct_setZoneServer_def split: if_splits)

lemma talks_giveZone:
  assumes "ct_giveZone z a v s = Inr s'" and "st_look (ct_heap s) a = Some v"
  shows "talks s s'"
proof -
  obtain s1 s2 w where s1: "ct_sendTo (cs_c v) (SetZoneToServerSend z (cs_id v)) s = Inr s1"
    and s2: "ct_setZoneServer z a s1 = Inr s2" and s': "s' = ct_put a w s2" "cs_c w = cs_c v"
    using assms(1) by (auto simp: ct_giveZone_def bindR_eq_Inr simp del: ct_sendTo_Inr)
  have "\<forall>g. cs_c v = Some g \<longrightarrow> is_game s g" using assms(2) by (force simp: is_game_def)
  then have t1: "talks s s1" using s1 by (intro talks_send) auto
  have "st_look (ct_heap s2) a = Some v"
    using s1 setZoneServer_heap [OF s2] assms(2) by auto
  then have "talks s2 s'" using s' by (auto intro: talks_put)
  then show ?thesis using t1 talks_setZoneServer [OF s2] talks_trans by blast
qed

lemma talks_assign_front: "ct_assign_front online a i (s, zr) = Inr (s', zr') \<Longrightarrow> talks s s'"
  by (auto simp: ct_assign_front_def bindR_eq_Inr intro: talks_giveZone split: if_splits)

lemma talks_assign_pass: "ct_assign_pass online as s zi zr = Inr (s', zi', zr', f) \<Longrightarrow> talks s s'"
proof (induction as arbitrary: s zi zr)
  case (Cons a as)
  obtain v where v: "st_look (ct_heap s) a = Some v"
    using Cons.prems by (cases "st_look (ct_heap s) a") (simp_all add: ct_get_def st_get_def ct_assign_pass.simps(2))
  show ?case
  proof (cases "cs_isUp online v")
    case False
    then show ?thesis using Cons v by (simp add: ct_assign_pass.simps(2) ct_get_live)
  next
    case True
    then obtain s1 where s1: "ct_giveZone zi a v s = Inr s1"
      using Cons.prems v by (auto simp: ct_assign_pass.simps(2) ct_get_live bindR_eq_Inr)
    then have "s' = s1 \<or> talks s1 s'"
      using Cons.prems v True Cons.IH [of s1 "zi + 1" "zr - 1"]
      by (auto simp: ct_assign_pass.simps(2) ct_get_live split: if_splits)
    then show ?thesis using talks_giveZone [OF s1 v] talks_trans by auto
  qed
qed simp

lemma talks_assign_loop: "ct_assign_loop online fuel s zi zr = Ret s' \<Longrightarrow> talks s s'"
proof (induction fuel arbitrary: s zi zr)
  case 0
  then show ?case by (simp add: ct_assign_loop.simps [of _ 0] split: if_splits)
next
  case (Suc k)
  show ?case
  proof (cases "zr \<le> 0")
    case True
    then show ?thesis using Suc.prems by (simp add: ct_assign_loop.simps [of _ "Suc k"])
  next
    case False
    then obtain s1 zi1 zr1 f where p: "ct_assign_pass online (ct_servers s) s zi zr = Inr (s1, zi1, zr1, f)"
      and r: "(if f then Ret s1 else ct_assign_loop online k s1 zi1 zr1) = Ret s'"
      using Suc.prems by (auto simp: ct_assign_loop.simps [of _ "Suc k"] lift_result_def bindIO_eq_Ret
          split: sum.splits)
    have "talks s1 s'" using r Suc.IH [of s1 zi1 zr1] by (cases f) auto
    then show ?thesis using talks_assign_pass [OF p] talks_trans by blast
  qed
qed

lemma talks_zoneAssignment:
  assumes "ct_zoneAssignment online fuel s = Ret s'"
  shows "talks s s'"
proof -
  define m where "m = nat (int NZONES mod ct_numberServers s)"
  obtain s1 zr where f: "foldR (\<lambda>sr i. ct_assign_front online (hd (ct_servers s)) i sr) [0..<m] (s, int NZONES)
      = Inr (s1, zr)"
    and l: "ct_assign_loop online fuel s1 (int m) zr = Ret s'"
    using assms by (auto simp: ct_zoneAssignment_def m_def Let_def lift_result_def bindIO_eq_Ret
        split: sum.splits if_splits)
  have "talks s (fst (s1, zr))"
    by (rule foldR_invariant [OF f, where P = "\<lambda>p. talks s (fst p)"])
      (auto elim!: talks_trans dest: talks_assign_front)
  then show ?thesis using talks_assign_loop [OF l] talks_trans by auto
qed

lemma talks_zoneChange:
  assumes "ct_zoneChange src pos dst s = Inr s'"
  shows "talks s s'"
proof -
  obtain v w g h r where v: "st_look (ct_heap s) src = Some v" "cs_c v = Some g"
    and w: "st_look (ct_heap s) dst = Some w" "cs_c w = Some h" and r: "ct_routerConnection s = Some r"
    and s': "s' = ct_emit [CSend g (RemoveZoneSend pos), CSend h (GetZoneSend pos (cs_id v)),
      CSend r (RouterChangeZoneSend pos (cs_id v) (cs_id w))] s"
    using assms by (auto simp: ct_zoneChange_def bindR_eq_Inr)
  have "is_game s g" "is_game s h" using v w by (auto simp: is_game_def)
  then show ?thesis unfolding s' using r by (intro talks_emit) simp
qed

lemma talks_balance_loop: "ct_balance_loop place left dev mx mn s = Inr s' \<Longrightarrow> talks s s'"
proof (induction left arbitrary: dev mx mn s)
  case (Suc left)
  show ?case
  proof (cases "s' = s")
    case False
    then obtain pos s1 s2 dev2 where s1: "ct_zoneChange mx pos mn s = Inr s1"
      and s2: "ct_setZoneServer pos mn s1 = Inr s2"
      and r: "ct_balance_loop place left dev2 (last (ct_servers (ct_sortByPointer place s2)))
        (hd (ct_servers (ct_sortByPointer place s2))) (ct_sortByPointer place s2) = Inr s'"
      using Suc.prems by (auto simp: bindR_eq_Inr Let_def simp del: ct_zoneChange_Inr split: if_splits)
    have "talks s2 (ct_sortByPointer place s2)" by (rule talks_quiet) (simp_all add: ct_sortByPointer_def)
    then show ?thesis
      using talks_zoneChange [OF s1] talks_setZoneServer [OF s2] Suc.IH [OF r] talks_trans by blast
  qed simp
qed simp

lemma talks_rebalance:
  assumes "ct_main_rebalance place s = Inr s'"
  shows "talks s s'"
proof -
  obtain s1 where s1: "ct_sortByLoad s = Inr s1" and b: "ct_balance place s1 = Inr s'"
    using assms by (auto simp: ct_main_rebalance_def bindR_eq_Inr)
  have "talks s s1"
    using s1 by (auto simp: ct_sortByLoad_def bindR_eq_Inr split: if_splits intro!: talks_quiet)
  moreover have "talks s1 s'"
    using b by (auto simp: ct_balance_def bindR_eq_Inr split: if_splits dest: talks_balance_loop)
  ultimately show ?thesis by (rule talks_trans)
qed

lemma talks_requestLoads: "ct_main_requestLoads online s = Inr s' \<Longrightarrow> talks s s'"
  unfolding ct_main_requestLoads_def
proof (erule talks_fold)
  fix s a s'
  assume step: "bindR (ct_get a s) (\<lambda>v. if cs_isUp online v
      then ct_sendTo (cs_c v) ServerLoadSend (ct_put a (v\<lparr>cs_totalLoad := Fin 0\<rparr>) s) else Inr s) = Inr s'"
  then obtain v where v: "st_look (ct_heap s) a = Some v" by (auto simp: bindR_eq_Inr)
  let ?s1 = "ct_put a (v\<lparr>cs_totalLoad := Fin 0\<rparr>) s"
  have p: "talks s ?s1" using v by (rule talks_put) simp
  show "talks s s'"
  proof (cases "cs_isUp online v")
    case True
    then obtain g where g: "cs_c v = Some g" "s' = ct_emit [CSend g ServerLoadSend] ?s1"
      using step v by (auto simp: ct_get_live)
    have "is_game s g" using v g by (auto simp: is_game_def)
    then have "talks ?s1 s'" unfolding g(2) using p by (intro talks_emit) (simp add: talks_def)
    then show ?thesis using p talks_trans by blast
  qed (use step v in \<open>simp add: ct_get_live\<close>)
qed

lemma talks_report: "ServerLoadRcvd_loop i z l r as s = Inr s' \<Longrightarrow> talks s s'"
proof (induction i z l r as s rule: ServerLoadRcvd_loop.induct)
  case (2 i z l r a as s)
  then obtain v where v: "st_look (ct_heap s) a = Some v" by (auto simp: bindR_eq_Inr)
  let ?s1 = "ct_put a (cs_report z l v) s"
  have p: "talks s ?s1" using v by (rule talks_put) (simp add: cs_report_def)
  have c: "talks ?s1 s'" if "ct_clearBit i ?s1 = Inr s'"
  proof -
    have "ct_heap s' = ct_heap ?s1" using that by (auto simp: ct_clearBit_def split: if_splits)
    from is_game_heap [OF this] that show ?thesis
      by (auto simp: ct_clearBit_def talks_def bit_and_iff split: if_splits)
  qed
  show ?case
  proof (cases "cs_id v = i")
    case True
    then have "talks ?s1 s'"
      using 2 v c by (cases "r = 0") (simp_all add: ct_get_live Let_def)
    then show ?thesis using p talks_trans by blast
  qed (use 2 v in \<open>simp add: ct_get_live\<close>)
qed simp

lemma length_copy_chars [simp]: "length (fst (copy_chars n src)) = n"
  by (induction n src rule: copy_chars.induct) (auto simp: split_beta)

lemma IPServerSend_new_lengths:
  "\<exists>j ip' port'. IPServerSend_new i ip port = IPServerSend j ip' port' \<and> length ip' = IPLENGTH \<and> length port' = PORTLENGTH"
  using length_copy_chars [of IPLENGTH ip] length_copy_chars [of PORTLENGTH port]
  by (auto simp: IPServerSend_new_def split: prod.split simp del: length_copy_chars)

lemma meant_for_IPServerSend [simp]: "meant_for s c (IPServerSend_new i ip port)"
  using IPServerSend_new_lengths [of i ip port] by auto

lemma talks_exec:
  assumes "control_exec db i c s = Inr s'"
  shows "talks s s'"
proof (cases i)
  case (ServerLoadRcvd sv z l r)
  then show ?thesis using assms by (auto simp: ServerLoadRcvd_exec_def dest: talks_report)
next
  case (IPServerRcvd j)
  then obtain ip port where f: "foldR (\<lambda>s a. bindR (ct_get a s) (\<lambda>v. if cs_id v = j
      then ct_answerTo (Some c) (IPServerSend_new (cs_id v) (map char_byte ip @ [0]) (map char_byte port @ [0])) s
      else Inr s)) (ct_servers s) s = Inr s'"
    using assms by (auto simp: IPServerRcvd_exec_def bindR_eq_Inr)
  show ?thesis
    by (rule talks_fold [OF f])
      (auto simp: bindR_eq_Inr split: if_splits elim!: talks_answer)
next
  case (NewUserRcvd u t)
  then obtain zone a v s1 where v: "st_look (ct_heap s) a = Some v"
    and s1: "ct_answerTo (ct_routerConnection s) (RouterNewUserSend u t zone) s = Inr s1"
    and s': "ct_answerTo (cs_c v) (GameNewUserSend u zone) s1 = Inr s'"
    using assms by (auto simp: NewUserRcvd_exec_def bindR_eq_Inr)
  have t: "talks s s1" using s1 by (rule talks_answer) simp
  have "\<forall>g. cs_c v = Some g \<longrightarrow> is_game s g" using v by (force simp: is_game_def)
  then have "talks s1 s'" using s' t by (intro talks_answer) (auto simp: talks_def)
  then show ?thesis using t talks_trans by blast
next
  case (DisconnectUserRcvd u)
  then show ?thesis using assms by (auto simp: DisconnectUserRcvd_exec_def intro: talks_answer)
qed

definition spoken :: "control \<Rightarrow> bool" where
  "spoken s = (\<forall>e \<in> set (ct_events s). addressed s e)"

lemma spoken_talks: "talks s s' \<Longrightarrow> spoken s \<Longrightarrow> spoken s'"
proof -
  assume t: "talks s s'" and s: "spoken s"
  obtain es where "ct_events s' = ct_events s @ es" "\<forall>e \<in> set es. addressed s' e"
    using t by (auto simp: talks_def)
  then show "spoken s'" using s addressed_talks [OF t] by (auto simp: spoken_def)
qed

lemma initialize_silent:
  assumes "ct_initializeConnectionsAndServerList rows up raw s = Inr s'"
  shows "ct_events s' = ct_events s"
proof -
  obtain p where f: "foldR (\<lambda>js r. ct_fill_row r js) rows (0, s\<lparr>ct_ipServers := replicate (nat (ct_numberServers s)) None,
      ct_portServers := replicate (nat (ct_numberServers s)) None, ct_ipRouter := None, ct_portRouter := None,
      ct_ipLogin := None, ct_portLogin := None\<rparr>) = Inr p"
    and c: "\<exists>s2. foldR (\<lambda>s i. ct_connect_server up raw i s) [0..<nat (ct_numberServers (snd p))] (snd p) = Inr s2
      \<and> ct_events s' = ct_events s2"
    using assms unfolding ct_initializeConnectionsAndServerList_def ct_fillIpServerTable_def Let_def
    by (auto simp: bindR_eq_Inr)
  have "ct_events (snd p) = ct_events s"
    by (rule foldR_invariant [OF f, where P = "\<lambda>p. ct_events (snd p) = ct_events s"])
      (auto simp: ct_fill_row_def bindR_eq_Inr split: if_splits)
  moreover have "ct_events s2 = ct_events (snd p)"
    if "foldR (\<lambda>s i. ct_connect_server up raw i s) [0..<nat (ct_numberServers (snd p))] (snd p) = Inr s2" for s2
    by (rule foldR_invariant [OF that, where P = "\<lambda>s. ct_events s = ct_events (snd p)"])
      (auto simp: ct_connect_server_def bindR_eq_Inr split: if_splits prod.splits)
  ultimately show ?thesis using c by auto
qed

lemma lift_result_Ret [simp]: "lift_result m = Ret x \<longleftrightarrow> m = Inr x"
  by (cases m) simp_all

lemma started_spoken:
  assumes "ct_main_start arg rows up raw online fuel = Ret (Some t)"
  shows "spoken (km_control t)"
proof -
  obtain n adr s1 s2 s3 s4 where
    s1: "ct_initializeConnectionsAndServerList adr up raw (control_new\<lparr>ct_numberServers := n\<rparr>) = Inr s1"
    and s2: "ct_zoneAssignment online fuel s1 = Ret s2" and s3: "ct_main_mask s2 = Inr s3"
    and s4: "ct_main_loginOnline s3 = Inr s4" and t: "km_control t = s4"
    using assms by (auto simp: ct_main_start_def bindIO_eq_Ret split: option.splits)
  have "spoken s1" using initialize_silent [OF s1] by (simp add: spoken_def control_new_def)
  with talks_zoneAssignment [OF s2] have "spoken s2" by (rule spoken_talks)
  moreover have "addressed s3 e = addressed s2 e" for e
  proof -
    have same: "ct_heap s3 = ct_heap s2" "ct_routerConnection s3 = ct_routerConnection s2"
      "ct_loginConnection s3 = ct_loginConnection s2"
      using s3 by (auto simp: ct_main_mask_def Let_def split: if_splits)
    with is_game_heap [OF same(1)] have "meant_for s3 c m = meant_for s2 c m" for c m by (cases m) simp_all
    then show ?thesis by (cases e) simp_all
  qed
  moreover have "ct_events s3 = ct_events s2"
    using s3 by (auto simp: ct_main_mask_def Let_def split: if_splits)
  ultimately have "spoken s3" by (simp add: spoken_def)
  moreover have "talks s3 s4"
    using s4 unfolding ct_main_loginOnline_def by (rule talks_send) simp
  ultimately show ?thesis using spoken_talks t by blast
qed

lemma talks_step: "km_step db t t' \<Longrightarrow> talks (km_control t) (km_control t')"
  by (auto simp: km_step_def km_main_simps km_other_simps km_request_def km_balance_def bindR_eq_Inr
      intro: talks_requestLoads talks_rebalance talks_exec)

lemma reach_spoken: "km_reach db t \<Longrightarrow> spoken (km_control t)"
  by (induction rule: km_reach.induct) (blast intro: started_spoken spoken_talks talks_step)+

lemma reach_factory: "km_reach db t \<Longrightarrow> km_factory t = control_factory"
proof (induction rule: km_reach.induct)
  case (km_started arg rows up raw online fuel t)
  then show ?case using started_flags by blast
next
  case (km_steps t t')
  then show ?case
    by (auto simp: km_step_def km_main_simps km_other_simps dest: km_request_flags km_balance_flags)
qed

lemma mask_stays_empty:
  assumes "talks s s'" and "ct_mask s = 0"
  shows "ct_mask s' = 0"
  using assms by (intro bit_eqI) (auto simp: talks_def)

definition zero_at :: "control \<Rightarrow> addr \<Rightarrow> bool" where
  "zero_at s a = (\<exists>v. st_look (ct_heap s) a = Some v \<and> cs_totalLoad v = Fin 0)"

definition up_at :: "(gcid \<Rightarrow> bool) \<Rightarrow> control \<Rightarrow> addr \<Rightarrow> bool" where
  "up_at online s a = (\<exists>v. st_look (ct_heap s) a = Some v \<and> cs_isUp online v)"

definition ask_load :: "(gcid \<Rightarrow> bool) \<Rightarrow> control \<Rightarrow> addr \<Rightarrow> control result" where
  "ask_load online s a = bindR (ct_get a s) (\<lambda>v. if cs_isUp online v
      then ct_sendTo (cs_c v) ServerLoadSend (ct_put a (v\<lparr>cs_totalLoad := Fin 0\<rparr>) s) else Inr s)"

lemma requestLoads_fold: "ct_main_requestLoads online s = foldR (ask_load online) (ct_servers s) s"
  by (simp add: ct_main_requestLoads_def ask_load_def [abs_def])

lemma ask_load_step:
  assumes "ask_load online s a = Inr s'"
  shows "ct_servers s' = ct_servers s" "up_at online s' b = up_at online s b"
    "up_at online s a \<Longrightarrow> zero_at s' a" "zero_at s b \<Longrightarrow> zero_at s' b"
proof -
  obtain v where v: "st_look (ct_heap s) a = Some v" using assms by (auto simp: ask_load_def bindR_eq_Inr)
  have "ct_servers s' = ct_servers s \<and> up_at online s' b = up_at online s b
    \<and> (up_at online s a \<longrightarrow> zero_at s' a) \<and> (zero_at s b \<longrightarrow> zero_at s' b)"
  proof (cases "cs_isUp online v")
    case True
    then obtain g where "s' = ct_emit [CSend g ServerLoadSend] (ct_put a (v\<lparr>cs_totalLoad := Fin 0\<rparr>) s)"
      using assms v by (auto simp: ask_load_def ct_get_live)
    then show ?thesis using v True by (simp add: up_at_def zero_at_def cs_isUp_def)
  next
    case False
    then have "s' = s" using assms v by (simp add: ask_load_def ct_get_live)
    then show ?thesis using False v by (simp add: up_at_def)
  qed
  then show "ct_servers s' = ct_servers s" "up_at online s' b = up_at online s b"
    "up_at online s a \<Longrightarrow> zero_at s' a" "zero_at s b \<Longrightarrow> zero_at s' b" by simp_all
qed

lemma requestLoads_zeroes:
  "foldR (ask_load online) as s = Inr s' \<Longrightarrow> ct_servers s' = ct_servers s \<and>
   (\<forall>b. up_at online s' b = up_at online s b) \<and> (\<forall>b. up_at online s b \<and> b \<in> set as \<or> zero_at s b \<longrightarrow> zero_at s' b)"
proof (induction as arbitrary: s)
  case (Cons a as)
  then obtain s1 where s1: "ask_load online s a = Inr s1" and r: "foldR (ask_load online) as s1 = Inr s'"
    by (auto simp: bindR_eq_Inr)
  show ?case using Cons.IH [OF r] ask_load_step [OF s1] by (simp del: foldR.simps) blast
qed simp

section \<open>Properties\<close>

text \<open>Nothing the control server sends goes astray: in every state it can reach, from its start
  through any interleaving of its main loop, the alarm and received instructions, every
  message it has sent went to a connection of the right kind: orders to a game server, changes
  of users and zones to the router, the sign of life to the login server.\<close>

lemma control_addresses_every_message:
  assumes "km_reach db t"
  shows "\<forall>e \<in> set (ct_events (km_control t)). addressed (km_control t) e"
  using reach_spoken [OF assms] by (simp add: spoken_def)

definition ex_main :: "cmain io" where
  "ex_main = bindIO (ct_main_start (Some 2) (DbRows ex_rows) (\<lambda>_. True) (\<lambda>_. Fin 0) (\<lambda>_. True) 4)
     (\<lambda>t. case t of None \<Rightarrow> Pending | Some t \<Rightarrow> Ret t)"

lemma ex_main_start:
  "\<exists>t. ct_main_start (Some 2) (DbRows ex_rows) (\<lambda>_. True) (\<lambda>_. Fin 0) (\<lambda>_. True) 4 = Ret (Some t)
     \<and> ct_mask (km_control t) = 3 \<and> CSend 0 (SetZoneToServerSend 0 0) \<in> set (ct_events (km_control t))"
proof -
  have "case ex_main of Ret t \<Rightarrow> ct_mask (km_control t) = 3 \<and>
      CSend 0 (SetZoneToServerSend 0 0) \<in> set (ct_events (km_control t)) | _ \<Rightarrow> False"
    by code_simp
  then show ?thesis
    by (auto simp: ex_main_def bindIO_eq_Ret split: io.splits option.splits)
qed

lemma control_addresses_every_message_example:
  "\<exists>t. km_reach (\<lambda>_. None) t \<and> is_game (km_control t) 0"
proof -
  obtain t where t: "ct_main_start (Some 2) (DbRows ex_rows) (\<lambda>_. True) (\<lambda>_. Fin 0) (\<lambda>_. True) 4 = Ret (Some t)"
      "CSend 0 (SetZoneToServerSend 0 0) \<in> set (ct_events (km_control t))"
    using ex_main_start by blast
  then have r: "km_reach (\<lambda>_. None) t" by (blast intro: km_started)
  from control_addresses_every_message [OF this] t(2) have "is_game (km_control t) 0" by fastforce
  with r show ?thesis by blast
qed

text \<open>C19. The control server's loop cannot fall asleep for good: whenever its main thread sleeps, in
  any reachable state, one more step ends the sleep with the flag set that the sleep is there
  to wait for. This holds although an alarm that rings between the test of the flag and the
  \<open>sleep\<close> does not interrupt it: then the flag is set and the sleep runs out by itself.\<close>

theorem control_loop_always_wakes:
  assumes "km_reach db t"
  shows "(km_pc t = WaitSleep \<longrightarrow> (\<exists>u. km_step db t u \<and> km_pc u = WaitTest \<and> \<not> km_timeout u))
    \<and> (km_pc t = LoopSleep \<longrightarrow> (\<exists>u. km_step db t u \<and> km_pc u = LoopTop \<and> km_breakflag u))"
proof (intro conjI impI)
  note alive = km_reach_alive [OF assms]
  assume pc: "km_pc t = WaitSleep"
  show "\<exists>u. km_step db t u \<and> km_pc u = WaitTest \<and> \<not> km_timeout u"
  proof (cases "km_timeout t")
    case True
    then have "km_alarm t" "km_handler t = Some LoadRequestHandle"
      using alive pc by (auto simp: km_alive_def km_armed_def)
    then show ?thesis using km_ring [of t WaitTest db] pc
      by (intro exI [of _ "(km_handle t)\<lparr>km_alarm := False, km_pc := WaitTest\<rparr>"])
        (auto simp: km_step_def km_handle_flag)
  next
    case False
    then show ?thesis using km_sleepOver [of t] pc
      by (intro exI [of _ "t\<lparr>km_pc := WaitTest\<rparr>"]) (auto simp: km_step_def)
  qed
next
  note alive = km_reach_alive [OF assms]
  assume pc: "km_pc t = LoopSleep"
  show "\<exists>u. km_step db t u \<and> km_pc u = LoopTop \<and> km_breakflag u"
  proof (cases "km_breakflag t")
    case False
    then have "km_alarm t" "km_handler t = Some BalanceHandle"
      using alive pc by (auto simp: km_alive_def km_armed_def)
    then show ?thesis using km_ring [of t LoopTop db] pc
      by (intro exI [of _ "(km_handle t)\<lparr>km_alarm := False, km_pc := LoopTop\<rparr>"])
        (auto simp: km_step_def km_handle_flag)
  next
    case True
    then show ?thesis using km_sleepOver [of t] pc
      by (intro exI [of _ "t\<lparr>km_pc := LoopTop\<rparr>"]) (auto simp: km_step_def)
  qed
qed

lemma ex_main_request:
  "\<exists>t u. km_reach db t \<and> km_pc t = LoopTop \<and> km_breakflag t \<and> km_request (\<lambda>_. True) t = Inr u
     \<and> ct_mask (km_control u) = 3 \<and> km_timeout u"
proof -
  have "case bindIO ex_main (\<lambda>t. lift_result (km_request (\<lambda>_. True) t)) of
      Ret u \<Rightarrow> ct_mask (km_control u) = 3 | _ \<Rightarrow> False"
    by code_simp
  then obtain t u where t: "ct_main_start (Some 2) (DbRows ex_rows) (\<lambda>_. True) (\<lambda>_. Fin 0) (\<lambda>_. True) 4 = Ret (Some t)"
    and u: "km_request (\<lambda>_. True) t = Inr u" "ct_mask (km_control u) = 3"
    by (auto simp: ex_main_def bindIO_eq_Ret split: io.splits option.splits)
  have "km_reach db t" using t by (rule km_started)
  moreover have "km_timeout u" using started_flags [OF t] km_request_flags [OF u(1)] by simp
  ultimately show ?thesis using started_flags [OF t] u by blast
qed

theorem control_loop_always_wakes_witness:
  "\<exists>t u. km_reach (\<lambda>_. None) t \<and> km_pc t = WaitSleep \<and> km_step (\<lambda>_. None) t u \<and> \<not> km_timeout u"
proof -
  let ?db = "\<lambda>_. None :: int list option"
  obtain t u where t: "km_reach ?db t" "km_pc t = LoopTop" "km_breakflag t" "km_request (\<lambda>_. True) t = Inr u"
    and u: "ct_mask (km_control u) = 3" "km_timeout u"
    using ex_main_request [of ?db] by blast
  have pc: "km_pc u = WaitTest" using km_request_flags [OF t(4)] by simp
  have "km_reach ?db u"
    by (rule km_steps [OF t(1)]) (use km_round [OF t(2-4)] in \<open>simp add: km_step_def\<close>)
  then have "km_reach ?db (u\<lparr>km_pc := WaitEnter\<rparr>)"
    by (rule km_steps) (use km_wait [OF pc] u in \<open>simp add: km_step_def still_waiting_def\<close>)
  then have r: "km_reach ?db (u\<lparr>km_pc := WaitSleep\<rparr>)"
    by (rule km_steps) (use km_waitSleep [of "u\<lparr>km_pc := WaitEnter\<rparr>"] in \<open>simp add: km_step_def\<close>)
  from control_loop_always_wakes [OF this] r show ?thesis by fastforce
qed

text \<open>C21. From the moment the mask of awaited answers is empty the control server waits for no
  answer: in every later round the only thing its main thread does after the request is to
  balance, and the request has set the total load of every server that is up to zero, so that
  only answers that overtake the balancing can be seen by it.\<close>

theorem later_rounds_balance_unseen_loads:
  assumes "(km_step db)\<^sup>*\<^sup>* t u" and "ct_mask (km_control t) = 0"
    and "km_request online u = Inr v"
  shows "(km_main v w \<longleftrightarrow> (\<exists>place. km_balance place v = Inr w))
    \<and> (\<forall>a \<in> set (ct_servers (km_control v)). up_at online (km_control v) a \<longrightarrow> zero_at (km_control v) a)"
proof -
  have m: "ct_mask (km_control u) = 0"
    using assms(1,2)
    by (induction rule: rtranclp_induct) (auto dest: talks_step mask_stays_empty)
  obtain s where s: "ct_main_requestLoads online (km_control u) = Inr s" and v: "km_control v = s" "km_pc v = WaitTest"
    using assms(3) by (auto simp: km_request_def bindR_eq_Inr)
  have "ct_mask s = 0" using mask_stays_empty [OF talks_requestLoads [OF s] m] .
  then have "km_main v w \<longleftrightarrow> (\<exists>place. km_balance place v = Inr w)"
    using v by (auto simp: km_main_simps still_waiting_def)
  moreover have "\<forall>a \<in> set (ct_servers s). up_at online s a \<longrightarrow> zero_at s a"
    using requestLoads_zeroes [of online "ct_servers (km_control u)" "km_control u" s] s
    by (auto simp: requestLoads_fold)
  ultimately show ?thesis using v by simp
qed

theorem later_rounds_balance_unseen_loads_witness:
  "\<exists>t v. km_request (\<lambda>_. True) t = Inr v \<and> (\<forall>w. km_main v w \<longrightarrow> \<not> km_breakflag w)
    \<and> zero_at (km_control v) 1"
proof -
  let ?t = "\<lparr>km_control = ex_started, km_factory = control_factory, km_breakflag = True, km_timeout = True,
    km_handler = Some BalanceHandle, km_alarm = False, km_pc = LoopTop\<rparr>"
  obtain v where v: "km_request (\<lambda>_. True) ?t = Inr v" "ct_servers (km_control v) = [0, 1]"
      "up_at (\<lambda>_. True) (km_control v) 1"
    using ex_started_value
    by (simp add: km_request_def ct_main_requestLoads_def ct_get_live cs_isUp_def cserver_new_def ct_sendTo_def
        up_at_def)
  have s: "(km_step (\<lambda>_. None))\<^sup>*\<^sup>* ?t ?t" "ct_mask (km_control ?t) = 0"
    using ex_started_value by simp_all
  note res = later_rounds_balance_unseen_loads [OF s v(1)]
  have "\<forall>w. km_main v w \<longrightarrow> \<not> km_breakflag w" using res km_balance_flags by blast
  moreover have "zero_at (km_control v) 1" using res v by auto
  ultimately show ?thesis using v(1) by blast
qed

end
