(* ===== verification/Router_Handlers.thy ===== *)
theory Router_Handlers
  imports Router_Safety Tcp_Secure
begin

text \<open>
  What the router does with the instructions it receives: the classes of
  servrouter/include/InstControl.h, InstServer.h and InstClient.h with their \<open>exec\<close>
  (servrouter/src/InstControl.cpp, InstServer.cpp), the numbering of RouterProfile.cpp, the
  listeners of Router.cpp and the connection managers of main.cpp.

  A class whose \<open>exec\<close> is not \<open>const\<close> does not override \<open>Instruction::exec\<close>, so a call
  through the base class runs the empty \<open>Datagram::exec\<close>.
\<close>

section \<open>Instruction classes\<close>

text \<open>What the router can receive; a \<open>char\<close> array is its bytes.\<close>

datatype router_inst =
  ChangeZoneRcvd int int int
| GetServerIpRvcd int "byte list" "byte list"
| SetZoneToServerRcvd int int
| AddUserRcvd int int int
| DelUserRcvd int
| SetAddUserRcvd int int
| SetDelUserRcvd int int
| EndZoneTransferRcvd int
| ConnectUserRcvd int int

definition cls_ChangeZoneRcvd :: dclass where
  "cls_ChangeZoneRcvd =
     \<lparr>dc_name = ''ChangeZoneRcvd'', dc_fields = [FInt, FInt, FInt], dc_exec = True\<rparr>"

definition cls_GetServerIpRvcd :: dclass where
  "cls_GetServerIpRvcd =
     \<lparr>dc_name = ''GetServerIpRvcd'', dc_fields = [FInt, FChars 16, FChars 5], dc_exec = True\<rparr>"

definition cls_SetZoneToServerRcvd :: dclass where
  "cls_SetZoneToServerRcvd =
     \<lparr>dc_name = ''SetZoneToServerRcvd'', dc_fields = [FInt, FInt], dc_exec = True\<rparr>"

definition cls_AddUserRcvd :: dclass where
  "cls_AddUserRcvd = \<lparr>dc_name = ''AddUserRcvd'', dc_fields = [FInt, FInt, FInt], dc_exec = True\<rparr>"

definition cls_DelUserRcvd :: dclass where
  "cls_DelUserRcvd = \<lparr>dc_name = ''DelUserRcvd'', dc_fields = [FInt], dc_exec = True\<rparr>"

definition cls_ConnectUserRcvd :: dclass where
  "cls_ConnectUserRcvd = \<lparr>dc_name = ''ConnectUserRcvd'', dc_fields = [FInt, FInt], dc_exec = True\<rparr>"

definition cls_SetAddUserRcvd :: dclass where
  "cls_SetAddUserRcvd = \<lparr>dc_name = ''SetAddUserRcvd'', dc_fields = [FInt, FInt], dc_exec = False\<rparr>"

definition cls_SetDelUserRcvd :: dclass where
  "cls_SetDelUserRcvd = \<lparr>dc_name = ''SetDelUserRcvd'', dc_fields = [FInt, FInt], dc_exec = False\<rparr>"

definition cls_EndZoneTransferRcvd :: dclass where
  "cls_EndZoneTransferRcvd =
     \<lparr>dc_name = ''EndZoneTransferRcvd'', dc_fields = [FInt], dc_exec = False\<rparr>"

definition cls_GetServerIpSend :: dclass where
  "cls_GetServerIpSend = \<lparr>dc_name = ''GetServerIpSend'', dc_fields = [FInt], dc_exec = False\<rparr>"

definition cls_AddRouterSend :: dclass where
  "cls_AddRouterSend = \<lparr>dc_name = ''AddRouterSend'', dc_fields = [], dc_exec = False\<rparr>"

definition cls_ConnectCLientSend :: dclass where
  "cls_ConnectCLientSend =
     \<lparr>dc_name = ''ConnectCLientSend'', dc_fields = [FInt, FInt], dc_exec = False\<rparr>"

lemmas router_classes =
  cls_ChangeZoneRcvd_def cls_GetServerIpRvcd_def cls_SetZoneToServerRcvd_def cls_AddUserRcvd_def
  cls_DelUserRcvd_def cls_ConnectUserRcvd_def cls_SetAddUserRcvd_def cls_SetDelUserRcvd_def
  cls_EndZoneTransferRcvd_def cls_GetServerIpSend_def cls_AddRouterSend_def
  cls_ConnectCLientSend_def

text \<open>RouterProfile.cpp, in the order of its \<open>push_back\<close> calls.\<close>

definition RouterProfile :: profile where
  "RouterProfile = \<lparr>
     pf_creators = [(5, cls_ChangeZoneRcvd), (6, cls_GetServerIpRvcd), (7, cls_SetZoneToServerRcvd),
       (60, cls_AddUserRcvd), (61, cls_DelUserRcvd), (8, cls_SetAddUserRcvd),
       (9, cls_SetDelUserRcvd), (155, cls_EndZoneTransferRcvd), (200, cls_ConnectUserRcvd)],
     pf_ids = [(''GetServerIpSend'', 1), (''AddUserSend'', 8), (''DelUserSend'', 9),
       (''AddRouterSend'', 150), (''ConnectCLientSend'', 201)]\<rparr>"

text \<open>The object a creator made, as an instruction of this process.\<close>

fun router_inst_of :: "string \<Rightarrow> fval list \<Rightarrow> router_inst option" where
  "router_inst_of n [VInt a, VChars ip, VChars port] =
     (if n = ''GetServerIpRvcd'' then Some (GetServerIpRvcd (sint a) ip port) else None)"
| "router_inst_of n [VInt a, VInt b, VInt c] =
     (if n = ''ChangeZoneRcvd'' then Some (ChangeZoneRcvd (sint a) (sint b) (sint c))
      else if n = ''AddUserRcvd'' then Some (AddUserRcvd (sint a) (sint b) (sint c))
      else None)"
| "router_inst_of n [VInt a, VInt b] =
     (if n = ''SetZoneToServerRcvd'' then Some (SetZoneToServerRcvd (sint a) (sint b))
      else if n = ''SetAddUserRcvd'' then Some (SetAddUserRcvd (sint a) (sint b))
      else if n = ''SetDelUserRcvd'' then Some (SetDelUserRcvd (sint a) (sint b))
      else if n = ''ConnectUserRcvd'' then Some (ConnectUserRcvd (sint a) (sint b))
      else None)"
| "router_inst_of n [VInt a] =
     (if n = ''DelUserRcvd'' then Some (DelUserRcvd (sint a))
      else if n = ''EndZoneTransferRcvd'' then Some (EndZoneTransferRcvd (sint a))
      else None)"
| "router_inst_of n _ = None"

section \<open>Executing\<close>

text \<open>\<open>connect\<close> is called on the connection that the answer came from: one the control listener
  accepted, which has no socket and no context of its own, so what \<open>connect\<close> reads there is
  whatever the members \<open>sock\<close> and \<open>ctx\<close> happen to hold. The model records the call.\<close>

definition GetServerIpRvcd_exec ::
    "int \<Rightarrow> byte list \<Rightarrow> byte list \<Rightarrow> cid \<Rightarrow> cid \<Rightarrow> router \<Rightarrow> router result" where
  "GetServerIpRvcd_exec mServerId mIpServer mPortServer newConn c r =
     bindR (read_cstr mIpServer) (\<lambda>ip.
     bindR (read_cstr mPortServer) (\<lambda>port.
     bindR (rt_do [EvConnect c ip port] r) (rt_connectServer mServerId newConn)))"

definition SetZoneToServerRcvd_exec :: "int \<Rightarrow> int \<Rightarrow> cid \<Rightarrow> router \<Rightarrow> router result" where
  "SetZoneToServerRcvd_exec mIdServer mIdZone c r =
     bindR (if mIdServer \<noteq> -1
            then rt_do [EvAnswer c (GetServerIpMsg mIdServer)] (rt_addServer mIdServer r)
            else Inr r)
       (\<lambda>r1. let r2 = (if mIdZone \<noteq> -1 then rt_addZone mIdZone r1 else r1)
        in bindR (rt_startZoneToServerTransfer mIdZone mIdServer r2)
             (rt_endZoneToServerTransfer mIdZone))"

definition AddUserRcvd_exec :: "int \<Rightarrow> int \<Rightarrow> int \<Rightarrow> router \<Rightarrow> router result" where
  "AddUserRcvd_exec mIdUser mToken mZoneId r =
     bindR (rt_addUser mIdUser mToken r) (rt_setUserToZone mIdUser mZoneId)"

definition DelUserRcvd_exec :: "int \<Rightarrow> router \<Rightarrow> router result" where
  "DelUserRcvd_exec mUserId r = rt_delUser mUserId r"

definition ConnectUserRcvd_exec :: "int \<Rightarrow> int \<Rightarrow> cid \<Rightarrow> router \<Rightarrow> router result" where
  "ConnectUserRcvd_exec mUserId mToken c r =
     bindR (rt_connectUser mUserId mToken c r)
       (rt_do [EvAnswer c (ConnectClientMsg mUserId mToken)])"

text \<open>The virtual call; \<open>newConn\<close> names the connection object the handler may create.\<close>

fun router_exec :: "router_inst \<Rightarrow> cid \<Rightarrow> cid \<Rightarrow> router \<Rightarrow> router result" where
  "router_exec (ChangeZoneRcvd z s d) newConn c r = Inr r"
| "router_exec (GetServerIpRvcd s ip port) newConn c r = GetServerIpRvcd_exec s ip port newConn c r"
| "router_exec (SetZoneToServerRcvd s z) newConn c r = SetZoneToServerRcvd_exec s z c r"
| "router_exec (AddUserRcvd i t z) newConn c r = AddUserRcvd_exec i t z r"
| "router_exec (DelUserRcvd i) newConn c r = DelUserRcvd_exec i r"
| "router_exec (SetAddUserRcvd i z) newConn c r = Inr r"
| "router_exec (SetDelUserRcvd i z) newConn c r = Inr r"
| "router_exec (EndZoneTransferRcvd z) newConn c r = Inr r"
| "router_exec (ConnectUserRcvd i t) newConn c r = ConnectUserRcvd_exec i t c r"

text \<open>The listeners, given a pointer that may be null. The client listener hands the object to
  the users of the server whose id is the object's target.\<close>

definition ControlListener_callback ::
    "router_inst option \<Rightarrow> cid \<Rightarrow> cid \<Rightarrow> router \<Rightarrow> router result" where
  "ControlListener_callback received newConn c r =
     (case received of None \<Rightarrow> Inr r | Some t \<Rightarrow> router_exec t newConn c r)"

definition ServerListener_callback ::
    "router_inst option \<Rightarrow> cid \<Rightarrow> cid \<Rightarrow> router \<Rightarrow> router result" where
  "ServerListener_callback received newConn c r =
     (case received of None \<Rightarrow> Inr r | Some t \<Rightarrow> router_exec t newConn c r)"

definition ClientListener_callback :: "(router_inst \<times> nat) option \<Rightarrow> cid \<Rightarrow> router \<Rightarrow> router result" where
  "ClientListener_callback received c r =
     (case received of None \<Rightarrow> Inr r
      | Some (t, obj) \<Rightarrow> rt_sendToServerUsers dg_targetId (Relayed obj) r)"

section \<open>Reachable states\<close>

text \<open>What the two connection managers of main.cpp make of the router: messages of the control
  server and of the game clients, in any order and from any connection. The server listener
  is installed on no manager.\<close>

inductive router_reach :: "router \<Rightarrow> bool" where
  reach_init: "router_reach router_new"
| reach_control: "router_reach r \<Longrightarrow> ControlListener_callback m newConn c r = Inr r' \<Longrightarrow> router_reach r'"
| reach_client: "router_reach r \<Longrightarrow> ClientListener_callback m' c r = Inr r' \<Longrightarrow> router_reach r'"

definition rt_unowned :: "router \<Rightarrow> bool" where
  "rt_unowned r \<longleftrightarrow>
     (\<forall>a z. st_look (rt_zheap r) a = Some z \<longrightarrow> rz_server z = -1 \<and> rz_users z = []) \<and>
     (\<forall>a u. st_look (rt_uheap r) a = Some u \<longrightarrow> ru_zone u = -1) \<and>
     mp_find (rt_servers r) (-1) = None \<and>
     (\<forall>s srv. mp_find (rt_servers r) s = Some srv \<longrightarrow> rs_zones srv = []) \<and>
     mp_find (rt_zones r) (-1) = None"

lemma rt_unownedD:
  assumes "rt_unowned r"
  shows "st_look (rt_zheap r) a = Some z \<Longrightarrow> rz_server z = -1"
    and "st_look (rt_zheap r) a = Some z \<Longrightarrow> rz_users z = []"
    and "st_look (rt_uheap r) a = Some u \<Longrightarrow> ru_zone u = -1"
    and "mp_find (rt_servers r) s = Some srv \<Longrightarrow> rs_zones srv = []"
    and "mp_find (rt_servers r) (-1) = None"
    and "mp_find (rt_zones r) (-1) = None"
  using assms unfolding rt_unowned_def by auto

lemma unowned_new: "rt_unowned router_new"
  by (simp add: rt_unowned_def router_new_def)

lemma unowned_emit [simp]: "rt_unowned (rt_emit es r) = rt_unowned r"
  by (simp add: rt_unowned_def)

lemma unowned_addServer: "rt_unowned r \<Longrightarrow> s \<noteq> -1 \<Longrightarrow> rt_unowned (rt_addServer s r)"
  by (simp add: rt_unowned_def rt_addServer_def server_new_def)

lemma unowned_connectServer:
  "rt_unowned r \<Longrightarrow> rt_connectServer s c r = Inr r' \<Longrightarrow> rt_unowned r'"
  by (cases "mp_find (rt_servers r) s")
     (auto simp: rt_connectServer_def server_connection_def rt_do_Inr rt_unowned_def)

lemma unowned_addZone:
  assumes r: "rt_unowned r" and k: "k \<noteq> -1"
  shows "rt_unowned (rt_addZone k r)"
proof -
  obtain a h where new: "st_new (zone_new k) (rt_zheap r) = (a, h)" by fastforce
  have "st_look h b = (if b = a then Some (zone_new k) else st_look (rt_zheap r) b)" for b
    using st.look_new [OF new] by simp
  with r k new show ?thesis
    by (auto simp: rt_addZone_def rt_unowned_def zone_new_def split: if_splits)
qed

lemma unowned_start:
  assumes "rt_unowned r" and "rt_startZoneToServerTransfer k s r = Inr r'"
  shows "rt_unowned r'"
  using assms
  by (cases "mp_find (rt_zones r) k"; cases "mp_find (rt_servers r) s")
     (auto simp: rt_startZoneToServerTransfer_def bindR_eq_Inr rt_unowned_def zone_set_newServer_def
       split: if_splits)

lemma unowned_end:
  assumes r: "rt_unowned r" and e: "rt_endZoneToServerTransfer k r = Inr r'"
  shows "r' = r"
proof (cases "mp_find (rt_zones r) k")
  case None
  with e show ?thesis by (simp add: rt_endZoneToServerTransfer_def)
next
  case (Some a)
  with e obtain z where z: "st_look (rt_zheap r) a = Some z"
    by (auto simp: rt_endZoneToServerTransfer_def bindR_eq_Inr)
  have "mp_find (rt_servers r) (rz_server z) = None"
    using rt_unownedD(1,5) [OF r] z by simp
  with rt_end_unowned [OF Some z] e show ?thesis by simp
qed

lemma unowned_addUser:
  assumes r: "rt_unowned r" and e: "rt_addUser i t r = Inr r'"
  shows "rt_unowned r'"
proof (cases "mp_find (rt_users r) i")
  case None
  obtain a h where new: "st_new (user_new i t) (rt_uheap r) = (a, h)" by fastforce
  have "st_look h b = (if b = a then Some (user_new i t) else st_look (rt_uheap r) b)" for b
    using st.look_new [OF new] by simp
  with r None new e show ?thesis
    by (auto simp: rt_addUser_def rt_unowned_def user_new_def split: if_splits)
next
  case (Some a)
  with r e show ?thesis
    by (auto simp: rt_addUser_def bindR_eq_Inr rt_unowned_def user_set_token_def split: if_splits)
qed

text \<open>A user's zone is never in the zone map, so \<open>setUserToZone\<close> on an existing user and zone
  dereferences \<open>end()\<close>.\<close>

lemma rt_setUserToZone_skips:
  "mp_find (rt_users r) i = None \<or> mp_find (rt_zones r) k = None \<Longrightarrow> rt_setUserToZone i k r = Inr r"
  by (cases "mp_find (rt_users r) i"; cases "mp_find (rt_zones r) k")
     (simp_all add: rt_setUserToZone_def)

lemma unowned_setUserToZone_faults:
  assumes r: "rt_unowned r" and "mp_find (rt_users r) i = Some ua" and "mp_find (rt_zones r) k = Some za"
  shows "\<exists>e. rt_setUserToZone i k r = Inl (UB e) \<and> e \<in> {EndDeref, UseAfterFree}"
proof (cases "st_look (rt_uheap r) ua")
  case None
  with assms(2,3) show ?thesis by (simp add: rt_setUserToZone_def rt_getUser_def st_get_freed)
next
  case (Some u)
  with rt_unownedD(3,6) [OF r] have "mp_find (rt_zones r) (ru_zone u) = None" by simp
  with assms(2,3) Some show ?thesis
    by (cases "st_look (rt_zheap r) za")
       (simp_all add: rt_setUserToZone_def rt_getUser_live rt_getZone_def st_get_def Let_def)
qed

lemma unowned_setUserToZone:
  "rt_unowned r \<Longrightarrow> rt_setUserToZone i k r = Inr r' \<Longrightarrow> r' = r"
  using rt_setUserToZone_skips unowned_setUserToZone_faults by (metis Inl_Inr_False Inr_inject not_Some_eq)

lemma unowned_validate_connect:
  assumes r: "rt_unowned r" and e: "rt_connectUser i t c r = Inr r'"
  shows "rt_unowned r'"
proof (cases "mp_find (rt_users r) i")
  case None
  with r e show ?thesis by (simp add: rt_connectUser_def)
next
  case (Some a)
  with e obtain u where u: "st_look (rt_uheap r) a = Some u"
    by (auto simp: rt_connectUser_def bindR_eq_Inr)
  have keep: "rt_unowned (rt_putUser a v r)" if "ru_zone v = ru_zone u" for v
    using r u that by (auto simp: rt_unowned_def split: if_splits)
  show ?thesis
    using e Some u keep
    by (cases "t = 0")
       (auto simp: rt_connectUser_def rt_getUser_live user_validate_def user_connection_def rt_do_Inr)
qed

lemma unowned_deleteUser:
  "rt_unowned r \<Longrightarrow> rt_deleteUser a r = Inr r' \<Longrightarrow> rt_unowned r'"
  by (auto simp: rt_deleteUser_def bindR_eq_Inr rt_do_Inr rt_unowned_def st.look_delete
      split: if_splits)

lemma unowned_delUser:
  assumes r: "rt_unowned r" and e: "rt_delUser i r = Inr r'"
  shows "rt_unowned r'"
proof (cases "mp_find (rt_users r) i")
  case None
  with r e show ?thesis by (simp add: rt_delUser_def)
next
  case (Some a)
  with e obtain u where u: "st_look (rt_uheap r) a = Some u"
    by (auto simp: rt_delUser_def bindR_eq_Inr)
  with rt_unownedD(3,6) [OF r] have "mp_find (rt_zones r) (ru_zone u) = None" by simp
  with Some u e have "rt_deleteUser a r = Inr r'" by (simp add: rt_delUser_def rt_getUser_live)
  with r show ?thesis by (rule unowned_deleteUser)
qed

lemma unowned_exec:
  assumes r: "rt_unowned r" and e: "router_exec m newConn c r = Inr r'"
  shows "rt_unowned r'"
proof (cases m)
  case (GetServerIpRvcd s ip port)
  with e obtain i p where "rt_connectServer s newConn (rt_emit [EvConnect c i p] r) = Inr r'"
    by (auto simp: GetServerIpRvcd_exec_def bindR_eq_Inr rt_do_Inr)
  with r show ?thesis using unowned_connectServer [of "rt_emit [EvConnect c i p] r"] by simp
next
  case (SetZoneToServerRcvd s z)
  from e SetZoneToServerRcvd obtain r1 where
    r1: "(if s \<noteq> -1 then rt_do [EvAnswer c (GetServerIpMsg s)] (rt_addServer s r) else Inr r) = Inr r1"
    and rest: "(let r2 = (if z \<noteq> -1 then rt_addZone z r1 else r1)
      in bindR (rt_startZoneToServerTransfer z s r2) (rt_endZoneToServerTransfer z)) = Inr r'"
    by (auto simp: SetZoneToServerRcvd_exec_def bindR_eq_Inr simp del: if_split_asm split del: if_split)
  define r2 where "r2 = (if z \<noteq> -1 then rt_addZone z r1 else r1)"
  have "rt_unowned r1" using r r1 by (auto simp: rt_do_Inr unowned_addServer split: if_splits)
  then have r2: "rt_unowned r2" by (simp add: r2_def unowned_addZone)
  from rest obtain r3 where "rt_startZoneToServerTransfer z s r2 = Inr r3"
    and "rt_endZoneToServerTransfer z r3 = Inr r'"
    by (auto simp: r2_def [symmetric] Let_def bindR_eq_Inr)
  with unowned_start [OF r2] unowned_end show ?thesis by blast
next
  case (AddUserRcvd i t z)
  with e obtain r1 where "rt_addUser i t r = Inr r1" and "rt_setUserToZone i z r1 = Inr r'"
    by (auto simp: AddUserRcvd_exec_def bindR_eq_Inr)
  with unowned_addUser [OF r] unowned_setUserToZone show ?thesis by blast
next
  case (DelUserRcvd i)
  with r e show ?thesis by (simp add: DelUserRcvd_exec_def unowned_delUser)
next
  case (ConnectUserRcvd i t)
  with e obtain r1 where "rt_connectUser i t c r = Inr r1"
    and "r' = rt_emit [EvAnswer c (ConnectClientMsg i t)] r1"
    by (auto simp: ConnectUserRcvd_exec_def bindR_eq_Inr rt_do_Inr)
  with unowned_validate_connect [OF r] show ?thesis by simp
qed (use r e in simp_all)

lemma ClientListener_no_effect:
  "rt_unowned r \<Longrightarrow> ClientListener_callback m c r = Inr r"
  using rt_unownedD(5) [of r]
  by (auto simp: ClientListener_callback_def rt_sendToServerUsers_def dg_targetId_def split: option.splits)

lemma reach_unowned: "router_reach r \<Longrightarrow> rt_unowned r"
proof (induction rule: router_reach.induct)
  case reach_init
  then show ?case by (rule unowned_new)
next
  case (reach_control r m newConn c r')
  then show ?case by (cases m) (auto simp: ControlListener_callback_def unowned_exec)
next
  case (reach_client r m' c r')
  then show ?case using ClientListener_no_effect by fastforce
qed

section \<open>Properties\<close>

text \<open>C27. In every state the router can reach from its two ports, no zone has a server and no zone
  has a user: \<open>SetZoneToServer\<close> starts a transfer whose old server is -1, which the guard
  against -1 keeps out of the server map, so ending the transfer never does anything. Every
  server's zone map is empty.\<close>

theorem router_never_assigns_zones:
  assumes "router_reach r"
  shows "(st_look (rt_zheap r) a = Some z \<longrightarrow> rz_server z = -1 \<and> rz_users z = []) \<and>
    (mp_find (rt_servers r) s = Some srv \<longrightarrow> rs_zones srv = [])"
  using reach_unowned [OF assms] by (auto simp: rt_unowned_def)

definition ex_routed :: router where
  "ex_routed = (case foldR (\<lambda>r m. ControlListener_callback (Some m) 9 2 r)
     [SetZoneToServerRcvd 1 4, AddUserRcvd 8 55 9] router_new of Inr r \<Rightarrow> r | Inl _ \<Rightarrow> router_new)"

lemma ex_routed_value: "ex_routed =
    \<lparr>rt_servers = [(1, server_new 1)], rt_zones = [(4, 0)], rt_users = [(8, 0)],
     rt_zheap = \<lparr>st_objs = [(0, (zone_new 4)\<lparr>rz_newServer := 1, rz_inTransfer := True\<rparr>)], st_next = 1\<rparr>,
     rt_uheap = \<lparr>st_objs = [(0, user_new 8 55)], st_next = 1\<rparr>,
     rt_events = [EvAnswer 2 (GetServerIpMsg 1)]\<rparr>"
  unfolding ex_routed_def by code_simp

lemma ControlListener_reach:
  "router_reach r \<Longrightarrow> foldR (\<lambda>r m. ControlListener_callback (Some m) nc c r) ms r = Inr r' \<Longrightarrow>
   router_reach r'"
  by (rule foldR_invariant [where P = router_reach and xs = ms and s = r]) (auto intro: reach_control)

lemma ex_routed_reach: "router_reach ex_routed"
proof (rule ControlListener_reach [OF reach_init])
  show "foldR (\<lambda>r m. ControlListener_callback (Some m) 9 2 r)
     [SetZoneToServerRcvd 1 4, AddUserRcvd 8 55 9] router_new = Inr ex_routed"
    unfolding ex_routed_def by code_simp
qed

theorem router_never_assigns_zones_witness:
  "\<exists>z. st_look (rt_zheap ex_routed) 0 = Some z \<and> rz_newServer z = 1 \<and> rz_server z = -1"
  using router_never_assigns_zones [OF ex_routed_reach, of 0]
  by (auto simp: ex_routed_value st_look_def)

text \<open>The client port does nothing: whatever a client sends, in every reachable state, the
  router neither executes it nor relays it, and its state and its connections stay as they
  are. A client can therefore never be attached to its user.\<close>

lemma client_port_inert:
  assumes "router_reach r"
  shows "ClientListener_callback m c r = Inr r"
  using reach_unowned [OF assms] by (rule ClientListener_no_effect)

lemma client_port_inert_example:
  "ClientListener_callback (Some (ConnectUserRcvd 8 55, 0)) 5 ex_routed = Inr ex_routed"
  using client_port_inert [OF ex_routed_reach] by simp

text \<open>Adding a user: in every reachable state, \<open>AddUser\<close> for a zone the router does not know
  registers a new user with the token and leaves it in no zone, and \<open>AddUser\<close> for a zone the
  router does know runs into undefined behaviour.\<close>

lemma AddUser_outcome:
  assumes "router_reach r"
  shows "(mp_find (rt_zones r) z = None \<longrightarrow> mp_find (rt_users r) i = None \<longrightarrow>
      (\<exists>r' a. router_exec (AddUserRcvd i t z) newConn c r = Inr r' \<and>
        rt_users r' = mp_assign i a (rt_users r) \<and> st_look (rt_uheap r') a = Some (user_new i t))) \<and>
    (mp_find (rt_zones r) z \<noteq> None \<longrightarrow>
      (\<exists>e. router_exec (AddUserRcvd i t z) newConn c r = Inl (UB e)))"
proof (intro conjI impI)
  assume z: "mp_find (rt_zones r) z = None" and i: "mp_find (rt_users r) i = None"
  obtain a h where new: "st_new (user_new i t) (rt_uheap r) = (a, h)" by fastforce
  let ?r = "r\<lparr>rt_uheap := h, rt_users := mp_assign i a (rt_users r)\<rparr>"
  have "router_exec (AddUserRcvd i t z) newConn c r = Inr ?r"
    using i z new rt_setUserToZone_skips [of ?r i z] by (simp add: AddUserRcvd_exec_def rt_addUser_def)
  then show "\<exists>r' a. router_exec (AddUserRcvd i t z) newConn c r = Inr r' \<and>
      rt_users r' = mp_assign i a (rt_users r) \<and> st_look (rt_uheap r') a = Some (user_new i t)"
    using st.look_new [OF new] by (intro exI [of _ ?r] exI [of _ a]) simp
next
  assume "mp_find (rt_zones r) z \<noteq> None"
  then obtain za where za: "mp_find (rt_zones r) z = Some za" by auto
  show "\<exists>e. router_exec (AddUserRcvd i t z) newConn c r = Inl (UB e)"
  proof (cases "rt_addUser i t r")
    case (Inl e)
    then have "e = UB UseAfterFree"
      by (cases "mp_find (rt_users r) i")
         (auto simp: rt_addUser_def rt_getUser_def st_get_def ofOption_def bindR_eq_Inl st_new_def
           split: option.splits)
    with Inl show ?thesis by (simp add: AddUserRcvd_exec_def)
  next
    case (Inr r1)
    then have "rt_zones r1 = rt_zones r" and "mp_find (rt_users r1) i \<noteq> None"
      by (cases "mp_find (rt_users r) i"; auto simp: rt_addUser_def bindR_eq_Inr st_new_def Let_def)+
    with za unowned_setUserToZone_faults [OF unowned_addUser [OF reach_unowned [OF assms] Inr]] Inr
    show ?thesis by (fastforce simp: AddUserRcvd_exec_def)
  qed
qed

lemma AddUser_outcome_example:
  "\<exists>e. router_exec (AddUserRcvd 7 1 4) 9 2 ex_routed = Inl (UB e)"
  using AddUser_outcome [OF ex_routed_reach, of 4] by (simp add: ex_routed_value)

text \<open>In any well-formed state: afterwards the user is known with the token, and recorded in the
  zone when the router knows the zone. The one thing that can go wrong is that the router knows
  the zone but not the zone the user was in before.\<close>

lemma AddUser_registers:
  assumes wf: "rt_wf r"
  shows "(\<exists>r' a u. router_exec (AddUserRcvd i t z) newConn c r = Inr r' \<and> rt_wf r' \<and>
      mp_find (rt_users r') i = Some a \<and> st_look (rt_uheap r') a = Some u \<and> ru_token u = t \<and>
      (mp_find (rt_zones r) z \<noteq> None \<longrightarrow> ru_zone u = z)) \<or>
    (router_exec (AddUserRcvd i t z) newConn c r = Inl (UB EndDeref) \<and> mp_find (rt_zones r) z \<noteq> None)"
proof -
  obtain r1 where r1: "rt_addUser i t r = Inr r1" using rt_addUser_wf [OF rt_wf_ptr [OF wf]] by blast
  have wf1: "rt_wf r1" using rt_kept_wf [OF wf, of "AddUser i t" r1] r1 by simp
  have zones: "rt_zones r1 = rt_zones r"
    using r1 by (cases "mp_find (rt_users r) i"; auto simp: rt_addUser_def bindR_eq_Inr st_new_def Let_def)
  obtain a u where u: "mp_find (rt_users r1) i = Some a" "st_look (rt_uheap r1) a = Some u" "ru_token u = t"
  proof (cases "mp_find (rt_users r) i")
    case None
    obtain b h where new: "st_new (user_new i t) (rt_uheap r) = (b, h)" by fastforce
    from r1 None new have "r1 = r\<lparr>rt_uheap := h, rt_users := mp_assign i b (rt_users r)\<rparr>"
      by (simp add: rt_addUser_def)
    with st.look_new [OF new] that [of b "user_new i t"] show thesis by (simp add: user_new_def)
  next
    case (Some b)
    with r1 that show thesis by (auto simp: rt_addUser_def bindR_eq_Inr user_set_token_def)
  qed
  have exec: "router_exec (AddUserRcvd i t z) newConn c r = rt_setUserToZone i z r1"
    using r1 by (simp add: AddUserRcvd_exec_def)
  show ?thesis
  proof (cases "mp_find (rt_zones r) z")
    case None
    then have "rt_setUserToZone i z r1 = Inr r1" using zones by (intro rt_setUserToZone_skips) simp
    with exec wf1 u None show ?thesis by auto
  next
    case (Some za)
    from rt_setUserToZone_wf [OF rt_wf_ptr [OF wf1], of i z] show ?thesis
    proof
      assume "rt_setUserToZone i z r1 = Inl (UB EndDeref)"
      with exec Some show ?thesis by simp
    next
      assume "\<exists>r'. rt_setUserToZone i z r1 = Inr r' \<and> rt_ptr_wf r'"
      then obtain r2 where r2: "rt_setUserToZone i z r1 = Inr r2" by blast
      have "rt_wf r2" using rt_kept_wf [OF wf1, of "SetUserToZone i z" r2] r2 by simp
      moreover have "mp_find (rt_users r2) i = Some a \<and> st_look (rt_uheap r2) a = Some (user_set_zone z u)"
        using r2 u Some zones
        by (auto simp: rt_setUserToZone_def rt_getUser_live bindR_eq_Inr Let_def split: option.splits)
      ultimately show ?thesis using exec r2 u(3)
        by (intro disjI1 exI [of _ r2] exI [of _ a] exI [of _ "user_set_zone z u"])
           (simp add: user_set_zone_def)
    qed
  qed
qed

text \<open>The answer with a game server's address connects the wrong object: the handler calls
  \<open>connect\<close> on the connection the answer came from (the control server's), registers the
  fresh, unconnected object as the server's connection, and the \<open>AddRouter\<close> it hands to that
  object is dropped because its link is down. A port that fills its five bytes is read past
  its end.\<close>

lemma GetServerIp_connects_wrong_object:
  assumes "rt_wf r" and "mp_find (rt_servers r) s = Some srv" and "read_cstr ip = Inr i"
    and "c \<notin> rt_deleted r" and "newConn \<notin> rt_known r"
  shows "(read_cstr port = Inr p \<longrightarrow>
      (\<exists>r' srv'. router_exec (GetServerIpRvcd s ip port) newConn c r = Inr r' \<and>
        filter (\<lambda>e. \<exists>d x y. e = EvConnect d x y) (rt_events r') =
          filter (\<lambda>e. \<exists>d x y. e = EvConnect d x y) (rt_events r) @ [EvConnect c i p] \<and>
        last (rt_events r') = EvSend newConn AddRouterMsg \<and>
        mp_find (rt_servers r') s = Some srv' \<and> rs_conn srv' = Some newConn \<and>
        tcps_send behind f msg (tcps_new raw) = Ret (tcps_new raw))) \<and>
    (0 \<notin> set port \<longrightarrow> router_exec (GetServerIpRvcd s ip port) newConn c r = Inl (UB OutOfBounds))"
proof (intro conjI impI)
  assume "0 \<notin> set port"
  with assms(3) show "router_exec (GetServerIpRvcd s ip port) newConn c r = Inl (UB OutOfBounds)"
    by (simp add: GetServerIpRvcd_exec_def read_cstr_def)
next
  assume p: "read_cstr port = Inr p"
  have "tcps_send behind f msg (tcps_new raw) = Ret (tcps_new raw)"
    by (simp add: tcps_send_def tcps_new_def tcps_isLinkOnline_def tcps_setLinkOnline_def)
  moreover have "rs_conn srv = Some d \<Longrightarrow> EvDelete d \<notin> set (rt_events r) \<and> d \<noteq> newConn" for d
    using conns_live [OF rt_wf_conns [OF assms(1)], of "Inl s" d] assms(2,5)
    by (auto simp: rt_known_def dest: spec [of _ "Inl s"])
  ultimately show "\<exists>r' srv'. router_exec (GetServerIpRvcd s ip port) newConn c r = Inr r' \<and>
        filter (\<lambda>e. \<exists>d x y. e = EvConnect d x y) (rt_events r') =
          filter (\<lambda>e. \<exists>d x y. e = EvConnect d x y) (rt_events r) @ [EvConnect c i p] \<and>
        last (rt_events r') = EvSend newConn AddRouterMsg \<and>
        mp_find (rt_servers r') s = Some srv' \<and> rs_conn srv' = Some newConn \<and>
        tcps_send behind f msg (tcps_new raw) = Ret (tcps_new raw)"
    using assms p
    by (cases "rs_conn srv")
       (auto simp: GetServerIpRvcd_exec_def rt_connectServer_def server_connection_def rt_do_def
         rt_known_def rt_deleted_def)
qed

lemma GetServerIp_connects_wrong_object_at:
  "case router_exec (GetServerIpRvcd 1 [49, 0] [51, 52, 0]) 9 2 ex_routed of
    Inl e \<Rightarrow> False
  | Inr r' \<Rightarrow> rt_events r' =
      [EvAnswer 2 (GetServerIpMsg 1), EvConnect 2 ''1'' ''34'', EvSend 9 AddRouterMsg]"
  unfolding ex_routed_value by code_simp

end
