(* ===== verification/Game_Zone.thy ===== *)
theory Game_Zone
  imports Std_Map Binary64
begin

text \<open>
  The game inside a game server: the zone and its users (servjuego/src/Zone.cpp,
  servjuego/game/src/PXCZone.cpp), the game callback that moves them
  (servjuego/game/src/PXCGame.cpp, \<open>ZoneCallback\<close> in servjuego/src/ZoneHandler.cpp) and the
  \<open>ZoneHandler\<close> with its measuring loop (servjuego/include/Zone.h,
  servjuego/src/ZoneHandler.cpp).

  A user object is only pointed to by its zone's map and is kept there; a \<open>std::set<int>\<close> is
  a map to unit. \<open>time\<close> gives whole seconds: the seconds that pass between the two calls in
  one turn of the loop are an argument.
\<close>

section \<open>Users\<close>

type_synonym vec = "dbl \<times> dbl \<times> dbl"

record guser =
  gu_position :: vec
  gu_direction :: vec
  gu_destination :: vec
  gu_speed :: dbl

text \<open>\<open>normalizeDirection\<close> scales the destination.\<close>

definition guser_normalizeDirection :: "guser \<Rightarrow> guser" where
  "guser_normalizeDirection u =
     (case gu_destination u of (x, y, z) \<Rightarrow>
        let len = dsqrt (dadd (dadd (dmul x x) (dmul y y)) (dmul z z)) in
        if \<not> deq len (Fin 0) then u\<lparr>gu_destination := (ddiv x len, ddiv y len, ddiv z len)\<rparr> else u)"

definition guser_new :: "vec \<Rightarrow> vec \<Rightarrow> guser" where
  "guser_new p d = guser_normalizeDirection
     \<lparr>gu_position = p, gu_direction = d, gu_destination = (Fin 0, Fin 0, Fin 0), gu_speed = Fin 0\<rparr>"

definition guser_setDestination :: "vec \<Rightarrow> guser \<Rightarrow> guser" where
  "guser_setDestination dest u =
     (case (dest, gu_position u) of ((x, y, z), (px, py, pz)) \<Rightarrow>
        guser_normalizeDirection
          (u\<lparr>gu_destination := dest, gu_direction := (dsub x px, dsub y py, dsub z pz)\<rparr>))"

definition guser_update :: "dbl \<Rightarrow> guser \<Rightarrow> guser" where
  "guser_update step u =
     (case (gu_position u, gu_direction u, gu_destination u) of
        ((px, py, pz), (dx, dy, dz), (tx, ty, tz)) \<Rightarrow>
        let mv = (\<lambda>p d. dadd p (dmul (dmul d (gu_speed u)) step));
            x = mv px dx; y = mv py dy; z = mv pz dz;
            len = dsqrt (dsub (dadd (dsub (dadd (dsub x px) y) py) z) pz);
            maxLength = dsqrt (dsub (dadd (dsub (dadd (dsub tx px) ty) py) tz) pz) in
        if dlt maxLength len then u\<lparr>gu_position := (tx, ty, tz)\<rparr>
        else u\<lparr>gu_position := (x, y, z)\<rparr>)"

section \<open>Zones\<close>

record gzone =
  gz_id :: int
  gz_users :: "(int, unit) omap"
  gz_userData :: "(int, guser) omap"

definition gzone_new :: "int \<Rightarrow> gzone" where
  "gzone_new i = \<lparr>gz_id = i, gz_users = [], gz_userData = []\<rparr>"

definition gzone_hasUser :: "int \<Rightarrow> gzone \<Rightarrow> bool" where
  "gzone_hasUser i z = (mp_find (gz_users z) i \<noteq> None)"

definition gzone_addUser :: "int \<Rightarrow> gzone \<Rightarrow> gzone" where
  "gzone_addUser i z =
     (if \<not> gzone_hasUser i z
      then z\<lparr>gz_users := mp_insert i () (gz_users z),
             gz_userData := mp_assign i (guser_new (Fin 0, Fin 0, Fin 0) (Fin 1, Fin 0, Fin 0)) (gz_userData z)\<rparr>
      else z)"

text \<open>\<open>delete it->second\<close> needs the user's data to be in the map.\<close>

definition gzone_delUser :: "int \<Rightarrow> gzone \<Rightarrow> gzone result" where
  "gzone_delUser i z =
     (if gzone_hasUser i z
      then bindR (mp_erase_it i (gz_userData z))
             (\<lambda>d. Inr (z\<lparr>gz_users := mp_erase i (gz_users z), gz_userData := d\<rparr>))
      else Inr z)"

section \<open>The game\<close>

type_synonym game_inst = nat

record game =
  gm_zone :: gzone
  gm_instructions :: "(game_inst \<times> nat) list"
  gm_executed :: "(game_inst \<times> nat) list"

definition game_create :: "int \<Rightarrow> game" where
  "game_create zoneId = \<lparr>gm_zone = gzone_new zoneId, gm_instructions = [], gm_executed = []\<rparr>"

definition game_init :: "game \<Rightarrow> bool" where
  "game_init g = True"

definition game_gameStep :: "dbl \<Rightarrow> game \<Rightarrow> game \<times> bool" where
  "game_gameStep stepTime g =
     (g\<lparr>gm_zone := (gm_zone g)\<lparr>gz_userData :=
          map (\<lambda>p. (fst p, guser_update stepTime (snd p))) (gz_userData (gm_zone g))\<rparr>\<rparr>, True)"

text \<open>Every queued instruction is executed and deleted, front first.\<close>

definition game_execInstructions :: "game \<Rightarrow> game" where
  "game_execInstructions g =
     g\<lparr>gm_executed := gm_executed g @ gm_instructions g, gm_instructions := []\<rparr>"

definition game_step :: "dbl \<Rightarrow> game \<Rightarrow> game \<times> bool" where
  "game_step stepTime g =
     (let (g1, valid) = game_gameStep stepTime g in
      ((if valid then game_execInstructions g1 else g1), valid))"

definition game_addInstruction :: "game_inst option \<Rightarrow> nat \<Rightarrow> game \<Rightarrow> game" where
  "game_addInstruction ins c g =
     (case ins of None \<Rightarrow> g | Some i \<Rightarrow> g\<lparr>gm_instructions := gm_instructions g @ [(i, c)]\<rparr>)"

section \<open>The zone handler\<close>

definition TD_DEFAULT_BOUNDARY :: dbl where "TD_DEFAULT_BOUNDARY = rnd (75 / 100)"
definition TD_DEFAULT_CRITICAL_BOUNDARY :: dbl where "TD_DEFAULT_CRITICAL_BOUNDARY = rnd (9 / 10)"
definition TD_DEFAULT_DECREASER :: dbl where "TD_DEFAULT_DECREASER = rnd (9 / 10)"
definition DEFAULT_MIN_STEPS_PER_SEC :: dbl where "DEFAULT_MIN_STEPS_PER_SEC = Fin 25"
definition DEFAULT_MAX_STEPS_PER_SEC :: dbl where "DEFAULT_MAX_STEPS_PER_SEC = Fin 100"

record zhandler =
  zh_game :: game
  zh_detachable :: int
  zh_thread :: bool
  zh_maxSteps :: dbl
  zh_minSteps :: dbl
  zh_minStepTime :: dbl
  zh_maxStepTime :: dbl
  zh_tdBoundary :: dbl
  zh_tdCritical :: dbl
  zh_tdDelay :: dbl
  zh_tdDecreaser :: dbl
  zh_avgStepTime :: dbl
  zh_load :: dbl
  zh_run :: bool

definition zh_new :: "int \<Rightarrow> zhandler" where
  "zh_new zoneId = \<lparr>zh_game = game_create zoneId, zh_detachable = -1, zh_thread = False,
     zh_maxSteps = DEFAULT_MAX_STEPS_PER_SEC, zh_minSteps = DEFAULT_MIN_STEPS_PER_SEC,
     zh_minStepTime = ddiv (Fin 1) DEFAULT_MAX_STEPS_PER_SEC,
     zh_maxStepTime = ddiv (Fin 1) DEFAULT_MIN_STEPS_PER_SEC,
     zh_tdBoundary = TD_DEFAULT_BOUNDARY, zh_tdCritical = TD_DEFAULT_CRITICAL_BOUNDARY,
     zh_tdDelay = Fin 1, zh_tdDecreaser = TD_DEFAULT_DECREASER, zh_avgStepTime = Fin 0,
     zh_load = Fin 0, zh_run = False\<rparr>"

definition zh_setRun :: "bool \<Rightarrow> zhandler \<Rightarrow> zhandler" where
  "zh_setRun r h = h\<lparr>zh_run := r\<rparr>"

definition zh_zone :: "zhandler \<Rightarrow> gzone" where
  "zh_zone h = gm_zone (zh_game h)"

definition zh_set_minSteps :: "dbl \<Rightarrow> zhandler \<Rightarrow> zhandler" where
  "zh_set_minSteps x h = h\<lparr>zh_minSteps := x\<rparr>"

definition zh_set_maxSteps :: "dbl \<Rightarrow> zhandler \<Rightarrow> zhandler" where
  "zh_set_maxSteps x h = h\<lparr>zh_maxSteps := x\<rparr>"

definition zh_timeDilationBoundary :: "dbl \<Rightarrow> zhandler \<Rightarrow> zhandler" where
  "zh_timeDilationBoundary x h = h\<lparr>zh_tdBoundary := x\<rparr>"

definition zh_timeDilationCriticalBoundary :: "dbl \<Rightarrow> zhandler \<Rightarrow> zhandler" where
  "zh_timeDilationCriticalBoundary x h = h\<lparr>zh_tdCritical := x\<rparr>"

definition zh_timeDilationDecreaser :: "dbl \<Rightarrow> zhandler \<Rightarrow> zhandler" where
  "zh_timeDilationDecreaser x h = h\<lparr>zh_tdDecreaser := x\<rparr>"

definition zh_maskAsDetachable :: "int \<Rightarrow> zhandler \<Rightarrow> zhandler" where
  "zh_maskAsDetachable newServer h = h\<lparr>zh_detachable := newServer\<rparr>"

definition zh_start :: "zhandler \<Rightarrow> zhandler" where
  "zh_start h = (if zh_thread h then h else h\<lparr>zh_thread := True\<rparr>)"

definition zh_stop :: "zhandler \<Rightarrow> zhandler" where
  "zh_stop h = (zh_setRun False h)\<lparr>zh_thread := False\<rparr>"

text \<open>Queuing an instruction is not implemented in the handler.\<close>

definition zh_addInstruction :: "game_inst option \<Rightarrow> nat \<Rightarrow> zhandler \<Rightarrow> zhandler" where
  "zh_addInstruction ins c h = h"

definition zh_getLoad :: "zhandler \<Rightarrow> dbl" where
  "zh_getLoad h = zh_load h"

text \<open>The measurement taken once a second.\<close>

definition dclamp :: "dbl \<Rightarrow> dbl" where
  "dclamp l = (let l1 = (if dlt (Fin 1) l then Fin 1 else l) in if dlt l1 (Fin 0) then Fin 0 else l1)"

definition zh_measure :: "dbl \<Rightarrow> zhandler \<Rightarrow> zhandler" where
  "zh_measure avgStepTime h =
     (let load = dclamp (ddiv (dsub avgStepTime (zh_minStepTime h)) (dsub (zh_maxStepTime h) (zh_minStepTime h)));
          h1 = h\<lparr>zh_load := load\<rparr> in
      if dlt (zh_tdBoundary h1) load then h1\<lparr>zh_tdDelay := dmul (zh_tdDelay h1) (zh_tdDecreaser h1)\<rparr>
      else if dlt (zh_tdDelay h1) (Fin 1) \<and> dlt load (zh_tdBoundary h1) then h1\<lparr>zh_tdDelay := Fin 1\<rparr>
      else h1)"

text \<open>The loop's own variables and one turn of the loop, in which \<open>elapsed\<close> seconds pass. The
  nap of a turn that was too fast is \<open>usleep((unsigned int)(...) * 1000)\<close>, whose argument is
  zero, and the second \<open>difftime\<close> sees the same two times.\<close>

record zh_loop =
  zl_stepTime :: dbl
  zl_stepsPerSec :: int
  zl_timeTillSec :: dbl

definition zh_loop_init :: zh_loop where
  "zh_loop_init = \<lparr>zl_stepTime = Fin 0, zl_stepsPerSec = 0, zl_timeTillSec = Fin 0\<rparr>"

definition zh_gameTurn :: "zhandler \<times> zh_loop \<Rightarrow> zhandler" where
  "zh_gameTurn hl =
     (case game_step (dmul (zl_stepTime (snd hl)) (zh_tdDelay (fst hl))) (zh_game (fst hl)) of
        (g, valid) \<Rightarrow> zh_setRun valid ((fst hl)\<lparr>zh_game := g\<rparr>))"

text \<open>The counter of the steps is an \<open>int\<close> that starts again every second; the model's has no bound.\<close>

definition zh_afterStep :: "int \<Rightarrow> zhandler \<times> zh_loop \<Rightarrow> zhandler \<times> zh_loop" where
  "zh_afterStep elapsed hl = (let (h, l) = hl;
      stepTime = d_of_int elapsed;
      steps = zl_stepsPerSec l + 1;
      till = dadd (zl_timeTillSec l) stepTime in
      if dle (Fin 1) till
      then (zh_measure (ddiv till (d_of_int steps)) h,
            \<lparr>zl_stepTime = stepTime, zl_stepsPerSec = 0, zl_timeTillSec = Fin 0\<rparr>)
      else (h, \<lparr>zl_stepTime = stepTime, zl_stepsPerSec = steps, zl_timeTillSec = till\<rparr>))"

definition zh_turn :: "int \<Rightarrow> zhandler \<times> zh_loop \<Rightarrow> zhandler \<times> zh_loop" where
  "zh_turn elapsed hl =
     zh_afterStep elapsed (if zh_run (fst hl) then zh_gameTurn hl else fst hl, snd hl)"

text \<open>The thread: \<open>es\<close> are the seconds its turns take; it ends when it is told not to run, and
  this list of turns when it is used up.\<close>

fun zh_turns :: "int list \<Rightarrow> zhandler \<times> zh_loop \<Rightarrow> zhandler \<times> zh_loop" where
  "zh_turns [] hl = hl"
| "zh_turns (e # es) hl = (if zh_run (fst hl) then zh_turns es (zh_turn e hl) else hl)"

definition zh_startThread :: "int list \<Rightarrow> zhandler \<Rightarrow> zhandler" where
  "zh_startThread es h =
     (if \<not> game_init (zh_game h) then h else fst (zh_turns es (zh_setRun True h, zh_loop_init)))"

section \<open>The load measurement\<close>

lemma rnd_pos:
  assumes "0 < x" and "-1022 \<le> expo x" and "rnd x = Fin y"
  shows "0 < y"
proof -
  have "2 powi expo x \<le> \<bar>x\<bar>" using expo_bounds(1) [of x] assms by simp
  moreover have u: "ulp x = 2 powi (expo x) * 2 powi (-52)"
    using assms power_int_add [of "2 :: rat" "expo x" "-52"] by (simp add: ulp_def max_def)
  moreover have "(2 :: rat) powi (-52) \<le> 1" by (simp add: power_int_def power_one_over)
  ultimately have "ulp x \<le> x"
    using assms(1) mult_left_le [of "2 powi (-52)" "(2::rat) powi expo x"] by simp
  then have "1 \<le> x / ulp x" by (simp add: pos_le_divide_eq)
  then have "1 \<le> rne (x / ulp x)" using rne_ge [of 1] by simp
  then show ?thesis using assms(1,3) by (auto simp: rnd_def overflow_def split: if_splits)
qed

lemma fin_ok_1 [simp]: "fin_ok 1"
  using fin_ok_dyadic [of 1 1 0] by simp

lemma minStepTime_value: "ddiv (Fin 1) DEFAULT_MAX_STEPS_PER_SEC = Fin (5764607523034235 / 576460752303423488)"
  unfolding DEFAULT_MAX_STEPS_PER_SEC_def
  using rnd_eqI [of "-7" "1 / 100" 5764607523034235] fin_ok_bound [OF fin_ok_1] by (simp add: power_int_def power_one_over)

lemma maxStepTime_value: "ddiv (Fin 1) DEFAULT_MIN_STEPS_PER_SEC = Fin (5764607523034235 / 144115188075855872)"
  unfolding DEFAULT_MIN_STEPS_PER_SEC_def
  using rnd_eqI [of "-5" "1 / 25" 5764607523034235] fin_ok_bound [OF fin_ok_1] by (simp add: power_int_def power_one_over)

lemma width_value:
  "\<exists>w > 0. dsub (Fin (5764607523034235 / 144115188075855872)) (Fin (5764607523034235 / 576460752303423488)) = Fin w"
proof -
  let ?x = "17293822569102705 / 576460752303423488 :: rat"
  have e: "expo ?x = -6" by (rule expo_eqI) (simp_all add: power_int_def power_one_over)
  obtain y where "rnd ?x = Fin y"
    using rnd_between [of ?x 1] fin_ok_dyadic [of 1 1 0] by auto
  moreover have "0 < y" by (rule rnd_pos [OF _ _ \<open>rnd ?x = Fin y\<close>]) (simp_all add: e)
  ultimately show ?thesis by (simp add: dsub_def)
qed

lemma decreaser_value: "\<exists>c. TD_DEFAULT_DECREASER = Fin c \<and> 0 \<le> c \<and> c \<le> 1"
  unfolding TD_DEFAULT_DECREASER_def
  using rnd_between [of "9 / 10" 1] fin_ok_dyadic [of 1 1 0] by auto

lemma dclamp_between: "l \<noteq> NaN \<Longrightarrow> \<exists>q. dclamp l = Fin q \<and> 0 \<le> q \<and> q \<le> 1"
  by (cases l) (auto simp: dclamp_def Let_def)

text \<open>What the loop keeps of the handler.\<close>

definition zh_ok :: "zhandler \<Rightarrow> bool" where
  "zh_ok h = ((\<exists>m. zh_minStepTime h = Fin m)
     \<and> (\<exists>w > 0. dsub (zh_maxStepTime h) (zh_minStepTime h) = Fin w)
     \<and> (\<exists>c. zh_tdDecreaser h = Fin c \<and> 0 \<le> c \<and> c \<le> 1)
     \<and> (\<exists>q. zh_load h = Fin q \<and> 0 \<le> q \<and> q \<le> 1)
     \<and> (\<exists>d. zh_tdDelay h = Fin d \<and> fin_ok d \<and> 0 \<le> d \<and> d \<le> 1))"

text \<open>The clock does not go back, so whole seconds are measured as soon as one has passed.\<close>

definition zl_ok :: "zh_loop \<Rightarrow> bool" where
  "zl_ok l = (zl_timeTillSec l = Fin 0 \<and> 0 \<le> zl_stepsPerSec l
     \<and> (\<exists>k. zl_stepTime l = Fin (of_int k) \<and> 0 \<le> k \<and> k < 2 ^ 53))"

lemma zh_ok_new: "zh_ok (zh_new z)"
proof -
  have "\<exists>m. zh_minStepTime (zh_new z) = Fin m"
    by (rule exI, rule trans [OF _ minStepTime_value]) (simp add: zh_new_def)
  then show ?thesis
    unfolding zh_ok_def using width_value decreaser_value
    by (simp add: zh_new_def minStepTime_value maxStepTime_value)
qed

lemma zl_ok_init: "zl_ok zh_loop_init"
  by (auto simp: zl_ok_def zh_loop_init_def intro!: exI [of _ 0])

lemma rnd_not_nan [simp]: "rnd x \<noteq> NaN"
  by (simp add: rnd_def overflow_def)

lemma dsub_Fin_not_nan: "x \<noteq> NaN \<Longrightarrow> dsub x (Fin y) \<noteq> NaN"
  by (cases x) (auto simp: dsub_def)

lemma ddiv_Fin_not_nan: "x \<noteq> NaN \<Longrightarrow> y \<noteq> 0 \<Longrightarrow> ddiv x (Fin y) \<noteq> NaN"
  by (cases x) auto

lemma zh_ok_measure:
  assumes "zh_ok h" and "a \<noteq> NaN"
  shows "zh_ok (zh_measure a h)"
proof -
  obtain m w c q d where h: "zh_minStepTime h = Fin m" "0 < w"
      "dsub (zh_maxStepTime h) (zh_minStepTime h) = Fin w" "zh_tdDecreaser h = Fin c" "0 \<le> c" "c \<le> 1"
      "zh_load h = Fin q" "0 \<le> q" "q \<le> 1" "zh_tdDelay h = Fin d" "fin_ok d" "0 \<le> d" "d \<le> 1"
    using assms(1) by (auto simp: zh_ok_def)
  have "ddiv (dsub a (zh_minStepTime h)) (Fin w) \<noteq> NaN"
    using ddiv_Fin_not_nan [OF dsub_Fin_not_nan [OF assms(2)]] h by simp
  then obtain q' where q': "dclamp (ddiv (dsub a (zh_minStepTime h)) (Fin w)) = Fin q'" "0 \<le> q'" "q' \<le> 1"
    using dclamp_between by blast
  obtain d' where d': "dmul (Fin d) (Fin c) = Fin d'" "0 \<le> d'" "d' \<le> d" "fin_ok d'"
    using dmul_between [OF h(11,12) h(5,6)] by blast
  have r: "dmul (zh_tdDelay h) (zh_tdDecreaser h) = Fin d'" using h d' by simp
  let ?h = "h\<lparr>zh_load := Fin q'\<rparr>"
  have base: "zh_ok (?h\<lparr>zh_tdDelay := Fin x\<rparr>)" if "fin_ok x" "0 \<le> x" "x \<le> 1" for x
    using that h q' by (simp add: zh_ok_def)
  have same: "?h\<lparr>zh_tdDelay := Fin d\<rparr> = ?h" using h(10) by (cases h) simp
  show ?thesis
    unfolding zh_measure_def Let_def h(3) q'(1)
    using base [of d'] base [of 1] base [of d] same d' h(11-13) r by (simp del: dmul.simps)
qed

lemma zh_ok_gameTurn: "zh_ok (fst hl) \<Longrightarrow> zh_ok (zh_gameTurn hl)"
  by (simp add: zh_gameTurn_def zh_ok_def zh_setRun_def split: prod.splits)

lemma d_of_int_pos: "1 \<le> k \<Longrightarrow> d_of_int k = PInf \<or> (\<exists>y > 0. d_of_int k = Fin y)"
proof -
  assume k: "1 \<le> k"
  have e: "0 \<le> expo (of_int k)"
    using expo_mono [of 1 "of_int k"] k expo_eqI [of 0 1] by simp
  show ?thesis
  proof (cases "d_of_int k")
    case (Fin y)
    then show ?thesis using rnd_pos [of "of_int k" y] k e by (simp add: d_of_int_def)
  next
    case NInf
    have "0 \<le> rne (of_int k / ulp (of_int k))" using rne_ge [of 0] k by simp
    then have "0 \<le> of_int (rne (of_int k / ulp (of_int k))) * ulp (of_int k)" by simp
    then have "d_of_int k \<noteq> NInf"
      unfolding d_of_int_def rnd_def overflow_def
      using dbl_limit_pos by (auto simp del: dbl_limit_pos split: if_splits)
    with NInf show ?thesis by simp
  qed (simp_all add: d_of_int_def)
qed

lemma zh_ok_afterStep:
  assumes "zh_ok h" and "zl_ok l" and e: "0 \<le> e" "e < 2 ^ 53"
  shows "zh_ok (fst (zh_afterStep e (h, l))) \<and> zl_ok (snd (zh_afterStep e (h, l)))"
proof -
  have ex: "d_of_int e = Fin (of_int e)" using e by (intro d_of_int_exact) simp
  then have till: "dadd (zl_timeTillSec l) (d_of_int e) = Fin (of_int e)"
    using assms(2) by (simp add: zl_ok_def d_of_int_def)
  have steps: "1 \<le> zl_stepsPerSec l + 1" using assms(2) by (simp add: zl_ok_def)
  have "ddiv (Fin (of_int e)) (d_of_int (zl_stepsPerSec l + 1)) \<noteq> NaN"
    using d_of_int_pos [OF steps] by auto
  then have meas: "zh_ok (zh_measure (ddiv (Fin (of_int e)) (d_of_int (zl_stepsPerSec l + 1))) h)"
    by (rule zh_ok_measure [OF assms(1)])
  show ?thesis
  proof (cases "1 \<le> e")
    case True
    then have "dle (Fin 1) (Fin (of_int e))" by (auto simp: dle_def deq_def)
    then show ?thesis
      unfolding zh_afterStep_def Let_def prod.case till
      using meas e ex by (auto simp: zl_ok_def)
  next
    case False
    with e have "e = 0" by simp
    then have "\<not> dle (Fin 1) (Fin (of_int e))" by (simp add: dle_def deq_def)
    then show ?thesis
      unfolding zh_afterStep_def Let_def prod.case till
      using assms e ex \<open>e = 0\<close> by (auto simp: zl_ok_def)
  qed
qed

lemma zh_turns_induct:
  assumes step: "\<And>h l e. P h \<Longrightarrow> zl_ok l \<Longrightarrow> 0 \<le> e \<Longrightarrow> e < 2 ^ 53 \<Longrightarrow> P (fst (zh_afterStep e (h, l)))"
    and game: "\<And>h l. P h \<Longrightarrow> zl_ok l \<Longrightarrow> P (zh_gameTurn (h, l))"
    and ok: "\<And>h. P h \<Longrightarrow> zh_ok h"
    and start: "P h" "zl_ok l" and es: "\<forall>e \<in> set es. 0 \<le> e \<and> e < 2 ^ 53"
  shows "P (fst (zh_turns es (h, l)))"
  using start es
proof (induction es arbitrary: h l)
  case (Cons e es)
  let ?h = "if zh_run h then zh_gameTurn (h, l) else h"
  have h: "P ?h" using game Cons.prems by auto
  have e: "0 \<le> e" "e < 2 ^ 53" using Cons.prems by auto
  have "zl_ok (snd (zh_afterStep e (?h, l)))"
    using zh_ok_afterStep [OF ok [OF h] _ e, of l] Cons.prems by simp
  moreover have "P (fst (zh_afterStep e (?h, l)))" using step [OF h _ e, of l] Cons.prems by simp
  ultimately have "P (fst (zh_turns es (zh_afterStep e (?h, l))))"
    using Cons.IH [of "fst (zh_afterStep e (?h, l))" "snd (zh_afterStep e (?h, l))"] Cons.prems by simp
  then show ?case using Cons.prems by (cases "zh_run h") (simp_all add: zh_turn_def)
qed simp

lemma zh_ok_setRun [simp]: "zh_ok (zh_setRun b h) = zh_ok h"
  by (simp add: zh_ok_def zh_setRun_def)

text \<open>C24. The load a zone reports is a share between 0 and 1 and the time dilation factor stays
  between 0 and 1, finite numbers both, whatever seconds the turns of its thread take, as long
  as the clock does not go back (and no turn lasts \<open>2^53\<close> seconds).\<close>

theorem load_is_a_share:
  assumes "\<forall>e \<in> set es. 0 \<le> e \<and> e < 2 ^ 53"
  shows "\<exists>q d. zh_getLoad (zh_startThread es (zh_new z)) = Fin q \<and> 0 \<le> q \<and> q \<le> 1
    \<and> zh_tdDelay (zh_startThread es (zh_new z)) = Fin d \<and> 0 \<le> d \<and> d \<le> 1"
proof -
  have "zh_ok (fst (zh_turns es (zh_setRun True (zh_new z), zh_loop_init)))"
    using zh_turns_induct [of zh_ok, OF _ _ _ _ zl_ok_init assms, of "zh_setRun True (zh_new z)"]
      zh_ok_afterStep zh_ok_gameTurn zh_ok_new by fastforce
  then show ?thesis
    by (auto simp: zh_startThread_def game_init_def zh_getLoad_def zh_ok_def)
qed

theorem load_is_a_share_witness:
  "\<exists>q d. zh_getLoad (zh_startThread [0, 0, 1, 3, 0] (zh_new 7)) = Fin q \<and> 0 \<le> q \<and> q \<le> 1
    \<and> zh_tdDelay (zh_startThread [0, 0, 1, 3, 0] (zh_new 7)) = Fin d \<and> 0 \<le> d \<and> d \<le> 1"
  by (rule load_is_a_share) simp

section \<open>Users at rest\<close>

text \<open>A user whose speed is zero: every user a zone adds.\<close>

definition vec_ok :: "vec \<Rightarrow> bool" where
  "vec_ok v = (\<exists>x y z. v = (Fin x, Fin y, Fin z) \<and> fin_ok x \<and> fin_ok y \<and> fin_ok z)"

definition at_rest :: "guser \<Rightarrow> bool" where
  "at_rest u = (gu_speed u = Fin 0 \<and> vec_ok (gu_position u) \<and> vec_ok (gu_direction u))"

lemma at_rest_new: "vec_ok p \<Longrightarrow> vec_ok d \<Longrightarrow> at_rest (guser_new p d)"
  by (simp add: at_rest_def guser_new_def guser_normalizeDirection_def deq_def Let_def)

lemma not_negative_root: "\<not> dlt (dsqrt x) (Fin 0)"
proof (cases x)
  case (Fin q)
  show ?thesis
  proof (cases "0 < q")
    case True
    have "0 \<le> isqrt n" for n
      using isqrt_bounds [of n] isqrt.simps [of n] by (cases "0 \<le> n") auto
    then have s: "0 \<le> sqrt_rat q" by (simp add: sqrt_rat_def Let_def)
    have "0 \<le> rne (sqrt_rat q / ulp (sqrt_rat q))" using rne_ge [of 0] s by simp
    then have "0 \<le> of_int (rne (sqrt_rat q / ulp (sqrt_rat q))) * ulp (sqrt_rat q)" by simp
    then have "\<not> dlt (rnd (sqrt_rat q)) (Fin 0)"
      unfolding rnd_def overflow_def
      using dbl_limit_pos by (auto simp del: dbl_limit_pos)
    then show ?thesis using Fin True by simp
  qed (use Fin in auto)
qed auto

lemma guser_update_at_rest:
  assumes "at_rest u"
  shows "guser_update (Fin s) u = u"
proof -
  obtain px py pz dx dy dz where
    u: "gu_position u = (Fin px, Fin py, Fin pz)" "gu_direction u = (Fin dx, Fin dy, Fin dz)"
      "gu_speed u = Fin 0" "fin_ok px" "fin_ok py" "fin_ok pz"
    using assms by (auto simp: at_rest_def vec_ok_def)
  obtain tx ty tz where t: "gu_destination u = (tx, ty, tz)" by (metis prod_cases3)
  have zero: "dsqrt (dsub (dadd (dsub (dadd (dsub (Fin px) (Fin px)) (Fin py)) (Fin py)) (Fin pz)) (Fin pz)) = Fin 0"
    using u by (simp add: dsub_def rnd_exact)
  have "u\<lparr>gu_position := (Fin px, Fin py, Fin pz)\<rparr> = u" using u(1) by (cases u) simp
  moreover have "dadd (Fin p) (dmul (dmul (Fin d) (Fin 0)) (Fin s)) = Fin p" if "fin_ok p" for p d
    using that by (simp add: rnd_exact)
  ultimately show ?thesis
    unfolding guser_update_def u(1-3) t prod.case Let_def
    using u(4-6) zero not_negative_root by simp
qed

definition zone_at_rest :: "gzone \<Rightarrow> bool" where
  "zone_at_rest z = (\<forall>u \<in> snd ` set (gz_userData z). at_rest u)"

lemma zone_at_rest_new: "zone_at_rest (gzone_new i)"
  by (simp add: zone_at_rest_def gzone_new_def)

lemma zone_at_rest_addUser: "zone_at_rest z \<Longrightarrow> zone_at_rest (gzone_addUser i z)"
  using set_mp_assign [of i "guser_new (Fin 0, Fin 0, Fin 0) (Fin 1, Fin 0, Fin 0)" "gz_userData z"]
    at_rest_new [of "(Fin 0, Fin 0, Fin 0)" "(Fin 1, Fin 0, Fin 0)"]
  by (fastforce simp: zone_at_rest_def gzone_addUser_def vec_ok_def)

lemma game_step_at_rest:
  assumes "zone_at_rest (gm_zone g)"
  shows "gm_zone (fst (game_step (Fin s) g)) = gm_zone g"
proof -
  have "map (\<lambda>p. (fst p, guser_update (Fin s) (snd p))) (gz_userData (gm_zone g)) = gz_userData (gm_zone g)"
    using assms by (intro map_idI) (auto simp: zone_at_rest_def guser_update_at_rest)
  then show ?thesis by (simp add: game_step_def game_gameStep_def game_execInstructions_def)
qed

lemma dilated_step_finite:
  assumes "zh_ok h" and "zl_ok l"
  shows "\<exists>s. dmul (zl_stepTime l) (zh_tdDelay h) = Fin s"
proof -
  obtain k where k: "zl_stepTime l = Fin (of_int k)" "0 \<le> k" "k < 2 ^ 53"
    using assms(2) by (auto simp: zl_ok_def)
  obtain d where d: "zh_tdDelay h = Fin d" "0 \<le> d" "d \<le> 1"
    using assms(1) by (auto simp: zh_ok_def)
  have "fin_ok (of_int k)" using fin_ok_dyadic [of "of_int k" k 0] k by simp
  then show ?thesis using dmul_between [of "of_int k" d] k d by auto
qed

lemma zh_zone_afterStep: "zh_zone (fst (zh_afterStep e (h, l))) = zh_zone h"
  by (simp add: zh_afterStep_def Let_def zh_measure_def zh_zone_def)

lemma zh_zone_gameTurn:
  assumes "zh_ok h" and "zl_ok l" and "zone_at_rest (zh_zone h)"
  shows "zh_zone (zh_gameTurn (h, l)) = zh_zone h"
proof -
  obtain s where s: "dmul (zl_stepTime l) (zh_tdDelay h) = Fin s"
    using dilated_step_finite [OF assms(1,2)] by blast
  have "zone_at_rest (gm_zone (zh_game h))" using assms(3) by (simp add: zh_zone_def)
  from game_step_at_rest [OF this, of s] show ?thesis
    by (cases "game_step (Fin s) (zh_game h)") (simp add: zh_gameTurn_def s zh_setRun_def zh_zone_def)
qed

lemma zone_kept_at_rest:
  assumes es: "\<forall>e \<in> set es. 0 \<le> e \<and> e < 2 ^ 53" and "zh_ok h" and "zone_at_rest (zh_zone h)"
  shows "zh_zone (zh_startThread es h) = zh_zone h"
proof -
  let ?P = "\<lambda>h'. zh_ok h' \<and> zh_zone h' = zh_zone h"
  have "?P (fst (zh_turns es (zh_setRun True h, zh_loop_init)))"
  proof (rule zh_turns_induct [of ?P, OF _ _ _ _ zl_ok_init es])
    show "?P (fst (zh_afterStep e (h', l)))"
      if "?P h'" "zl_ok l" "0 \<le> e" "e < 2 ^ 53" for h' l e
      using that zh_ok_afterStep [of h' l e] zh_zone_afterStep by simp
    show "?P (zh_gameTurn (h', l))" if "?P h'" "zl_ok l" for h' l
      using that zh_ok_gameTurn [of "(h', l)"] zh_zone_gameTurn [of h' l] assms(3) by simp
    show "zh_ok h'" if "?P h'" for h' using that by simp
    have "zh_zone (zh_setRun True h) = zh_zone h" by (simp add: zh_zone_def zh_setRun_def)
    then show "?P (zh_setRun True h)" using assms(2) by simp
  qed
  then show ?thesis by (simp add: zh_startThread_def game_init_def)
qed

text \<open>The users that enter and leave a zone.\<close>

datatype zone_op = Enter int | Leave int

fun zone_exec :: "zone_op list \<Rightarrow> gzone \<Rightarrow> gzone result" where
  "zone_exec [] z = Inr z"
| "zone_exec (Enter u # ops) z = zone_exec ops (gzone_addUser u z)"
| "zone_exec (Leave u # ops) z = bindR (gzone_delUser u z) (zone_exec ops)"

definition zone_ok :: "gzone \<Rightarrow> bool" where
  "zone_ok z = (mp_ok (gz_users z) \<and> mp_ok (gz_userData z) \<and> zone_at_rest z
     \<and> (\<forall>u. (mp_find (gz_users z) u \<noteq> None) = (mp_find (gz_userData z) u \<noteq> None)))"

lemma zone_ok_new: "zone_ok (gzone_new i)"
  by (simp add: zone_ok_def gzone_new_def zone_at_rest_def)

lemma zone_ok_addUser:
  assumes "zone_ok z"
  shows "zone_ok (gzone_addUser u z)"
    and "gzone_hasUser v (gzone_addUser u z) = (v = u \<or> gzone_hasUser v z)"
  using assms zone_at_rest_addUser [of z u]
  by (auto simp: zone_ok_def gzone_addUser_def gzone_hasUser_def mp_ok_assign mp_ok_insert
      mp_find_insert)

lemma zone_ok_delUser:
  assumes "zone_ok z"
  shows "\<exists>z'. gzone_delUser u z = Inr z' \<and> zone_ok z'
    \<and> (\<forall>v. gzone_hasUser v z' = (v \<noteq> u \<and> gzone_hasUser v z))"
proof (cases "gzone_hasUser u z")
  case True
  then have "mp_find (gz_userData z) u \<noteq> None" using assms by (simp add: zone_ok_def gzone_hasUser_def)
  then have "gzone_delUser u z =
      Inr (z\<lparr>gz_users := mp_erase u (gz_users z), gz_userData := mp_erase u (gz_userData z)\<rparr>)"
    using True by (simp add: gzone_delUser_def mp_erase_it_def)
  moreover have "\<forall>d \<in> snd ` set (mp_erase u (gz_userData z)). at_rest d"
    using assms by (auto simp: mp_erase_def zone_ok_def zone_at_rest_def)
  ultimately show ?thesis
    using assms by (auto simp: zone_ok_def gzone_hasUser_def mp.ok_erase zone_at_rest_def)
next
  case False
  then show ?thesis using assms by (auto simp: gzone_delUser_def)
qed

text \<open>Who is in the zone: the last thing that happened to the user.\<close>

fun is_in :: "int \<Rightarrow> zone_op list \<Rightarrow> bool \<Rightarrow> bool" where
  "is_in u [] b = b"
| "is_in u (Enter v # ops) b = is_in u ops (u = v \<or> b)"
| "is_in u (Leave v # ops) b = is_in u ops (u \<noteq> v \<and> b)"

lemma zone_exec_ok:
  "zone_ok z \<Longrightarrow> \<exists>z'. zone_exec ops z = Inr z' \<and> zone_ok z'
    \<and> (\<forall>u. gzone_hasUser u z' = is_in u ops (gzone_hasUser u z))"
proof (induction ops arbitrary: z)
  case (Cons oper ops)
  show ?case
  proof (cases oper)
    case (Enter v)
    then show ?thesis
      using Cons.IH [OF zone_ok_addUser(1) [OF Cons.prems, of v]] zone_ok_addUser(2) [OF Cons.prems]
      by simp
  next
    case (Leave v)
    obtain z1 where z1: "gzone_delUser v z = Inr z1" "zone_ok z1"
        "\<forall>u. gzone_hasUser u z1 = (u \<noteq> v \<and> gzone_hasUser u z)"
      using zone_ok_delUser [OF Cons.prems] by blast
    then show ?thesis using Cons.IH [OF z1(2)] Leave by simp
  qed
qed simp

text \<open>C38. Whatever users enter and leave a zone, no delete or erase goes wrong, the users of the
  zone are those that entered last without leaving, and the game moves none of them: all
  have speed zero, so their data is after any run of the zone's thread as it was before.\<close>

theorem zone_users_never_move:
  assumes "\<forall>e \<in> set es. 0 \<le> e \<and> e < 2 ^ 53"
  shows "\<exists>zn. zone_exec ops (gzone_new z) = Inr zn \<and> (\<forall>u. gzone_hasUser u zn = is_in u ops False)
    \<and> zh_zone (zh_startThread es ((zh_new z)\<lparr>zh_game := (game_create z)\<lparr>gm_zone := zn\<rparr>\<rparr>)) = zn"
proof -
  obtain zn where zn: "zone_exec ops (gzone_new z) = Inr zn" "zone_ok zn"
      "\<forall>u. gzone_hasUser u zn = is_in u ops False"
    using zone_exec_ok [OF zone_ok_new, of ops z] by (auto simp: gzone_hasUser_def gzone_new_def)
  let ?h = "(zh_new z)\<lparr>zh_game := (game_create z)\<lparr>gm_zone := zn\<rparr>\<rparr>"
  have "zh_ok ?h" using zh_ok_new [of z] by (simp add: zh_ok_def)
  moreover have "zone_at_rest (zh_zone ?h)" using zn(2) by (simp add: zone_ok_def zh_zone_def)
  ultimately have "zh_zone (zh_startThread es ?h) = zh_zone ?h"
    by (rule zone_kept_at_rest [OF assms])
  then show ?thesis using zn by (simp add: zh_zone_def)
qed

theorem zone_users_never_move_witness:
  "\<exists>zn. zone_exec [Enter 4, Enter 9, Leave 4, Leave 2] (gzone_new 7) = Inr zn
    \<and> (\<forall>u. gzone_hasUser u zn = is_in u [Enter 4, Enter 9, Leave 4, Leave 2] False)
    \<and> zh_zone (zh_startThread [0, 1, 1] ((zh_new 7)\<lparr>zh_game := (game_create 7)\<lparr>gm_zone := zn\<rparr>\<rparr>)) = zn"
  by (rule zone_users_never_move) simp

section \<open>Stopping a zone's thread\<close>

text \<open>
  The thread and the call of \<open>stop\<close> that waits for it, interleaved: the thread's next point
  in \<open>startThread\<close> and where \<open>stop\<close> is. \<open>mRun\<close> is only read and written under
  \<open>mParamMutex\<close>, so each step reads or writes it once. The destructor clears it once more
  before it calls \<open>stop\<close>.
\<close>

datatype zpc = Entry | AtWhile | AtIf | InStep | Measuring | Ended
datatype stopper = NotCalled | Deleting | Joining | Joined

record zthread =
  zt_pc :: zpc
  zt_handler :: zhandler
  zt_loop :: zh_loop
  zt_stop :: stopper

definition zt_init :: "zhandler \<Rightarrow> zthread" where
  "zt_init h = \<lparr>zt_pc = Entry, zt_handler = h, zt_loop = zh_loop_init, zt_stop = NotCalled\<rparr>"

inductive zt_thread :: "zthread \<Rightarrow> zthread \<Rightarrow> bool" where
  zt_enter: "zt_pc t = Entry \<Longrightarrow> game_init (zh_game (zt_handler t)) \<Longrightarrow>
     zt_thread t (t\<lparr>zt_pc := AtWhile, zt_handler := zh_setRun True (zt_handler t)\<rparr>)"
| zt_while: "zt_pc t = AtWhile \<Longrightarrow>
     zt_thread t (t\<lparr>zt_pc := (if zh_run (zt_handler t) then AtIf else Ended)\<rparr>)"
| zt_if: "zt_pc t = AtIf \<Longrightarrow>
     zt_thread t (t\<lparr>zt_pc := (if zh_run (zt_handler t) then InStep else Measuring)\<rparr>)"
| zt_step: "zt_pc t = InStep \<Longrightarrow>
     zt_thread t (t\<lparr>zt_pc := Measuring, zt_handler := zh_gameTurn (zt_handler t, zt_loop t)\<rparr>)"
| zt_measure: "zt_pc t = Measuring \<Longrightarrow> zh_afterStep e (zt_handler t, zt_loop t) = (h, l) \<Longrightarrow>
     zt_thread t (t\<lparr>zt_pc := AtWhile, zt_handler := h, zt_loop := l\<rparr>)"

inductive zt_stopper :: "zthread \<Rightarrow> zthread \<Rightarrow> bool" where
  zt_delete: "zt_stop t = NotCalled \<Longrightarrow>
     zt_stopper t (t\<lparr>zt_stop := Deleting, zt_handler := zh_setRun False (zt_handler t)\<rparr>)"
| zt_call: "zt_stop t = NotCalled \<or> zt_stop t = Deleting \<Longrightarrow>
     zt_stopper t (t\<lparr>zt_stop := Joining, zt_handler := zh_setRun False (zt_handler t)\<rparr>)"
| zt_join: "zt_stop t = Joining \<Longrightarrow> zt_pc t = Ended \<Longrightarrow>
     zt_stopper t (t\<lparr>zt_stop := Joined, zt_handler := (zt_handler t)\<lparr>zh_thread := False\<rparr>\<rparr>)"

definition zt_any :: "zthread \<Rightarrow> zthread \<Rightarrow> bool" where
  "zt_any t t' = (zt_thread t t' \<or> zt_stopper t t')"

inductive_simps zt_thread_simps: "zt_thread t t'"
inductive_simps zt_stopper_simps: "zt_stopper t t'"

lemma gameTurn_keeps_running: "zh_run (zh_gameTurn hl)"
  by (simp add: zh_gameTurn_def game_step_def game_gameStep_def zh_setRun_def Let_def)

lemma afterStep_keeps_run: "zh_afterStep e (h, l) = (h', l') \<Longrightarrow> zh_run h' = zh_run h"
  by (auto simp: zh_afterStep_def Let_def zh_measure_def split: if_splits)

text \<open>Once the one call of \<open>stop\<close> has been made and the thread is on its way to run again, it
  runs for ever.\<close>

definition zt_stuck :: "zthread \<Rightarrow> bool" where
  "zt_stuck t = (zt_stop t = Joining \<and> zt_pc t \<noteq> Ended
     \<and> (zt_pc t = Entry \<or> zt_pc t = InStep \<or> zh_run (zt_handler t)))"

lemma zt_stuck_step: "zt_stuck t \<Longrightarrow> zt_any t t' \<Longrightarrow> zt_stuck t'"
  by (auto simp: zt_any_def zt_stuck_def zt_thread_simps zt_stopper_simps zh_setRun_def
      gameTurn_keeps_running afterStep_keeps_run)

lemma zt_stuck_run: "zt_any\<^sup>*\<^sup>* t t' \<Longrightarrow> zt_stuck t \<Longrightarrow> zt_stuck t'"
  by (induction rule: rtranclp_induct) (blast dest: zt_stuck_step)+

lemma zt_thread_any: "zt_thread t t' \<Longrightarrow> zt_any t t'"
  by (simp add: zt_any_def)

lemma ended_joins:
  assumes "zt_stop t = Joining" and "zt_pc t = Ended"
  shows "\<exists>t'. zt_any\<^sup>*\<^sup>* t t' \<and> zt_stop t' = Joined"
  using assms by (intro exI [of _ "t\<lparr>zt_stop := Joined, zt_handler := (zt_handler t)\<lparr>zh_thread := False\<rparr>\<rparr>"])
    (auto simp: zt_any_def intro!: r_into_rtranclp zt_join)

lemma at_while_joins:
  assumes "zt_stop t = Joining" and "zt_pc t = AtWhile" and "\<not> zh_run (zt_handler t)"
  shows "\<exists>t'. zt_any\<^sup>*\<^sup>* t t' \<and> zt_stop t' = Joined"
proof -
  have "zt_any t (t\<lparr>zt_pc := Ended\<rparr>)" using zt_while [of t] assms by (simp add: zt_any_def)
  moreover obtain t' where "zt_any\<^sup>*\<^sup>* (t\<lparr>zt_pc := Ended\<rparr>) t'" "zt_stop t' = Joined"
    using ended_joins [of "t\<lparr>zt_pc := Ended\<rparr>"] assms by auto
  ultimately show ?thesis by (blast intro: converse_rtranclp_into_rtranclp)
qed

lemma measuring_joins:
  assumes "zt_stop t = Joining" and "zt_pc t = Measuring" and "\<not> zh_run (zt_handler t)"
  shows "\<exists>t'. zt_any\<^sup>*\<^sup>* t t' \<and> zt_stop t' = Joined"
proof -
  obtain h l where hl: "zh_afterStep 0 (zt_handler t, zt_loop t) = (h, l)" by fastforce
  let ?u = "t\<lparr>zt_pc := AtWhile, zt_handler := h, zt_loop := l\<rparr>"
  have "zt_any t ?u" using zt_measure [OF assms(2) hl] by (simp add: zt_any_def)
  moreover obtain t' where "zt_any\<^sup>*\<^sup>* ?u t'" "zt_stop t' = Joined"
    using at_while_joins [of ?u] assms afterStep_keeps_run [OF hl] by auto
  ultimately show ?thesis by (blast intro: converse_rtranclp_into_rtranclp)
qed

lemma at_if_joins:
  assumes "zt_stop t = Joining" and "zt_pc t = AtIf" and "\<not> zh_run (zt_handler t)"
  shows "\<exists>t'. zt_any\<^sup>*\<^sup>* t t' \<and> zt_stop t' = Joined"
proof -
  have "zt_any t (t\<lparr>zt_pc := Measuring\<rparr>)" using zt_if [of t] assms by (simp add: zt_any_def)
  moreover obtain t' where "zt_any\<^sup>*\<^sup>* (t\<lparr>zt_pc := Measuring\<rparr>) t'" "zt_stop t' = Joined"
    using measuring_joins [of "t\<lparr>zt_pc := Measuring\<rparr>"] assms by auto
  ultimately show ?thesis by (blast intro: converse_rtranclp_into_rtranclp)
qed

text \<open>C9. \<open>stop\<close> can return exactly when its last clearing of the flag does not fall before the
  thread has entered its loop or while a game step runs: there the thread's own
  \<open>run(true)\<close> or \<open>run(mGame->step(...))\<close> overwrites the cleared flag, and the caller (which
  holds the zones' mutex in \<open>stopZone\<close> and \<open>stopAll\<close>) waits for a thread that never ends.\<close>

theorem stop_returns_iff:
  assumes "zt_stopper t t1" and "zt_stop t1 = Joining"
  shows "(\<exists>t2. zt_any\<^sup>*\<^sup>* t1 t2 \<and> zt_stop t2 = Joined) = (zt_pc t \<notin> {Entry, InStep})"
proof -
  have t1: "zt_pc t1 = zt_pc t" "\<not> zh_run (zt_handler t1)"
    using assms by (auto simp: zt_stopper_simps zh_setRun_def)
  show ?thesis
  proof
    assume "\<exists>t2. zt_any\<^sup>*\<^sup>* t1 t2 \<and> zt_stop t2 = Joined"
    then obtain t2 where t2: "zt_any\<^sup>*\<^sup>* t1 t2" "zt_stop t2 = Joined" by blast
    show "zt_pc t \<notin> {Entry, InStep}"
    proof
      assume "zt_pc t \<in> {Entry, InStep}"
      then have "zt_stuck t1" using assms(2) t1 by (auto simp: zt_stuck_def)
      from zt_stuck_run [OF t2(1) this] show False using t2(2) by (simp add: zt_stuck_def)
    qed
  next
    assume "zt_pc t \<notin> {Entry, InStep}"
    then show "\<exists>t2. zt_any\<^sup>*\<^sup>* t1 t2 \<and> zt_stop t2 = Joined"
      using assms(2) t1 ended_joins at_while_joins measuring_joins at_if_joins
      by (cases "zt_pc t1") auto
  qed
qed

lemma in_step_reached:
  "\<exists>t. zt_any\<^sup>*\<^sup>* (zt_init h) t \<and> zt_pc t = InStep \<and> zt_stop t = NotCalled"
proof -
  define t0 where "t0 = zt_init h"
  define t1 where "t1 = t0\<lparr>zt_pc := AtWhile, zt_handler := zh_setRun True (zt_handler t0)\<rparr>"
  define t2 where "t2 = t1\<lparr>zt_pc := AtIf\<rparr>"
  define t3 where "t3 = t2\<lparr>zt_pc := InStep\<rparr>"
  have "zt_any t0 t1" unfolding t1_def
    by (rule zt_thread_any, rule zt_enter) (simp_all add: t0_def zt_init_def game_init_def)
  moreover have "zt_any t1 t2"
    using zt_thread_any [OF zt_while [of t1]] by (simp add: t1_def t2_def zh_setRun_def)
  moreover have "zt_any t2 t3"
    using zt_thread_any [OF zt_if [of t2]] by (simp add: t1_def t2_def t3_def zh_setRun_def)
  ultimately have "zt_any\<^sup>*\<^sup>* t0 t3"
    by (blast intro: converse_rtranclp_into_rtranclp)
  moreover have "zt_pc t3 = InStep" "zt_stop t3 = NotCalled"
    by (simp_all add: t0_def t1_def t2_def t3_def zt_init_def)
  ultimately show ?thesis unfolding t0_def by blast
qed

theorem stop_returns_iff_witness:
  "\<exists>t t1. zt_any\<^sup>*\<^sup>* (zt_init (zh_new 3)) t \<and> zt_stopper t t1 \<and> zt_stop t1 = Joining
    \<and> \<not> (\<exists>t2. zt_any\<^sup>*\<^sup>* t1 t2 \<and> zt_stop t2 = Joined)"
proof -
  obtain t where t: "zt_any\<^sup>*\<^sup>* (zt_init (zh_new 3)) t" "zt_pc t = InStep" "zt_stop t = NotCalled"
    using in_step_reached [of "zh_new 3"] by blast
  define t1 where "t1 = t\<lparr>zt_stop := Joining, zt_handler := zh_setRun False (zt_handler t)\<rparr>"
  have t1: "zt_stopper t t1" "zt_stop t1 = Joining"
    unfolding t1_def using t(3) by (auto intro: zt_call)
  have "\<not> (\<exists>t2. zt_any\<^sup>*\<^sup>* t1 t2 \<and> zt_stop t2 = Joined)"
    using stop_returns_iff [OF t1] t(2) by blast
  with t(1) t1 show ?thesis by blast
qed

end
