(* ===== verification/Game_Server.thy ===== *)
theory Game_Server
  imports Game_Zone Connection
begin

text \<open>
  The game server around its zones: the singleton \<open>GameServer\<close> and its two listeners
  (servjuego/src/GameServer.cpp), the instructions of the control server and of the router
  (servjuego/src/InstControl.cpp, InstRouter.cpp) and their numbering
  (GameServerProfile.cpp).

  A zone is in the map with the local variables of its handler's thread. Connections are
  numbers; what is sent is collected in order.
\<close>

section \<open>State\<close>

type_synonym gconn = nat

datatype gs_msg =
  ServerLoadAnswerSend int int dbl int
| GetServerIpSend int
| EndZoneTransferSend int

datatype gs_inst =
  ServerLoadOrderRcvd
| SetZoneOrderRcvd int int
| GetZoneOrderRcvd int int
| SetServerIpRvcd int "byte list" "byte list"
| GsSetZoneToServerRcvd int int
| GsAddUserRcvd int int
| GsDelUserRcvd int int
| AddRouterRcvd

datatype gs_out = GsAnswer gconn gs_msg | GsSend gconn gs_msg

record gserver =
  gs_id :: int
  gs_zones :: "(int, zhandler \<times> zh_loop) omap"
  gs_clients :: "(int, int) omap"
  gs_routers :: "gconn list"
  gs_sent :: "gs_out list"

definition gs_new :: gserver where
  "gs_new = \<lparr>gs_id = -1, gs_zones = [], gs_clients = [], gs_routers = [], gs_sent = []\<rparr>"

section \<open>Operations\<close>

definition gs_hasZone :: "int \<Rightarrow> gserver \<Rightarrow> bool" where
  "gs_hasZone z s = (mp_find (gs_zones s) z \<noteq> None)"

text \<open>An id is only taken once.\<close>

definition gs_serverId :: "int \<Rightarrow> gserver \<Rightarrow> gserver" where
  "gs_serverId i s = s\<lparr>gs_id := (if gs_id s = -1 then i else gs_id s)\<rparr>"

definition gs_addClient :: "int \<Rightarrow> int \<Rightarrow> gserver \<Rightarrow> gserver" where
  "gs_addClient clientId clientZone s = s\<lparr>gs_clients := mp_assign clientId clientZone (gs_clients s)\<rparr>"

definition gs_delClient :: "int \<Rightarrow> gserver \<Rightarrow> gserver result" where
  "gs_delClient clientId s =
     (case mp_find (gs_clients s) clientId of
        None \<Rightarrow> Inr s
      | Some zone \<Rightarrow>
          bindR (case mp_find (gs_zones s) zone of
                   None \<Rightarrow> Inr s
                 | Some (h, l) \<Rightarrow>
                     bindR (gzone_delUser clientId (zh_zone h)) (\<lambda>z.
                       Inr (s\<lparr>gs_zones := mp_assign zone
                         (h\<lparr>zh_game := (zh_game h)\<lparr>gm_zone := z\<rparr>\<rparr>, l) (gs_zones s)\<rparr>)))
            (\<lambda>s1. Inr (s1\<lparr>gs_clients := mp_erase clientId (gs_clients s1)\<rparr>)))"

definition gs_startZone :: "int \<Rightarrow> gserver \<Rightarrow> gserver" where
  "gs_startZone zoneId s =
     (if mp_find (gs_zones s) zoneId = None
      then s\<lparr>gs_zones := mp_insert zoneId (zh_start (zh_new zoneId), zh_loop_init) (gs_zones s)\<rparr>
      else s)"

text \<open>\<open>stop\<close> joins the handler's thread: when the thread does not end (\<open>stop_returns_iff\<close> in
  Game_Zone says when that is so) the call does not return. The destructor calls \<open>stop\<close>, which
  has no thread to join when \<open>stop\<close> has been called before. \<open>ends\<close> says of every zone whether
  its thread ends once told to.\<close>

definition zh_stop_join :: "bool \<Rightarrow> zhandler \<Rightarrow> zhandler io" where
  "zh_stop_join ends h = (if zh_thread h \<and> \<not> ends then Pending else Ret (zh_stop h))"

definition zh_destroy :: "bool \<Rightarrow> zhandler \<Rightarrow> unit io" where
  "zh_destroy ends h = bindIO (zh_stop_join ends (zh_setRun False h)) (\<lambda>h1. Ret ())"

definition gs_stopZone :: "(int \<Rightarrow> bool) \<Rightarrow> int \<Rightarrow> bool \<Rightarrow> gserver \<Rightarrow> gserver io" where
  "gs_stopZone ends zoneId force s =
     (case mp_find (gs_zones s) zoneId of
        None \<Rightarrow> Ret s
      | Some (h, l) \<Rightarrow>
          if force \<or> zh_detachable h \<noteq> -1 then
            bindIO (zh_destroy (ends zoneId) h)
              (\<lambda>u. Ret (s\<lparr>gs_zones := mp_erase zoneId (gs_zones s)\<rparr>))
          else Ret s)"

fun gs_stop_loop :: "(int \<Rightarrow> bool) \<Rightarrow> (int, zhandler \<times> zh_loop) omap \<Rightarrow> unit io" where
  "gs_stop_loop ends [] = Ret ()"
| "gs_stop_loop ends ((z, h, l) # it) =
     bindIO (zh_stop_join (ends z) h)
       (\<lambda>h1. bindIO (zh_destroy (ends z) h1) (\<lambda>u. gs_stop_loop ends it))"

definition gs_stopAll :: "(int \<Rightarrow> bool) \<Rightarrow> gserver \<Rightarrow> gserver io" where
  "gs_stopAll ends s = bindIO (gs_stop_loop ends (gs_zones s)) (\<lambda>u. Ret (s\<lparr>gs_zones := []\<rparr>))"

definition gs_destroy :: "(int \<Rightarrow> bool) \<Rightarrow> gserver \<Rightarrow> gserver io" where
  "gs_destroy ends s = gs_stopAll ends s"

definition gs_markForDetach :: "int \<Rightarrow> int \<Rightarrow> gserver \<Rightarrow> gserver" where
  "gs_markForDetach zoneId idServer s =
     (case mp_find (gs_zones s) zoneId of
        None \<Rightarrow> s
      | Some (h, l) \<Rightarrow> s\<lparr>gs_zones := mp_assign zoneId (zh_maskAsDetachable idServer h, l) (gs_zones s)\<rparr>)"

text \<open>Two operations that only look the zone up.\<close>

definition gs_receiveZone :: "int \<Rightarrow> gconn \<Rightarrow> gserver \<Rightarrow> gserver" where
  "gs_receiveZone zoneId oldServer s = s"

definition gs_detachZone :: "int \<Rightarrow> gconn \<Rightarrow> gserver \<Rightarrow> gserver" where
  "gs_detachZone zoneId newServer s = s"

definition gs_queueInstruction :: "int \<Rightarrow> game_inst option \<Rightarrow> gconn \<Rightarrow> gserver \<Rightarrow> gserver" where
  "gs_queueInstruction idZone ins c s =
     (if ins = None then s
      else (case mp_find (gs_zones s) idZone of
              None \<Rightarrow> s
            | Some (h, l) \<Rightarrow>
                s\<lparr>gs_zones := mp_assign idZone (zh_addInstruction ins c h, l) (gs_zones s)\<rparr>))"

definition gs_addRouter :: "gconn option \<Rightarrow> gserver \<Rightarrow> gserver" where
  "gs_addRouter c s = (case c of None \<Rightarrow> s | Some r \<Rightarrow> s\<lparr>gs_routers := gs_routers s @ [r]\<rparr>)"

text \<open>One answer for every zone, counting down the zones that remain.\<close>

fun gs_loads_loop ::
    "int \<Rightarrow> (int, zhandler \<times> zh_loop) omap \<Rightarrow> int \<Rightarrow> gs_msg list" where
  "gs_loads_loop serverId [] remaining = []"
| "gs_loads_loop serverId ((idZone, h, l) # it) remaining =
     ServerLoadAnswerSend serverId idZone (zh_getLoad h) (remaining - 1)
       # gs_loads_loop serverId it (remaining - 1)"

definition gs_SendZoneLoads :: "gconn \<Rightarrow> gserver \<Rightarrow> gserver" where
  "gs_SendZoneLoads c s =
     s\<lparr>gs_sent := gs_sent s @
         map (GsAnswer c) (gs_loads_loop (gs_id s) (gs_zones s) (int (length (gs_zones s))))\<rparr>"

definition gs_sendToClients :: "gs_msg \<Rightarrow> gserver \<Rightarrow> gserver" where
  "gs_sendToClients t s = s\<lparr>gs_sent := gs_sent s @ map (\<lambda>r. GsSend r t) (gs_routers s)\<rparr>"

section \<open>Instructions\<close>

definition gcls :: "string \<Rightarrow> ftype list \<Rightarrow> bool \<Rightarrow> dclass" where
  "gcls n fs e = \<lparr>dc_name = n, dc_fields = fs, dc_exec = e\<rparr>"

definition cls_ServerLoadOrderRcvd :: dclass where
  "cls_ServerLoadOrderRcvd = gcls ''ServerLoadOrderRcvd'' [] True"
definition cls_SetZoneOrderRcvd :: dclass where
  "cls_SetZoneOrderRcvd = gcls ''SetZoneOrderRcvd'' [FInt, FInt] False"
definition cls_GetZoneOrderRcvd :: dclass where
  "cls_GetZoneOrderRcvd = gcls ''GetZoneOrderRcvd'' [FInt, FInt] False"
definition cls_SetServerIpRvcd :: dclass where
  "cls_SetServerIpRvcd = gcls ''SetServerIpRvcd'' [FInt, FChars 16, FChars 5] True"
definition cls_GsSetZoneToServerRcvd :: dclass where
  "cls_GsSetZoneToServerRcvd = gcls ''SetZoneToServerRcvd'' [FInt, FInt] True"
definition cls_GsAddUserRcvd :: dclass where
  "cls_GsAddUserRcvd = gcls ''AddUserRcvd'' [FInt, FInt] False"
definition cls_GsDelUserRcvd :: dclass where
  "cls_GsDelUserRcvd = gcls ''DelUserRcvd'' [FInt, FInt] False"
definition cls_AddRouterRcvd :: dclass where
  "cls_AddRouterRcvd = gcls ''AddRouterRcvd'' [] False"

definition GameServerProfile :: profile where
  "GameServerProfile = \<lparr>
     pf_creators = [(2, cls_ServerLoadOrderRcvd), (3, cls_SetZoneOrderRcvd), (4, cls_GetZoneOrderRcvd),
       (6, cls_SetServerIpRvcd), (7, cls_GsSetZoneToServerRcvd), (8, cls_GsAddUserRcvd),
       (9, cls_GsDelUserRcvd)],
     pf_ids = [(''ServerLoadAnswerSend'', 0), (''GetServerIpSend'', 1)]\<rparr>"

fun gs_class :: "gs_inst \<Rightarrow> dclass" where
  "gs_class ServerLoadOrderRcvd = cls_ServerLoadOrderRcvd"
| "gs_class (SetZoneOrderRcvd _ _) = cls_SetZoneOrderRcvd"
| "gs_class (GetZoneOrderRcvd _ _) = cls_GetZoneOrderRcvd"
| "gs_class (SetServerIpRvcd _ _ _) = cls_SetServerIpRvcd"
| "gs_class (GsSetZoneToServerRcvd _ _) = cls_GsSetZoneToServerRcvd"
| "gs_class (GsAddUserRcvd _ _) = cls_GsAddUserRcvd"
| "gs_class (GsDelUserRcvd _ _) = cls_GsDelUserRcvd"
| "gs_class AddRouterRcvd = cls_AddRouterRcvd"

definition GsSetZoneToServerRcvd_exec :: "int \<Rightarrow> int \<Rightarrow> gserver \<Rightarrow> gserver" where
  "GsSetZoneToServerRcvd_exec idZone idServer s =
     (let s1 = (if gs_id s = -1 then gs_serverId idServer s else s) in
      if gs_id s1 = idServer then gs_startZone idZone s1 else s1)"

definition ServerLoadOrderRcvd_exec :: "gconn \<Rightarrow> gserver \<Rightarrow> gserver" where
  "ServerLoadOrderRcvd_exec c s = gs_SendZoneLoads c s"

text \<open>The bodies of the classes' own \<open>exec\<close>.\<close>

fun gs_exec_body :: "gs_inst \<Rightarrow> gconn \<Rightarrow> gserver \<Rightarrow> gserver result" where
  "gs_exec_body ServerLoadOrderRcvd c s = Inr (ServerLoadOrderRcvd_exec c s)"
| "gs_exec_body (SetZoneOrderRcvd z d) c s = Inr s"
| "gs_exec_body (GetZoneOrderRcvd z d) c s = Inr s"
| "gs_exec_body (SetServerIpRvcd i ip port) c s = Inr s"
| "gs_exec_body (GsSetZoneToServerRcvd z sv) c s = Inr (GsSetZoneToServerRcvd_exec z sv s)"
| "gs_exec_body (GsAddUserRcvd u z) c s = Inr (gs_addClient u z s)"
| "gs_exec_body (GsDelUserRcvd u z) c s = gs_delClient u s"
| "gs_exec_body AddRouterRcvd c s = Inr (gs_addRouter (Some c) s)"

text \<open>The call through \<open>Transferable*\<close>: a class whose \<open>exec\<close> is not \<open>const\<close> does not override
  the one that is called.\<close>

definition gs_exec :: "gs_inst \<Rightarrow> gconn \<Rightarrow> gserver \<Rightarrow> gserver result" where
  "gs_exec i c s = (if dc_exec (gs_class i) then gs_exec_body i c s else Inr s)"

definition GsControlListener_callback :: "gs_inst option \<Rightarrow> gconn \<Rightarrow> gserver \<Rightarrow> gserver result" where
  "GsControlListener_callback received c s =
     (case received of None \<Rightarrow> Inr s | Some i \<Rightarrow> gs_exec i c s)"

text \<open>The router's instructions go to the zone they are meant for; no class overrides
  \<open>targetId\<close>. The number stands for the instruction object, which is not deleted.\<close>

definition GsRouterListener_callback ::
    "gs_inst option \<Rightarrow> game_inst \<Rightarrow> gconn \<Rightarrow> gserver \<Rightarrow> gserver result" where
  "GsRouterListener_callback received obj c s =
     (case received of None \<Rightarrow> Inr s
      | Some i \<Rightarrow> Inr (gs_queueInstruction dg_targetId (Some obj) c s))"

section \<open>Runs of the server\<close>

text \<open>What happens to a server: an instruction on its control port or its router port, a zone's
  thread that enters its loop, or one turn of a zone's thread that takes so many seconds.\<close>

datatype gs_event =
  OnControl gs_inst gconn
| OnRouter gs_inst game_inst gconn
| ThreadEnters int
| ThreadTurns int int

definition gs_upd :: "int \<Rightarrow> (zhandler \<times> zh_loop \<Rightarrow> zhandler \<times> zh_loop) \<Rightarrow> gserver \<Rightarrow> gserver" where
  "gs_upd z f s =
     (case mp_find (gs_zones s) z of None \<Rightarrow> s
      | Some hl \<Rightarrow> s\<lparr>gs_zones := mp_assign z (f hl) (gs_zones s)\<rparr>)"

fun gs_handle :: "gs_event \<Rightarrow> gserver \<Rightarrow> gserver result" where
  "gs_handle (OnControl i c) s = GsControlListener_callback (Some i) c s"
| "gs_handle (OnRouter i obj c) s = GsRouterListener_callback (Some i) obj c s"
| "gs_handle (ThreadEnters z) s = Inr (gs_upd z (\<lambda>(h, l). (zh_setRun True h, l)) s)"
| "gs_handle (ThreadTurns z e) s = Inr (gs_upd z (zh_turns [e]) s)"

definition gs_run :: "gs_event list \<Rightarrow> gserver \<Rightarrow> gserver result" where
  "gs_run evs s = foldR (\<lambda>s e. gs_handle e s) evs s"

section \<open>What a server hosts\<close>

fun gs_orders :: "gs_event list \<Rightarrow> (int \<times> int) list" where
  "gs_orders [] = []"
| "gs_orders (OnControl (GsSetZoneToServerRcvd z sv) c # evs) = (z, sv) # gs_orders evs"
| "gs_orders (_ # evs) = gs_orders evs"

definition no_users :: "gserver \<Rightarrow> bool" where
  "no_users s = (gs_clients s = [] \<and> gs_routers s = []
     \<and> (\<forall>z hl. mp_find (gs_zones s) z = Some hl \<longrightarrow> gz_users (zh_zone (fst hl)) = []))"

text \<open>A server without an id (-1) takes the first other id it is told. Until then, orders for the
  server -1 are orders for itself.\<close>

definition gs_before_id :: "(int \<times> int) list \<Rightarrow> (int \<times> int) list" where
  "gs_before_id orders = takeWhile (\<lambda>p. snd p = -1) orders"

definition gs_first_id :: "(int \<times> int) list \<Rightarrow> int" where
  "gs_first_id orders = (case dropWhile (\<lambda>p. snd p = -1) orders of [] \<Rightarrow> -1 | p # _ \<Rightarrow> snd p)"

definition gs_ids_from :: "int \<Rightarrow> (int \<times> int) list \<Rightarrow> int" where
  "gs_ids_from i orders = (if i = -1 then gs_first_id orders else i)"

definition gs_zones_from :: "int \<Rightarrow> (int \<times> int) list \<Rightarrow> int set" where
  "gs_zones_from i orders = {z. (z, gs_ids_from i orders) \<in> set orders} \<union>
     (if i = -1 then set (map fst (gs_before_id orders)) else {})"

lemma gs_from_Nil: "gs_ids_from i [] = i" "gs_zones_from i [] = {}"
  by (auto simp: gs_ids_from_def gs_zones_from_def gs_first_id_def gs_before_id_def)

lemma gs_from_Cons:
  fixes z sv :: int
  defines "own i \<equiv> (if i = -1 then sv else i)"
  shows "gs_ids_from i ((z, sv) # os) = gs_ids_from (own i) os"
    and "gs_zones_from i ((z, sv) # os) = (if sv = own i then {z} else {}) \<union> gs_zones_from (own i) os"
proof -
  show "gs_ids_from i ((z, sv) # os) = gs_ids_from (own i) os"
    by (simp add: gs_ids_from_def gs_first_id_def own_def)
  show "gs_zones_from i ((z, sv) # os) = (if sv = own i then {z} else {}) \<union> gs_zones_from (own i) os"
    by (cases "i = -1"; cases "sv = -1")
       (auto simp: gs_ids_from_def gs_zones_from_def gs_first_id_def gs_before_id_def own_def
         simp del: set_map)
qed

lemma zh_gameTurn_users: "gz_users (zh_zone (zh_gameTurn hl)) = gz_users (zh_zone (fst hl))"
  by (simp add: zh_gameTurn_def game_step_def game_gameStep_def game_execInstructions_def
      zh_setRun_def zh_zone_def)

lemma zh_turn_users: "gz_users (zh_zone (fst (zh_turn e hl))) = gz_users (zh_zone (fst hl))"
  by (simp add: zh_turn_def zh_zone_afterStep zh_gameTurn_users)

lemma gs_upd_no_users:
  assumes "no_users s" and f: "\<And>hl. gz_users (zh_zone (fst (f hl))) = gz_users (zh_zone (fst hl))"
  shows "no_users (gs_upd z f s) \<and> gs_id (gs_upd z f s) = gs_id s
    \<and> (\<forall>y. gs_hasZone y (gs_upd z f s) = gs_hasZone y s)"
proof (cases "mp_find (gs_zones s) z")
  case (Some hl)
  then have "gz_users (zh_zone (fst (f hl))) = []"
    unfolding f using assms(1) by (cases hl) (auto simp: no_users_def)
  then have "f hl = (a, b) \<Longrightarrow> gz_users (zh_zone a) = []" for a b by simp
  then show ?thesis using assms(1) Some by (auto simp: no_users_def gs_upd_def gs_hasZone_def)
qed (use assms(1) in \<open>simp add: gs_upd_def\<close>)

lemma gs_startZone_no_users:
  assumes "no_users s"
  shows "no_users (gs_startZone z s) \<and> gs_id (gs_startZone z s) = gs_id s
    \<and> (\<forall>y. gs_hasZone y (gs_startZone z s) = (y = z \<or> gs_hasZone y s))"
  using assms
  by (auto simp: no_users_def gs_startZone_def gs_hasZone_def zh_start_def zh_new_def zh_zone_def
      game_create_def gzone_new_def split: if_splits)

text \<open>Every event but an order of a zone leaves the zones and the id alone.\<close>

lemma gs_handle_other:
  assumes "no_users s" and "gs_orders [e] = []"
  shows "\<exists>s'. gs_handle e s = Inr s' \<and> no_users s' \<and> gs_id s' = gs_id s
    \<and> (\<forall>y. gs_hasZone y s' = gs_hasZone y s)"
proof (cases e)
  case (OnControl i c)
  then show ?thesis
    using assms
    by (cases i) (simp_all add: GsControlListener_callback_def gs_exec_def gcls_def
      cls_ServerLoadOrderRcvd_def cls_SetZoneOrderRcvd_def cls_GetZoneOrderRcvd_def
      cls_SetServerIpRvcd_def cls_GsAddUserRcvd_def cls_GsDelUserRcvd_def cls_AddRouterRcvd_def
      ServerLoadOrderRcvd_exec_def gs_SendZoneLoads_def no_users_def gs_hasZone_def)
next
  case (OnRouter i obj c)
  show ?thesis
    using assms OnRouter
    by (auto simp: GsRouterListener_callback_def gs_queueInstruction_def zh_addInstruction_def
      no_users_def gs_hasZone_def split: option.splits)
next
  case (ThreadEnters z)
  then show ?thesis
    using gs_upd_no_users [OF assms(1), of "\<lambda>(h, l). (zh_setRun True h, l)" z]
    by (simp add: zh_setRun_def zh_zone_def case_prod_beta)
next
  case (ThreadTurns z n)
  have "gz_users (zh_zone (fst (zh_turns [n] hl))) = gz_users (zh_zone (fst hl))" for hl
    by (simp add: zh_turn_users)
  then show ?thesis using gs_upd_no_users [OF assms(1), of "zh_turns [n]" z] ThreadTurns by simp
qed

lemma gs_handle_order:
  assumes "no_users s"
  shows "\<exists>s'. gs_handle (OnControl (GsSetZoneToServerRcvd z sv) c) s = Inr s' \<and> no_users s'
    \<and> gs_id s' = (if gs_id s = -1 then sv else gs_id s)
    \<and> (\<forall>y. gs_hasZone y s' = (gs_hasZone y s \<or> y = z \<and> sv = gs_id s'))"
proof -
  let ?s1 = "if gs_id s = -1 then gs_serverId sv s else s"
  have 1: "no_users ?s1" "gs_id ?s1 = (if gs_id s = -1 then sv else gs_id s)"
      "\<And>y. gs_hasZone y ?s1 = gs_hasZone y s"
    using assms by (simp_all add: no_users_def gs_serverId_def gs_hasZone_def)
  have ex: "gs_handle (OnControl (GsSetZoneToServerRcvd z sv) c) s
      = Inr (if gs_id ?s1 = sv then gs_startZone z ?s1 else ?s1)"
    by (simp add: GsControlListener_callback_def gs_exec_def cls_GsSetZoneToServerRcvd_def gcls_def
        GsSetZoneToServerRcvd_exec_def Let_def)
  show ?thesis
  proof (cases "gs_id ?s1 = sv")
    case True
    have "gs_handle (OnControl (GsSetZoneToServerRcvd z sv) c) s = Inr (gs_startZone z ?s1)"
      using ex True by simp
    then show ?thesis
      using gs_startZone_no_users [OF 1(1), of z] 1 True
      by (intro exI [of _ "gs_startZone z ?s1"]) auto
  next
    case False
    have "gs_handle (OnControl (GsSetZoneToServerRcvd z sv) c) s = Inr ?s1"
      using ex False by simp
    then show ?thesis using 1 False by (intro exI [of _ ?s1]) auto
  qed
qed

text \<open>The promise: a server is its id and the set of its zones; only an order changes them.\<close>

fun gs_spec :: "gs_event \<Rightarrow> int \<times> int set \<Rightarrow> int \<times> int set" where
  "gs_spec (OnControl (GsSetZoneToServerRcvd z sv) c) (i, zs) =
     (let own = (if i = -1 then sv else i) in (own, if sv = own then insert z zs else zs))"
| "gs_spec e izs = izs"

definition gs_abs :: "gserver \<Rightarrow> int \<times> int set" where
  "gs_abs s = (gs_id s, {z. gs_hasZone z s})"

lemma gs_spec_other: "gs_orders [e] = [] \<Longrightarrow> gs_spec e izs = izs"
  by (cases "[e]" rule: gs_orders.cases; cases izs) simp_all

interpretation gs: event_refinement gs_handle gs_spec gs_abs no_users "\<lambda>_ _. True"
proof (unfold_locales, goal_cases)
  case (1 s e)
  show ?case
  proof (cases "gs_orders [e] = []")
    case True
    then show ?thesis
      using gs_handle_other [OF 1(1) True] by (auto simp: gs_abs_def gs_spec_other)
  next
    case False
    then obtain z sv c where e: "e = OnControl (GsSetZoneToServerRcvd z sv) c"
      by (cases "[e]" rule: gs_orders.cases) auto
    from gs_handle_order [OF 1(1), of z sv c] e show ?thesis
      by (auto simp: gs_abs_def Let_def)
  qed
qed

lemma gs_orders_Cons: "gs_orders (e # evs) = gs_orders [e] @ gs_orders evs"
  by (cases "e # evs" rule: gs_orders.cases) simp_all

lemma all_events_ok: "all_ok (\<lambda>_ _. True) spec evs a"
  by (induction evs arbitrary: a) simp_all

lemma gs_spec_fold:
  "fold gs_spec evs (i, zs) = (gs_ids_from i (gs_orders evs), zs \<union> gs_zones_from i (gs_orders evs))"
proof (induction evs arbitrary: i zs)
  case Nil
  then show ?case by (simp add: gs_from_Nil)
next
  case (Cons e evs)
  note split = gs_orders_Cons [of e evs]
  show ?case
  proof (cases "gs_orders [e] = []")
    case True
    then show ?thesis using Cons.IH gs_spec_other [OF True] split by simp
  next
    case False
    then obtain z sv c where "e = OnControl (GsSetZoneToServerRcvd z sv) c"
      by (cases "[e]" rule: gs_orders.cases) auto
    then show ?thesis using Cons.IH by (auto simp: Let_def gs_from_Cons)
  qed
qed

lemma gs_hosts:
  "\<exists>s. gs_run evs gs_new = Inr s \<and> gs_id s = gs_first_id (gs_orders evs)
    \<and> (\<forall>z. gs_hasZone z s = ((z, gs_id s) \<in> set (gs_orders evs) \<or>
        z \<in> set (map fst (gs_before_id (gs_orders evs)))))
    \<and> gs_clients s = [] \<and> gs_routers s = []
    \<and> (\<forall>z h l. mp_find (gs_zones s) z = Some (h, l) \<longrightarrow> gz_users (zh_zone h) = [])"
proof -
  have init: "no_users gs_new" "gs_abs gs_new = (-1, {})"
    by (simp_all add: no_users_def gs_new_def gs_abs_def gs_hasZone_def)
  obtain s where s: "gs_run evs gs_new = Inr s" "no_users s" "gs_abs s = fold gs_spec evs (-1, {})"
    using gs.runs_simulate [OF init(1) all_events_ok] init(2) by (auto simp: gs_run_def)
  then have own: "gs_id s = gs_ids_from (-1) (gs_orders evs)"
    and zones: "{z. gs_hasZone z s} = gs_zones_from (-1) (gs_orders evs)"
    using gs_spec_fold [of evs "-1" "{}"] by (simp_all add: gs_abs_def)
  have "gs_hasZone z s = ((z, gs_id s) \<in> set (gs_orders evs) \<or>
      z \<in> set (map fst (gs_before_id (gs_orders evs))))" for z
    using zones own by (auto simp: gs_zones_from_def)
  with s(1,2) own show ?thesis by (auto simp: gs_ids_from_def no_users_def)
qed

text \<open>When no order carries the server id -1, the first order decides.\<close>

lemma gs_hosts_orders:
  assumes "\<forall>p \<in> set (gs_orders evs). snd p \<noteq> -1"
  shows "\<exists>s. gs_run evs gs_new = Inr s
    \<and> gs_id s = (case gs_orders evs of [] \<Rightarrow> -1 | p # _ \<Rightarrow> snd p)
    \<and> (\<forall>z. gs_hasZone z s = ((z, gs_id s) \<in> set (gs_orders evs)))"
proof -
  have "gs_before_id (gs_orders evs) = []"
    "gs_first_id (gs_orders evs) = (case gs_orders evs of [] \<Rightarrow> -1 | p # _ \<Rightarrow> snd p)"
    using assms by (cases "gs_orders evs"; simp add: gs_before_id_def gs_first_id_def)+
  with gs_hosts [of evs] show ?thesis by auto
qed

text \<open>C8. Whatever arrives on its two ports and however its threads run, a game server takes for its
  own the first server id other than -1 that a zone order carries (-1 when there is none). It
  hosts exactly the zones ordered for that id and, because a server without an id takes the
  orders for -1 for its own, the zones of the orders for -1 that came before it had an id. It
  never has a client, never has a router to send to, and none of its zones ever has a user,
  because the instructions that would add them declare an \<open>exec\<close> that the dispatch does not
  call.\<close>

theorem game_server_hosts_ordered_zones:
  "\<exists>s. gs_run evs gs_new = Inr s
    \<and> gs_id s = (case dropWhile (\<lambda>p. snd p = -1) (gs_orders evs) of [] \<Rightarrow> -1 | p # _ \<Rightarrow> snd p)
    \<and> (\<forall>z. gs_hasZone z s = ((z, gs_id s) \<in> set (gs_orders evs) \<or>
        z \<in> set (map fst (takeWhile (\<lambda>p. snd p = -1) (gs_orders evs)))))
    \<and> gs_clients s = [] \<and> gs_routers s = []
    \<and> (\<forall>z h l. mp_find (gs_zones s) z = Some (h, l) \<longrightarrow> gz_users (zh_zone h) = [])"
  using gs_hosts unfolding gs_first_id_def gs_before_id_def .

theorem game_server_hosts_ordered_zones_witness:
  "\<exists>s. gs_run [OnControl (GsSetZoneToServerRcvd 7 (-1)) 0, OnControl (GsSetZoneToServerRcvd 3 1) 0,
      OnControl (GsAddUserRcvd 5 3) 0, OnControl (GsSetZoneToServerRcvd 4 2) 0, ThreadEnters 3,
      ThreadTurns 3 1] gs_new = Inr s
    \<and> gs_id s = 1 \<and> gs_hasZone 7 s \<and> gs_hasZone 3 s \<and> \<not> gs_hasZone 4 s \<and> gs_clients s = []"
  using game_server_hosts_ordered_zones [of "[OnControl (GsSetZoneToServerRcvd 7 (-1)) 0,
      OnControl (GsSetZoneToServerRcvd 3 1) 0, OnControl (GsAddUserRcvd 5 3) 0,
      OnControl (GsSetZoneToServerRcvd 4 2) 0, ThreadEnters 3, ThreadTurns 3 1]"]
  by auto

section \<open>The load answers\<close>

lemma gs_loads_loop_nth:
  "gs_loads_loop i zs n = map (\<lambda>k. ServerLoadAnswerSend i (fst (zs ! k))
     (zh_getLoad (fst (snd (zs ! k)))) (n - 1 - int k)) [0..<length zs]"
proof (induction i zs n rule: gs_loads_loop.induct)
  case (2 i z h l it n)
  show ?case
    unfolding gs_loads_loop.simps 2 length_Cons upt_conv_Cons [OF zero_less_Suc]
    by (simp add: map_Suc_upt [symmetric] del: upt_Suc)
qed simp

text \<open>Asked for its loads, a server answers on the same connection once for every zone, in the
  order of the zone ids, with its id, the zone, the zone's load and the number of zones that
  are still to come: \<open>n-1\<close> first, 0 last; a server without a zone does not answer at all.\<close>

lemma loads_answered_counting_down:
  "gs_handle (OnControl ServerLoadOrderRcvd c) s = Inr (s\<lparr>gs_sent := gs_sent s @
     map (\<lambda>k. GsAnswer c (ServerLoadAnswerSend (gs_id s) (fst (gs_zones s ! k))
       (zh_getLoad (fst (snd (gs_zones s ! k)))) (int (length (gs_zones s)) - 1 - int k)))
       [0..<length (gs_zones s)]\<rparr>)"
  by (simp add: GsControlListener_callback_def gs_exec_def cls_ServerLoadOrderRcvd_def gcls_def
      ServerLoadOrderRcvd_exec_def gs_SendZoneLoads_def gs_loads_loop_nth comp_def)

section \<open>Giving a zone away\<close>

text \<open>A zone is only stopped when it is forced or has been marked for a new server before:
  unmarked it stays, marked with any server id but -1 it goes and nothing else changes, provided
  its thread ends.\<close>

lemma stopZone_needs_mark:
  assumes "mp_find (gs_zones s) z = Some (h, l)" and "zh_detachable h = -1" and "sv \<noteq> -1"
  shows "gs_stopZone ends z False s = Ret s"
    and "ends z \<Longrightarrow> \<exists>s'. gs_stopZone ends z False (gs_markForDetach z sv s) = Ret s' \<and>
      (\<forall>y. gs_hasZone y s' = (y \<noteq> z \<and> gs_hasZone y s))"
    and "ends z \<Longrightarrow> \<exists>s'. gs_stopZone ends z True s = Ret s' \<and>
      (\<forall>y. gs_hasZone y s' = (y \<noteq> z \<and> gs_hasZone y s))"
  using assms
  by (auto simp: gs_stopZone_def gs_markForDetach_def gs_hasZone_def zh_maskAsDetachable_def
      zh_destroy_def zh_stop_join_def)

text \<open>Stopping them all waits for every zone in turn: one zone whose thread does not end keeps
  the caller, and with it the mutex of the zones, for good; otherwise the map is empty.\<close>

lemma stopAll_waits_for_all:
  "gs_stopAll ends s =
     (if \<forall>(z, h, l)\<in>set (gs_zones s). zh_thread h \<longrightarrow> ends z then Ret (s\<lparr>gs_zones := []\<rparr>) else Pending)"
proof -
  have "gs_stop_loop ends zs = (if \<forall>(z, h, l)\<in>set zs. zh_thread h \<longrightarrow> ends z then Ret () else Pending)" for zs
    by (induction ends zs rule: gs_stop_loop.induct)
      (auto simp: zh_stop_join_def zh_destroy_def zh_stop_def zh_setRun_def)
  then show ?thesis by (auto simp: gs_stopAll_def)
qed

end
