(* ===== verification/Login_Server.thy ===== *)
theory Login_Server
  imports Std_Map Transferable
begin

text \<open>
  The login server: the singleton \<open>Login\<close> with its five maps of sessions
  (servlogin/include/Login.h, servlogin/src/Login.cpp), the requests it receives
  (LoginRequest.cpp, LogoutRequest.cpp, ControlConnection.cpp), the listener of closed
  connections (ClientClosedConnection.cpp) and the numbering of LoginProfile.cpp.

  The database is an argument: the number of rows a query's result has, or nothing when the
  query fails and \<open>mysql_store_result\<close> gives NULL, which \<open>mysql_num_rows\<close> reads. So is the
  SHA-1 of the library. What lies on the stack where the code reads without having written is the
  argument \<open>junk\<close>. Connections are numbers, and what is sent is collected in order.
\<close>

section \<open>State\<close>

type_synonym lconn = nat

text \<open>A number or a character that was never set is \<open>None\<close>.\<close>

datatype login_msg =
  LoginRequestSend int "byte option list" "byte option list" "int option" "int option"
| LogoutRequestSend int
| NewClientSend "int option" "int option"
| ClientDisconnectSend int int

record login =
  lg_control :: "lconn option"
  lg_nextFreeToken :: "32 word"
  lg_userToken :: "(int, int) omap"
  lg_idToConnection :: "(int, lconn) omap"
  lg_connectionToId :: "(lconn, int) omap"
  lg_userToId :: "(string, int) omap"
  lg_idToUser :: "(int, string) omap"
  lg_usersConnected :: "32 word"
  lg_sent :: "(lconn \<times> login_msg) list"

definition lg_initializeLogin :: login where
  "lg_initializeLogin = \<lparr>lg_control = None, lg_nextFreeToken = 0, lg_userToken = [],
     lg_idToConnection = [], lg_connectionToId = [], lg_userToId = [], lg_idToUser = [],
     lg_usersConnected = 0, lg_sent = []\<rparr>"

definition lg_emit :: "lconn \<Rightarrow> login_msg \<Rightarrow> login \<Rightarrow> login" where
  "lg_emit c m s = s\<lparr>lg_sent := lg_sent s @ [(c, m)]\<rparr>"

text \<open>\<open>if (controlConnected) controlConnection->sendAnswer(...)\<close>.\<close>

definition lg_tellControl :: "login_msg \<Rightarrow> login \<Rightarrow> login" where
  "lg_tellControl m s = (case lg_control s of None \<Rightarrow> s | Some c \<Rightarrow> lg_emit c m s)"

text \<open>\<open>m.find(k)->second\<close>.\<close>

definition lg_at :: "('k, 'v) omap \<Rightarrow> 'k \<Rightarrow> 'v result" where
  "lg_at m k = ofOption (UB EndDeref) (mp_find m k)"

section \<open>Checking a password\<close>

definition SHA_DIGEST_LENGTH :: nat where "SHA_DIGEST_LENGTH = 20"
definition ROUTER_IP :: string where "ROUTER_IP = ''127.0.0.1''"
definition ROUTER_PORT :: string where "ROUTER_PORT = ''3456''"
definition LG_IP_LENGTH :: nat where "LG_IP_LENGTH = 16"
definition LG_PORT_LENGTH :: nat where "LG_PORT_LENGTH = 5"

definition hex_digit :: "nat \<Rightarrow> char" where
  "hex_digit n = (if n < 10 then char_of (48 + n) else char_of (87 + n))"

text \<open>\<open>sprintf(&resultPwd[i*2], "%02x", obuf[i])\<close> writes two digits and the terminator.\<close>

definition sha_write :: "nat \<Rightarrow> byte \<Rightarrow> (nat \<times> char) list" where
  "sha_write i b = [(2 * i, hex_digit (unat b div 16)), (2 * i + 1, hex_digit (unat b mod 16)),
     (2 * i + 2, CHR 0x00)]"

definition sha_writes :: "byte list \<Rightarrow> (nat \<times> char) list" where
  "sha_writes obuf = concat (map (\<lambda>i. sha_write i (obuf ! i)) [0..<SHA_DIGEST_LENGTH])"

text \<open>The text read back from the buffer's \<open>2 * SHA_DIGEST_LENGTH\<close> characters. The last \<open>sprintf\<close>
  writes its terminator one byte behind the buffer, on every call, and the text is read back up
  to there. That is undefined behaviour; the model goes on as if the byte belonged to the buffer,
  since otherwise nothing could be said of any login.\<close>

definition hex_text :: "byte list \<Rightarrow> string" where
  "hex_text obuf = concat (map (\<lambda>b. [hex_digit (unat b div 16), hex_digit (unat b mod 16)])
     (take SHA_DIGEST_LENGTH obuf))"

definition hashed_bytes :: "(nat \<Rightarrow> byte) \<Rightarrow> string \<Rightarrow> nat \<Rightarrow> byte list" where
  "hashed_bytes junk pwd lengthPwd =
     take lengthPwd (map char_byte pwd @ 0 # map junk [0..<lengthPwd])"

definition lg_convertPwdToSha1 ::
    "(byte list \<Rightarrow> byte list) \<Rightarrow> (nat \<Rightarrow> byte) \<Rightarrow> string \<Rightarrow> nat \<Rightarrow> string result" where
  "lg_convertPwdToSha1 sha1 junk pwd lengthPwd =
     (if 2 * SHA_DIGEST_LENGTH < length pwd + 1 \<or> 2 * SHA_DIGEST_LENGTH < lengthPwd
      then Inl (UB OutOfBounds)
      else Inr (hex_text (sha1 (hashed_bytes junk pwd lengthPwd))))"

definition login_query :: "string \<Rightarrow> string \<Rightarrow> string" where
  "login_query user pwd = ''SELECT * FROM USERS WHERE USERNAME='' @ [CHR 0x27] @ user @ [CHR 0x27]
     @ '' AND PASSWORD='' @ [CHR 0x27] @ pwd @ [CHR 0x27]"

definition lg_validate ::
    "(string \<Rightarrow> nat option) \<Rightarrow> (byte list \<Rightarrow> byte list) \<Rightarrow> (nat \<Rightarrow> byte) \<Rightarrow> string \<Rightarrow> string \<Rightarrow> bool result" where
  "lg_validate db sha1 junk user pwd =
     bindR (lg_convertPwdToSha1 sha1 junk pwd (length user)) (\<lambda>coded.
     bindR (ofOption (UB NullDeref) (db (login_query user coded))) (\<lambda>num_rows.
       Inr (num_rows \<noteq> 0)))"

section \<open>Requests\<close>

text \<open>The constructor of the answer copies the address and the port up to its terminator.\<close>

fun copy_port :: "nat \<Rightarrow> byte option list \<Rightarrow> byte option list" where
  "copy_port 0 src = []"
| "copy_port (Suc n) [] = replicate (Suc n) None"
| "copy_port (Suc n) (b # bs) = b # (if b = Some 0 then replicate n None else copy_port n bs)"

definition LoginRequestSend_new ::
    "int \<Rightarrow> byte option list \<Rightarrow> byte option list \<Rightarrow> int option \<Rightarrow> int option \<Rightarrow> login_msg" where
  "LoginRequestSend_new answer ipRouter portRouter idClient idToken =
     LoginRequestSend answer (take LG_IP_LENGTH ipRouter) (copy_port LG_PORT_LENGTH portRouter)
       idClient idToken"

text \<open>\<open>strcpy\<close> into a fresh array of \<open>n\<close> characters.\<close>

definition strcpy_new :: "nat \<Rightarrow> string \<Rightarrow> byte option list" where
  "strcpy_new n s = map Some (map char_byte s @ [0]) @ replicate (n - Suc (length s)) None"

text \<open>The session a user already has is ended.\<close>

definition lg_dropOld :: "string \<Rightarrow> int \<Rightarrow> login \<Rightarrow> login result" where
  "lg_dropOld user oldClientId s =
     bindR (lg_at (lg_userToken s) oldClientId) (\<lambda>oldToken.
     bindR (mp_erase_it user (lg_userToId s)) (\<lambda>userToId.
     bindR (mp_erase_it oldClientId (lg_idToUser s)) (\<lambda>idToUser.
     bindR (lg_at (lg_idToConnection s) oldClientId) (\<lambda>oldConnection.
     bindR (mp_erase_it oldConnection (lg_connectionToId s)) (\<lambda>connectionToId.
     bindR (mp_erase_it oldClientId (lg_idToConnection s)) (\<lambda>idToConnection.
     bindR (mp_erase_it oldClientId (lg_userToken s)) (\<lambda>userToken.
       Inr (lg_tellControl (ClientDisconnectSend oldClientId oldToken)
         (s\<lparr>lg_userToId := userToId, lg_idToUser := idToUser, lg_connectionToId := connectionToId,
            lg_idToConnection := idToConnection, lg_userToken := userToken,
            lg_usersConnected := lg_usersConnected s - 1\<rparr>)))))))))"

definition lg_register :: "string \<Rightarrow> int \<Rightarrow> lconn \<Rightarrow> login \<Rightarrow> login" where
  "lg_register user clientId c s =
     s\<lparr>lg_connectionToId := mp_insert c clientId (lg_connectionToId s),
       lg_idToConnection := mp_insert clientId c (lg_idToConnection s),
       lg_userToId := mp_insert user clientId (lg_userToId s),
       lg_idToUser := mp_insert clientId user (lg_idToUser s),
       lg_nextFreeToken := lg_nextFreeToken s + 1,
       lg_usersConnected := lg_usersConnected s + 1\<rparr>"

definition lg_accept :: "string \<Rightarrow> lconn \<Rightarrow> login \<Rightarrow> login result" where
  "lg_accept user c s =
     (let clientId = sint (lg_nextFreeToken s); token = sint (lg_nextFreeToken s);
          s1 = s\<lparr>lg_userToken := mp_insert clientId token (lg_userToken s)\<rparr> in
      bindR (case mp_find (lg_userToId s1) user of
               None \<Rightarrow> Inr s1
             | Some oldClientId \<Rightarrow> lg_dropOld user oldClientId s1)
        (\<lambda>s2. Inr (lg_register user clientId c s2)))"

text \<open>\<open>username\<close> and \<open>password\<close> are the two arrays of the received object.\<close>

definition LoginRequestRcvd_exec ::
    "(string \<Rightarrow> nat option) \<Rightarrow> (byte list \<Rightarrow> byte list) \<Rightarrow> (nat \<Rightarrow> byte) \<Rightarrow> byte list \<Rightarrow> byte list \<Rightarrow>
     lconn \<Rightarrow> login \<Rightarrow> login result" where
  "LoginRequestRcvd_exec db sha1 junk username password c s =
     bindR (read_cstr username) (\<lambda>user.
     bindR (read_cstr password) (\<lambda>pwd.
     bindR (lg_validate db sha1 junk user pwd) (\<lambda>valid.
       if valid then
         (let clientId = sint (lg_nextFreeToken s); token = sint (lg_nextFreeToken s) in
          bindR (lg_accept user c s) (\<lambda>s1.
            Inr (lg_emit c (LoginRequestSend_new 0 (strcpy_new LG_IP_LENGTH ROUTER_IP)
                 (strcpy_new LG_PORT_LENGTH ROUTER_PORT) (Some clientId) (Some token))
              (lg_tellControl (NewClientSend (Some clientId) (Some token)) s1))))
       else
         Inr (lg_emit c (LoginRequestSend_new 1 (replicate LG_IP_LENGTH None)
              (replicate LG_PORT_LENGTH None) None None)
           (lg_tellControl (NewClientSend None None) s)))))"

definition lg_logout :: "int \<Rightarrow> lconn \<Rightarrow> login \<Rightarrow> login result" where
  "lg_logout clientId c s =
     bindR (lg_at (lg_idToUser s) clientId) (\<lambda>username.
     bindR (mp_erase_it username (lg_userToId s)) (\<lambda>userToId.
     bindR (mp_erase_it clientId (lg_idToUser s)) (\<lambda>idToUser.
     bindR (mp_erase_it clientId (lg_idToConnection s)) (\<lambda>idToConnection.
     bindR (mp_erase_it c (lg_connectionToId s)) (\<lambda>connectionToId.
     bindR (mp_erase_it clientId (lg_userToken s)) (\<lambda>userToken.
       Inr (s\<lparr>lg_userToId := userToId, lg_idToUser := idToUser, lg_idToConnection := idToConnection,
         lg_connectionToId := connectionToId, lg_userToken := userToken,
         lg_usersConnected := lg_usersConnected s - 1\<rparr>)))))))"

definition LogoutRequestRcvd_exec :: "int \<Rightarrow> int \<Rightarrow> lconn \<Rightarrow> login \<Rightarrow> login result" where
  "LogoutRequestRcvd_exec clientId token c s =
     (case mp_find (lg_userToken s) clientId of
        None \<Rightarrow> Inr (lg_emit c (LogoutRequestSend 1) s)
      | Some t \<Rightarrow>
          if t \<noteq> token then Inr (lg_emit c (LogoutRequestSend 2) s)
          else bindR (lg_logout clientId c s) (\<lambda>s1.
            Inr (lg_emit c (LogoutRequestSend 0)
              (lg_tellControl (ClientDisconnectSend clientId token) s1))))"

definition ControlConnectionRcvd_exec :: "lconn \<Rightarrow> login \<Rightarrow> login" where
  "ControlConnectionRcvd_exec c s = s\<lparr>lg_control := Some c\<rparr>"

definition ClientClosedConnection_callOnClose :: "lconn \<Rightarrow> login \<Rightarrow> login result" where
  "ClientClosedConnection_callOnClose c s =
     (case mp_find (lg_connectionToId s) c of
        None \<Rightarrow> Inr s
      | Some clientId \<Rightarrow>
          bindR (lg_at (lg_idToUser s) clientId) (\<lambda>username.
          bindR (mp_erase_it clientId (lg_userToken s)) (\<lambda>userToken.
          bindR (mp_erase_it c (lg_connectionToId s)) (\<lambda>connectionToId.
          bindR (mp_erase_it clientId (lg_idToConnection s)) (\<lambda>idToConnection.
          bindR (mp_erase_it username (lg_userToId s)) (\<lambda>userToId.
          bindR (mp_erase_it clientId (lg_idToUser s)) (\<lambda>idToUser.
            Inr (s\<lparr>lg_userToken := userToken, lg_connectionToId := connectionToId,
              lg_idToConnection := idToConnection, lg_userToId := userToId, lg_idToUser := idToUser,
              lg_usersConnected := lg_usersConnected s - 1\<rparr>))))))))"

section \<open>Classes and numbers\<close>

definition lcls :: "string \<Rightarrow> ftype list \<Rightarrow> dclass" where
  "lcls n fs = \<lparr>dc_name = n, dc_fields = fs, dc_exec = True\<rparr>"

definition cls_LoginRequestRcvd :: dclass where
  "cls_LoginRequestRcvd = lcls ''LoginRequestRcvd'' [FChars 32, FChars 32]"
definition cls_LogoutRequestRcvd :: dclass where
  "cls_LogoutRequestRcvd = lcls ''LogoutRequestRcvd'' [FInt, FInt]"
definition cls_ControlConnectionRcvd :: dclass where
  "cls_ControlConnectionRcvd = lcls ''ControlConnectionRcvd'' []"

definition LoginProfile :: profile where
  "LoginProfile = \<lparr>
     pf_creators = [(100, cls_LoginRequestRcvd), (102, cls_LogoutRequestRcvd),
       (51, cls_ControlConnectionRcvd)],
     pf_ids = [(''LoginRequestSend'', 101), (''LogoutRequestSend'', 103), (''NewClientSend'', 50),
       (''ClientDisconnectSend'', 52)]\<rparr>"

definition LoginProfile_destroy :: "profile \<Rightarrow> dclass list" where
  "LoginProfile_destroy p = map snd (pf_creators p) @ profile_destroy (p\<lparr>pf_creators := []\<rparr>)"

section \<open>Sessions\<close>

text \<open>What the five maps stand for: who is logged in, under which id, on which connection.\<close>

type_synonym sessions = "string \<rightharpoonup> int \<times> lconn"

definition sessions_of :: "login \<Rightarrow> sessions" where
  "sessions_of s u = (case mp_find (lg_userToId s) u of None \<Rightarrow> None
     | Some i \<Rightarrow> (case mp_find (lg_idToConnection s) i of None \<Rightarrow> None | Some c \<Rightarrow> Some (i, c)))"

text \<open>The maps fit together: each pair is a bijection, they have the same ids, a token is the id
  and every id has been given out before.\<close>

definition lg_wf :: "login \<Rightarrow> bool" where
  "lg_wf s = ((\<forall>u i. mp_find (lg_userToId s) u = Some i \<longleftrightarrow> mp_find (lg_idToUser s) i = Some u)
     \<and> (\<forall>i c. mp_find (lg_idToConnection s) i = Some c \<longleftrightarrow> mp_find (lg_connectionToId s) c = Some i)
     \<and> (\<forall>i. (mp_find (lg_idToUser s) i = None) = (mp_find (lg_idToConnection s) i = None))
     \<and> (\<forall>i. mp_find (lg_userToken s) i = (if mp_find (lg_idToUser s) i = None then None else Some i))
     \<and> (\<forall>i. mp_find (lg_idToUser s) i \<noteq> None \<longrightarrow> 0 \<le> i \<and> i < uint (lg_nextFreeToken s)))"

lemma lg_wf_init: "lg_wf lg_initializeLogin"
  by (simp add: lg_wf_def lg_initializeLogin_def)

text \<open>The maps without the messages.\<close>

lemma lg_emit_simps [simp]:
  "lg_userToId (lg_emit c m s) = lg_userToId s" "lg_idToUser (lg_emit c m s) = lg_idToUser s"
  "lg_idToConnection (lg_emit c m s) = lg_idToConnection s"
  "lg_connectionToId (lg_emit c m s) = lg_connectionToId s"
  "lg_userToken (lg_emit c m s) = lg_userToken s"
  "lg_nextFreeToken (lg_emit c m s) = lg_nextFreeToken s"
  "lg_control (lg_emit c m s) = lg_control s"
  by (simp_all add: lg_emit_def)

lemma lg_tellControl_simps [simp]:
  "lg_userToId (lg_tellControl m s) = lg_userToId s" "lg_idToUser (lg_tellControl m s) = lg_idToUser s"
  "lg_idToConnection (lg_tellControl m s) = lg_idToConnection s"
  "lg_connectionToId (lg_tellControl m s) = lg_connectionToId s"
  "lg_userToken (lg_tellControl m s) = lg_userToken s"
  "lg_nextFreeToken (lg_tellControl m s) = lg_nextFreeToken s"
  by (simp_all add: lg_tellControl_def split: option.split)

lemma lg_wf_emit [simp]: "lg_wf (lg_emit c m s) = lg_wf s" "lg_wf (lg_tellControl m s) = lg_wf s"
  by (simp_all add: lg_wf_def)

lemma sessions_of_emit [simp]:
  "sessions_of (lg_emit c m s) = sessions_of s" "sessions_of (lg_tellControl m s) = sessions_of s"
  by (rule ext, simp add: sessions_of_def cong: option.case_cong)+

lemma lg_at_simps [simp]: "mp_find m k = Some v \<Longrightarrow> lg_at m k = Inr v"
  by (simp add: lg_at_def ofOption_def)

lemma sessions_of_Some:
  "lg_wf s \<Longrightarrow> sessions_of s u = Some (i, c) \<longleftrightarrow>
     mp_find (lg_userToId s) u = Some i \<and> mp_find (lg_idToConnection s) i = Some c"
  by (auto simp: sessions_of_def split: option.splits)

text \<open>A session in the maps.\<close>

lemma lg_wf_session:
  assumes "lg_wf s" and "sessions_of s u = Some (i, c)"
  shows "mp_find (lg_userToId s) u = Some i" "mp_find (lg_idToUser s) i = Some u"
    "mp_find (lg_idToConnection s) i = Some c" "mp_find (lg_connectionToId s) c = Some i"
    "mp_find (lg_userToken s) i = Some i"
proof -
  show 1: "mp_find (lg_userToId s) u = Some i" and 2: "mp_find (lg_idToConnection s) i = Some c"
    using sessions_of_Some [OF assms(1), of u i c] assms(2) by simp_all
  show 3: "mp_find (lg_idToUser s) i = Some u" using assms(1) 1 by (simp add: lg_wf_def)
  show "mp_find (lg_connectionToId s) c = Some i" using assms(1) 2 by (simp add: lg_wf_def)
  show "mp_find (lg_userToken s) i = Some i" using assms(1) 3 by (simp add: lg_wf_def)
qed

text \<open>The maps once a session is taken out.\<close>

definition lg_without :: "string \<Rightarrow> int \<Rightarrow> lconn \<Rightarrow> login \<Rightarrow> login" where
  "lg_without u i c s = s\<lparr>lg_userToId := mp_erase u (lg_userToId s), lg_idToUser := mp_erase i (lg_idToUser s),
     lg_idToConnection := mp_erase i (lg_idToConnection s),
     lg_connectionToId := mp_erase c (lg_connectionToId s),
     lg_userToken := mp_erase i (lg_userToken s), lg_usersConnected := lg_usersConnected s - 1\<rparr>"

lemma lg_wf_without:
  assumes "lg_wf s" and "sessions_of s u = Some (i, c)"
  shows "lg_wf (lg_without u i c s)"
proof -
  note m = lg_wf_session [OF assms]
  have ui: "mp_find (lg_userToId s) v = Some j \<longleftrightarrow> mp_find (lg_idToUser s) j = Some v"
    and ic: "mp_find (lg_idToConnection s) j = Some d \<longleftrightarrow> mp_find (lg_connectionToId s) d = Some j"
    for v j d using assms(1) by (simp_all add: lg_wf_def)
  have a: "mp_find (lg_userToId s) v = Some i \<Longrightarrow> v = u" for v
    using ui [of v i] m(2) by simp
  have b: "mp_find (lg_idToUser s) j = Some u \<Longrightarrow> j = i" for j
    using ui [of u j] m(1) by simp
  have d: "mp_find (lg_idToConnection s) j = Some c \<Longrightarrow> j = i" for j
    using ic [of j c] m(4) by simp
  have e: "mp_find (lg_connectionToId s) d = Some i \<Longrightarrow> d = c" for d
    using ic [of i d] m(3) by simp
  show ?thesis
    unfolding lg_wf_def lg_without_def
  proof (intro conjI, goal_cases)
    case 1 then show ?case using ui a b by auto
  next
    case 2 then show ?case using ic d e by auto
  qed (use assms(1) in \<open>auto simp: lg_wf_def\<close>)
qed

lemma sessions_without:
  assumes "lg_wf s" and "sessions_of s u = Some (i, c)"
  shows "sessions_of (lg_without u i c s) = (sessions_of s)(u := None)"
proof (rule ext)
  fix v
  have a: "mp_find (lg_userToId s) v = Some i \<Longrightarrow> v = u"
    using assms(1) lg_wf_session(2) [OF assms] by (auto simp: lg_wf_def)
  then show "sessions_of (lg_without u i c s) v = ((sessions_of s)(u := None)) v"
    by (auto simp: sessions_of_def lg_without_def split: option.splits)
qed

section \<open>What the requests do to the sessions\<close>

lemma lg_dropOld_value:
  assumes "mp_find (lg_userToId s) u = Some i" "mp_find (lg_idToUser s) i = Some u"
    "mp_find (lg_idToConnection s) i = Some c" "mp_find (lg_connectionToId s) c = Some i"
    "mp_find (lg_userToken s) i = Some t"
  shows "lg_dropOld u i s = Inr (lg_tellControl (ClientDisconnectSend i t) (lg_without u i c s))"
  using assms by (cases s) (simp add: lg_dropOld_def mp_erase_it_ok lg_without_def)

lemma lg_logout_value:
  assumes "lg_wf s" and "sessions_of s u = Some (i, c)"
  shows "lg_logout i c s = Inr (lg_without u i c s)"
  using lg_wf_session [OF assms] by (cases s) (simp add: lg_logout_def mp_erase_it_ok lg_without_def)

lemma callOnClose_value:
  assumes "lg_wf s" and "sessions_of s u = Some (i, c)"
  shows "ClientClosedConnection_callOnClose c s = Inr (lg_without u i c s)"
  using lg_wf_session [OF assms]
  by (cases s) (simp add: ClientClosedConnection_callOnClose_def mp_erase_it_ok lg_without_def)

lemma connection_session:
  assumes "lg_wf s" and "mp_find (lg_connectionToId s) c = Some i"
  shows "\<exists>u. sessions_of s u = Some (i, c)"
proof -
  have ic: "mp_find (lg_idToConnection s) i = Some c" using assms by (simp add: lg_wf_def)
  moreover have "(mp_find (lg_idToUser s) i = None) = (mp_find (lg_idToConnection s) i = None)"
    using assms(1) by (simp add: lg_wf_def)
  ultimately obtain u where "mp_find (lg_idToUser s) i = Some u" by auto
  then have "mp_find (lg_userToId s) u = Some i" using assms(1) by (simp add: lg_wf_def)
  with ic show ?thesis using sessions_of_Some [OF assms(1)] by blast
qed

lemma user_session:
  assumes "lg_wf s" and "mp_find (lg_userToId s) u = Some i"
  shows "\<exists>c. sessions_of s u = Some (i, c)"
proof -
  have "mp_find (lg_idToUser s) i = Some u" using assms by (simp add: lg_wf_def)
  moreover have "(mp_find (lg_idToUser s) i = None) = (mp_find (lg_idToConnection s) i = None)"
    using assms(1) by (simp add: lg_wf_def)
  ultimately obtain c where "mp_find (lg_idToConnection s) i = Some c" by auto
  then show ?thesis using sessions_of_Some [OF assms(1)] assms(2) by blast
qed

text \<open>A new session, entered into maps that have neither its user nor its connection; \<open>r\<close> is
  \<open>s\<close> with the new token and perhaps more messages.\<close>

lemma lg_register_wf:
  assumes wf: "lg_wf s" and new: "mp_find (lg_userToId s) u = None" "mp_find (lg_connectionToId s) c = None"
    and n: "n = uint (lg_nextFreeToken s)" "uint (lg_nextFreeToken s) < 2 ^ 31"
    and r: "lg_userToId r = lg_userToId s" "lg_idToUser r = lg_idToUser s"
      "lg_idToConnection r = lg_idToConnection s" "lg_connectionToId r = lg_connectionToId s"
      "lg_nextFreeToken r = lg_nextFreeToken s"
      "\<And>j. mp_find (lg_userToken r) j = (if j = n then Some n else mp_find (lg_userToken s) j)"
  shows "lg_wf (lg_register u n c r) \<and> sessions_of (lg_register u n c r) = (sessions_of s)(u \<mapsto> (n, c))"
proof -
  have ui: "mp_find (lg_userToId s) v = Some j \<longleftrightarrow> mp_find (lg_idToUser s) j = Some v"
    and ic: "mp_find (lg_idToConnection s) j = Some d \<longleftrightarrow> mp_find (lg_connectionToId s) d = Some j"
    and dm: "(mp_find (lg_idToUser s) j = None) = (mp_find (lg_idToConnection s) j = None)"
    and tk: "mp_find (lg_userToken s) j = (if mp_find (lg_idToUser s) j = None then None else Some j)"
    and bd: "mp_find (lg_idToUser s) j \<noteq> None \<Longrightarrow> 0 \<le> j \<and> j < n"
    for v j d using wf n(1) by (simp_all add: lg_wf_def)
  have fu: "mp_find (lg_idToUser s) n = None"
    by (rule ccontr) (use bd [of n] in auto)
  then have fc: "mp_find (lg_idToConnection s) n = None" using dm by simp
  have nu: "mp_find (lg_idToUser s) j \<noteq> Some u" for j using ui [of u j] new(1) by simp
  have nc: "mp_find (lg_idToConnection s) j \<noteq> Some c" for j using ic [of j c] new(2) by simp
  have un: "mp_find (lg_userToId s) v \<noteq> Some n" for v using ui [of v n] fu by simp
  have cn: "mp_find (lg_connectionToId s) d \<noteq> Some n" for d using ic [of n d] fc by simp
  have nxt: "uint (lg_nextFreeToken s + 1) = n + 1"
    using n by (simp add: uint_word_ariths)
  have "lg_wf (lg_register u n c r)"
    unfolding lg_wf_def
  proof (intro conjI, goal_cases)
    case 1 then show ?case using ui un nu new fu by (auto simp: lg_register_def r)
  next
    case 2 then show ?case using ic cn nc new fc by (auto simp: lg_register_def r)
  next
    case 3 then show ?case using dm fu fc by (auto simp: lg_register_def r)
  next
    case 4 then show ?case using tk fu by (auto simp: lg_register_def r)
  next
    case 5
    have "0 \<le> n" using n by simp
    then show ?case using bd fu nxt by (fastforce simp: lg_register_def r)
  qed
  moreover have "sessions_of (lg_register u n c r) = (sessions_of s)(u \<mapsto> (n, c))"
    using new(1) un fc by (auto simp: fun_eq_iff sessions_of_def lg_register_def r split: option.splits)
  ultimately show ?thesis by blast
qed

lemma sint_small: "uint (w :: 32 word) < 2 ^ 31 \<Longrightarrow> sint w = uint w"
proof -
  assume "uint w < 2 ^ 31"
  moreover have "0 \<le> uint w" by simp
  then have "- 2147483648 \<le> uint w" by linarith
  ultimately show ?thesis unfolding sint_uint by (simp add: signed_take_bit_int_eq_self)
qed

lemma lg_accept_ok:
  assumes wf: "lg_wf s" and n: "uint (lg_nextFreeToken s) < 2 ^ 31"
    and own: "\<And>v i. sessions_of s v = Some (i, c) \<Longrightarrow> v = u"
  shows "\<exists>s'. lg_accept u c s = Inr s' \<and> lg_wf s'
    \<and> sessions_of s' = (sessions_of s)(u \<mapsto> (uint (lg_nextFreeToken s), c))
    \<and> lg_nextFreeToken s' = lg_nextFreeToken s + 1"
proof -
  let ?n = "uint (lg_nextFreeToken s)"
  let ?s1 = "s\<lparr>lg_userToken := mp_insert ?n ?n (lg_userToken s)\<rparr>"
  have "mp_find (lg_idToUser s) ?n = None"
    using wf by (auto simp: lg_wf_def dest: spec [of _ ?n])
  then have fresh: "mp_find (lg_userToken s) ?n = None" using wf by (simp add: lg_wf_def)
  have acc: "lg_accept u c s = bindR (case mp_find (lg_userToId s) u of None \<Rightarrow> Inr ?s1
      | Some i \<Rightarrow> lg_dropOld u i ?s1) (\<lambda>s2. Inr (lg_register u ?n c s2))"
    by (simp add: lg_accept_def sint_small [OF n] Let_def)
  show ?thesis
  proof (cases "mp_find (lg_userToId s) u")
    case None
    then have "sessions_of s u = None" by (simp add: sessions_of_def)
    then have free: "mp_find (lg_connectionToId s) c = None"
      using connection_session [OF wf, of c] own by (metis not_None_eq option.distinct(1))
    have "lg_wf (lg_register u ?n c ?s1) \<and> sessions_of (lg_register u ?n c ?s1) = (sessions_of s)(u \<mapsto> (?n, c))"
      by (rule lg_register_wf [OF wf None free refl n]) (simp_all add: fresh)
    then show ?thesis using acc None by (simp add: lg_register_def)
  next
    case (Some i)
    obtain d where d: "sessions_of s u = Some (i, d)" using user_session [OF wf Some] by blast
    note m = lg_wf_session [OF wf d]
    have drop: "lg_dropOld u i ?s1 = Inr (lg_tellControl (ClientDisconnectSend i i) (lg_without u i d ?s1))"
      by (rule lg_dropOld_value) (use m fresh in auto)
    let ?t = "lg_tellControl (ClientDisconnectSend i i) (lg_without u i d ?s1)"
    have w: "lg_wf (lg_without u i d s)" by (rule lg_wf_without [OF wf d])
    have ni: "?n \<noteq> i" using m(5) fresh by auto
    have free: "mp_find (lg_connectionToId (lg_without u i d s)) c = None"
    proof (rule ccontr)
      assume "mp_find (lg_connectionToId (lg_without u i d s)) c \<noteq> None"
      then obtain j v where j: "sessions_of (lg_without u i d s) v = Some (j, c)"
        using connection_session [OF w] by blast
      then show False using own [of v j] sessions_without [OF wf d] by (auto split: if_splits)
    qed
    have "lg_wf (lg_register u ?n c ?t) \<and>
        sessions_of (lg_register u ?n c ?t) = (sessions_of (lg_without u i d s))(u \<mapsto> (?n, c))"
      by (rule lg_register_wf [OF w _ free]) (use n ni fresh in \<open>auto simp: lg_without_def\<close>)
    then show ?thesis
      using acc Some drop sessions_without [OF wf d]
      by (simp add: lg_register_def) (simp add: lg_without_def)
  qed
qed

section \<open>The specification: a table of sessions\<close>

datatype login_event =
  OnLogin "byte list" "byte list" lconn
| OnLogout int int lconn
| OnControlConnection lconn
| OnClosed lconn

fun lg_handle ::
    "(string \<Rightarrow> nat option) \<Rightarrow> (byte list \<Rightarrow> byte list) \<Rightarrow> (nat \<Rightarrow> byte) \<Rightarrow> login_event \<Rightarrow> login \<Rightarrow> login result" where
  "lg_handle db sha1 junk (OnLogin un pw c) s = LoginRequestRcvd_exec db sha1 junk un pw c s"
| "lg_handle db sha1 junk (OnLogout i t c) s = LogoutRequestRcvd_exec i t c s"
| "lg_handle db sha1 junk (OnControlConnection c) s = Inr (ControlConnectionRcvd_exec c s)"
| "lg_handle db sha1 junk (OnClosed c) s = ClientClosedConnection_callOnClose c s"

text \<open>The user a request logs in.\<close>

definition accepted_user ::
    "(string \<Rightarrow> nat option) \<Rightarrow> (byte list \<Rightarrow> byte list) \<Rightarrow> (nat \<Rightarrow> byte) \<Rightarrow> byte list \<Rightarrow> byte list \<Rightarrow> string option" where
  "accepted_user db sha1 junk un pw =
     (case (read_cstr un, read_cstr pw) of
        (Inr user, Inr pwd) \<Rightarrow> if lg_validate db sha1 junk user pwd = Inr True then Some user else None
      | _ \<Rightarrow> None)"

text \<open>The table, with the number of logins so far: a login replaces the user's session, a logout
  ends the session with its id, a closed connection ends its session.\<close>

definition drop_where :: "(int \<times> lconn \<Rightarrow> bool) \<Rightarrow> sessions \<Rightarrow> sessions" where
  "drop_where P t u = (case t u of None \<Rightarrow> None | Some ic \<Rightarrow> if P ic then None else Some ic)"

fun lg_spec ::
    "(string \<Rightarrow> nat option) \<Rightarrow> (byte list \<Rightarrow> byte list) \<Rightarrow> (nat \<Rightarrow> byte) \<Rightarrow> login_event \<Rightarrow> int \<times> sessions \<Rightarrow> int \<times> sessions" where
  "lg_spec db sha1 junk (OnLogin un pw c) (n, t) =
     (case accepted_user db sha1 junk un pw of None \<Rightarrow> (n, t) | Some u \<Rightarrow> (n + 1, t(u \<mapsto> (n, c))))"
| "lg_spec db sha1 junk (OnLogout i k c) (n, t) = (n, if k = i then drop_where (\<lambda>(j, d). j = i) t else t)"
| "lg_spec db sha1 junk (OnControlConnection c) (n, t) = (n, t)"
| "lg_spec db sha1 junk (OnClosed c) (n, t) = (n, drop_where (\<lambda>(j, d). d = c) t)"

text \<open>What the clients have to keep to: the texts of a login request are terminated, a
  connection is used by one user at a time, and a session is logged out on its own
  connection. The queries are answered, and fewer than \<open>2 ^ 31 - 1\<close> logins have succeeded before
  each, so that no id is a negative \<open>int\<close>.\<close>

fun lg_fair ::
    "(string \<Rightarrow> nat option) \<Rightarrow> (byte list \<Rightarrow> byte list) \<Rightarrow> (nat \<Rightarrow> byte) \<Rightarrow> login_event \<Rightarrow> int \<times> sessions \<Rightarrow> bool" where
  "lg_fair db sha1 junk (OnLogin un pw c) (n, t) =
     (n < 2 ^ 31 - 1 \<and> length un = 32 \<and> length pw = 32 \<and> 0 \<in> set un \<and> 0 \<in> set pw \<and>
      (\<forall>q. db q \<noteq> None) \<and>
      (\<forall>v i. t v = Some (i, c) \<longrightarrow> accepted_user db sha1 junk un pw \<in> {None, Some v}))"
| "lg_fair db sha1 junk (OnLogout i k c) (n, t) = (\<forall>v d. t v = Some (i, d) \<and> k = i \<longrightarrow> d = c)"
| "lg_fair db sha1 junk (OnControlConnection c) (n, t) = True"
| "lg_fair db sha1 junk (OnClosed c) (n, t) = True"

definition lg_abs :: "login \<Rightarrow> int \<times> sessions" where
  "lg_abs s = (uint (lg_nextFreeToken s), sessions_of s)"

lemma read_cstr_terminated:
  assumes "0 \<in> set bs"
  shows "\<exists>x. read_cstr bs = Inr x \<and> length x < length bs"
proof -
  have "length (takeWhile (\<lambda>b. b \<noteq> 0) bs) < length bs"
    using assms by (induction bs) auto
  then show ?thesis using assms by (simp add: read_cstr_def)
qed

lemma lg_validate_total:
  assumes "length user < 32" and "length pwd < 32" and "\<forall>q. db q \<noteq> None"
  shows "\<exists>b. lg_validate db sha1 junk user pwd = Inr b"
proof -
  obtain n where "db (login_query user (hex_text (sha1 (hashed_bytes junk pwd (length user))))) = Some n"
    using assms(3) by blast
  then show ?thesis
    using assms(1,2) by (simp add: lg_validate_def lg_convertPwdToSha1_def SHA_DIGEST_LENGTH_def ofOption_def)
qed

lemma lg_wf_keep:
  "lg_wf (s\<lparr>lg_control := x\<rparr>) = lg_wf s" "sessions_of (s\<lparr>lg_control := x\<rparr>) = sessions_of s"
  by (simp add: lg_wf_def) (rule ext, simp add: sessions_of_def cong: option.case_cong)

lemma lg_without_next [simp]: "lg_nextFreeToken (lg_without u i c s) = lg_nextFreeToken s"
  by (simp add: lg_without_def)

text \<open>Ids and connections belong to one user.\<close>

lemma session_unique:
  assumes "lg_wf s" and "sessions_of s u = Some (i, c)" and "sessions_of s v = Some (j, d)"
  shows "i = j \<or> c = d \<Longrightarrow> u = v"
  using lg_wf_session [OF assms(1,2)] lg_wf_session [OF assms(1,3)] by auto

lemma drop_where_session:
  assumes "lg_wf s" and "sessions_of s u = Some (i, c)" and "P (i, c)"
    and "\<And>j d. P (j, d) \<Longrightarrow> j = i \<or> d = c"
  shows "drop_where P (sessions_of s) = (sessions_of s)(u := None)"
proof (rule ext)
  fix v
  show "drop_where P (sessions_of s) v = ((sessions_of s)(u := None)) v"
    using assms(2-4) session_unique [OF assms(1,2), of v]
    by (cases "sessions_of s v") (auto simp: drop_where_def)
qed

lemma drop_where_none:
  "(\<And>u i c. t u = Some (i, c) \<Longrightarrow> \<not> P (i, c)) \<Longrightarrow> drop_where P t = t"
  by (rule ext) (auto simp: drop_where_def split: option.splits)

lemma lg_abs_emit [simp]: "lg_abs (lg_emit c m s) = lg_abs s" "lg_abs (lg_tellControl m s) = lg_abs s"
  by (simp_all add: lg_abs_def)

lemma lg_abs_without:
  assumes "lg_wf s" and "sessions_of s u = Some (i, c)"
  shows "lg_abs (lg_without u i c s) = (uint (lg_nextFreeToken s), (sessions_of s)(u := None))"
  by (simp add: lg_abs_def sessions_without [OF assms])

lemma login_simulates:
  assumes wf: "lg_wf s" and fair: "lg_fair db sha1 junk (OnLogin un pw c) (lg_abs s)"
  shows "\<exists>s'. lg_handle db sha1 junk (OnLogin un pw c) s = Inr s' \<and> lg_wf s'
    \<and> lg_abs s' = lg_spec db sha1 junk (OnLogin un pw c) (lg_abs s)"
proof -
  obtain user pwd where rd: "read_cstr un = Inr user" "length user < 32" "read_cstr pw = Inr pwd" "length pwd < 32"
    using fair read_cstr_terminated [of un] read_cstr_terminated [of pw] by (auto simp: lg_abs_def)
  obtain b where b: "lg_validate db sha1 junk user pwd = Inr b"
    using lg_validate_total [OF rd(2,4), of db sha1 junk] fair by (auto simp: lg_abs_def)
  show ?thesis
  proof (cases b)
    case False
    then show ?thesis
      using rd b wf by (simp add: LoginRequestRcvd_exec_def accepted_user_def lg_abs_def)
  next
    case True
    have u: "accepted_user db sha1 junk un pw = Some user" using rd b True by (simp add: accepted_user_def)
    have n: "uint (lg_nextFreeToken s) < 2 ^ 31" using fair by (simp add: lg_abs_def)
    obtain s1 where s1: "lg_accept user c s = Inr s1" "lg_wf s1"
        "sessions_of s1 = (sessions_of s)(user \<mapsto> (uint (lg_nextFreeToken s), c))"
        "lg_nextFreeToken s1 = lg_nextFreeToken s + 1"
      using lg_accept_ok [OF wf n, of c user] fair u by (auto simp: lg_abs_def)
    have "uint (lg_nextFreeToken s + 1) = uint (lg_nextFreeToken s) + 1"
      using n by (simp add: uint_word_ariths)
    then show ?thesis
      using rd b True s1 u by (simp add: LoginRequestRcvd_exec_def Let_def lg_abs_def)
  qed
qed

lemma logout_simulates:
  assumes wf: "lg_wf s" and fair: "lg_fair db sha1 junk (OnLogout i k c) (lg_abs s)"
  shows "\<exists>s'. lg_handle db sha1 junk (OnLogout i k c) s = Inr s' \<and> lg_wf s'
    \<and> lg_abs s' = lg_spec db sha1 junk (OnLogout i k c) (lg_abs s)"
proof (cases "\<exists>u d. sessions_of s u = Some (i, d)")
  case True
  then obtain u d where ud: "sessions_of s u = Some (i, d)" by blast
  note m = lg_wf_session [OF wf ud]
  show ?thesis
  proof (cases "k = i")
    case True
    then have "d = c" using fair ud by (simp add: lg_abs_def)
    have "drop_where (\<lambda>(j, d). j = i) (sessions_of s) = (sessions_of s)(u := None)"
      by (rule drop_where_session [OF wf ud]) auto
    then show ?thesis
      using m True lg_logout_value [OF wf ud] lg_wf_without [OF wf ud] lg_abs_without [OF wf ud] \<open>d = c\<close>
      by (simp add: LogoutRequestRcvd_exec_def lg_abs_def)
  qed (use m wf in \<open>simp add: LogoutRequestRcvd_exec_def lg_abs_def\<close>)
next
  case False
  have "mp_find (lg_idToConnection s) i = None"
  proof (rule ccontr)
    assume "mp_find (lg_idToConnection s) i \<noteq> None"
    then obtain d where "mp_find (lg_connectionToId s) d = Some i" using wf by (auto simp: lg_wf_def)
    then show False using connection_session [OF wf] False by blast
  qed
  then have "mp_find (lg_userToken s) i = None" using wf by (simp add: lg_wf_def)
  moreover have "drop_where (\<lambda>(j, d). j = i) (sessions_of s) = sessions_of s"
    by (rule drop_where_none) (use False in auto)
  ultimately show ?thesis using wf by (simp add: LogoutRequestRcvd_exec_def lg_abs_def)
qed

lemma closed_simulates:
  assumes wf: "lg_wf s"
  shows "\<exists>s'. lg_handle db sha1 junk (OnClosed c) s = Inr s' \<and> lg_wf s'
    \<and> lg_abs s' = lg_spec db sha1 junk (OnClosed c) (lg_abs s)"
proof (cases "mp_find (lg_connectionToId s) c")
  case None
  have "sessions_of s u \<noteq> Some (i, c)" for u i using lg_wf_session(4) [OF wf, of u i c] None by auto
  then have "drop_where (\<lambda>(j, d). d = c) (sessions_of s) = sessions_of s"
    by (intro drop_where_none) auto
  then show ?thesis using wf None by (simp add: ClientClosedConnection_callOnClose_def lg_abs_def)
next
  case (Some i)
  obtain u where ud: "sessions_of s u = Some (i, c)" using connection_session [OF wf Some] by blast
  have "drop_where (\<lambda>(j, d). d = c) (sessions_of s) = (sessions_of s)(u := None)"
    by (rule drop_where_session [OF wf ud]) auto
  then show ?thesis
    using callOnClose_value [OF wf ud] lg_wf_without [OF wf ud] lg_abs_without [OF wf ud]
    by (simp add: lg_abs_def)
qed

interpretation lg: event_refinement "lg_handle db sha1 junk" "lg_spec db sha1 junk" lg_abs lg_wf
  "lg_fair db sha1 junk" for db sha1 junk
proof (unfold_locales, goal_cases)
  case (1 s e)
  then show ?case
  proof (cases e)
    case (OnControlConnection c)
    then show ?thesis using 1 by (simp add: ControlConnectionRcvd_exec_def lg_wf_keep lg_abs_def)
  qed (use 1 login_simulates logout_simulates closed_simulates in \<open>simp_all only:\<close>)
qed

definition lg_run ::
    "(string \<Rightarrow> nat option) \<Rightarrow> (byte list \<Rightarrow> byte list) \<Rightarrow> (nat \<Rightarrow> byte) \<Rightarrow> login_event list \<Rightarrow> login \<Rightarrow> login result" where
  "lg_run db sha1 junk evs s = foldR (\<lambda>s e. lg_handle db sha1 junk e s) evs s"

section \<open>Properties\<close>

text \<open>C3. The login server's five maps implement one table from users to their id and connection:
  for every sequence of logins (right and wrong), logouts, closed connections and connections
  of the control server in which texts are terminated, queries are answered, a connection serves one user at a time,
  a session is logged out on its own connection and fewer than \<open>2 ^ 31 - 1\<close> logins have succeeded before each, no lookup or erase goes wrong, and the
  sessions are those of the table, in which a login replaces the user's older session.\<close>

theorem login_refines_session_table:
  assumes "all_ok (lg_fair db sha1 junk) (lg_spec db sha1 junk) evs (0, Map.empty)"
  shows "\<exists>s. lg_run db sha1 junk evs lg_initializeLogin = Inr s \<and> lg_wf s
    \<and> lg_abs s = fold (lg_spec db sha1 junk) evs (0, Map.empty)"
proof -
  have "lg_abs lg_initializeLogin = (0, Map.empty)"
    by (simp add: lg_abs_def lg_initializeLogin_def sessions_of_def fun_eq_iff)
  then show ?thesis
    using lg.runs_simulate [OF lg_wf_init, of db sha1 junk evs] assms by (simp add: lg_run_def)
qed

definition ex_text :: "string \<Rightarrow> byte list" where
  "ex_text t = cstr_field 32 (replicate 32 0) t"

lemma ex_text_read: "nul_free t \<Longrightarrow> length t < 32 \<Longrightarrow> read_cstr (ex_text t) = Inr t"
  using read_cstr_field [of t 32 "replicate 32 0" "[]"] by (simp add: ex_text_def)

lemma ex_text_shape: "length t < 32 \<Longrightarrow> length (ex_text t) = 32 \<and> 0 \<in> set (ex_text t)"
  by (auto simp: ex_text_def length_cstr_field cstr_field_def take_Cons')

theorem login_refines_session_table_witness:
  "\<exists>s. lg_run (\<lambda>_. Some 2) id (\<lambda>_. 0)
      [OnControlConnection 9, OnLogin (ex_text ''ana'') (ex_text ''pw'') 4, OnClosed 4] lg_initializeLogin = Inr s
    \<and> lg_wf s"
proof -
  have a: "accepted_user (\<lambda>_. Some 2) id (\<lambda>_. 0) (ex_text ''ana'') (ex_text ''pw'') = Some ''ana''"
    by (simp add: accepted_user_def ex_text_read nul_free_def lg_validate_def lg_convertPwdToSha1_def
        SHA_DIGEST_LENGTH_def ofOption_def)
  show ?thesis
    using login_refines_session_table [of "\<lambda>_. Some 2" id "\<lambda>_. 0"
        "[OnControlConnection 9, OnLogin (ex_text ''ana'') (ex_text ''pw'') 4, OnClosed 4]"]
    by (auto simp: a ex_text_shape)
qed

text \<open>C39. A client that sends the right id and token on a connection of its own that nobody logged
  in on makes the server erase \<open>end()\<close> from the map of connections: the request is checked
  against the token, but not against the connection.\<close>

theorem foreign_logout_erases_end:
  assumes "lg_wf s" and "sessions_of s u = Some (i, c)" and "mp_find (lg_connectionToId s) d = None"
  shows "LogoutRequestRcvd_exec i i d s = Inl (UB EndDeref)
    \<and> (\<exists>s'. LogoutRequestRcvd_exec i i c s = Inr s' \<and> sessions_of s' = (sessions_of s)(u := None))"
  using lg_wf_session [OF assms(1,2)] assms(3) lg_logout_value [OF assms(1,2)]
    sessions_without [OF assms(1,2)]
  by (simp add: LogoutRequestRcvd_exec_def lg_logout_def mp_erase_it_def)

theorem foreign_logout_erases_end_witness:
  "\<exists>s. sessions_of s ''ana'' = Some (0, 4) \<and> LogoutRequestRcvd_exec 0 0 5 s = Inl (UB EndDeref)"
proof -
  have empty: "sessions_of lg_initializeLogin = Map.empty"
    by (simp add: lg_initializeLogin_def sessions_of_def fun_eq_iff)
  then obtain s where s: "lg_wf s" "sessions_of s = [''ana'' \<mapsto> (0, 4)]"
    using lg_accept_ok [OF lg_wf_init, of 4 "''ana''"] by (auto simp: lg_initializeLogin_def)
  then have ana: "sessions_of s ''ana'' = Some (0, 4)" by simp
  have "mp_find (lg_connectionToId s) 5 = None"
  proof (rule ccontr)
    assume "mp_find (lg_connectionToId s) 5 \<noteq> None"
    then show False using connection_session [OF s(1), of 5] s(2) by (auto split: if_splits)
  qed
  from foreign_logout_erases_end [OF s(1) ana this] ana show ?thesis by blast
qed

text \<open>C40. The server hashes as many bytes of the password as the user name has: two passwords that
  agree on the first \<open>length user\<close> characters are accepted alike, whatever follows.\<close>

theorem password_prefix_suffices:
  assumes "length user \<le> length pwd" and "length user \<le> length pwd'" and "length pwd < 32" and "length pwd' < 32"
    and "take (length user) pwd = take (length user) pwd'"
  shows "lg_validate db sha1 junk user pwd = lg_validate db sha1 junk user pwd'"
proof -
  have "hashed_bytes junk pwd (length user) = hashed_bytes junk pwd' (length user)"
    using assms by (simp add: hashed_bytes_def take_map)
  then show ?thesis using assms by (simp add: lg_validate_def lg_convertPwdToSha1_def SHA_DIGEST_LENGTH_def)
qed

theorem password_prefix_suffices_witness:
  "lg_validate (\<lambda>q. Some (length q)) id (\<lambda>_. 7) ''ana'' ''secret'' = lg_validate (\<lambda>q. Some (length q)) id (\<lambda>_. 7) ''ana'' ''section''"
  by (rule password_prefix_suffices) simp_all

text \<open>A request that fails is still announced to the control server and answered, with an id and a
  token that were never set.\<close>

lemma failed_login_announced:
  assumes "read_cstr un = Inr user" and "read_cstr pw = Inr pwd"
    and "lg_validate db sha1 junk user pwd = Inr False" and "lg_control s = Some k"
  shows "LoginRequestRcvd_exec db sha1 junk un pw c s = Inr (s\<lparr>lg_sent := lg_sent s @
    [(k, NewClientSend None None), (c, LoginRequestSend_new 1 (replicate LG_IP_LENGTH None)
      (replicate LG_PORT_LENGTH None) None None)]\<rparr>)"
  using assms by (simp add: LoginRequestRcvd_exec_def lg_tellControl_def lg_emit_def)

text \<open>The 20 digest bytes are written as 40 digits and, at the end, a terminator behind the buffer's
  40 characters.\<close>

lemma sha_writes_overflow:
  "(2 * SHA_DIGEST_LENGTH, CHR 0x00) \<in> set (sha_writes obuf)"
  by (auto simp: sha_writes_def sha_write_def SHA_DIGEST_LENGTH_def intro!: bexI [of _ 19])

end
