(* ===== verification/Client_Game.thy ===== *)
theory Client_Game
  imports Game_Zone Transferable
begin

text \<open>
  The client: the singleton \<open>Client\<close> with its login and its game loop (cliente/src/Client.cpp),
  the instructions of the login server, the router and the game servers
  (cliente/src/InstLogin.cpp, InstRouter.cpp, InstServer.cpp), their numbering
  (ClientProfile.cpp) and the game with its SDL input (cliente/game/src/PXCGame.cpp). The
  client's zone (cliente/game/src/PXCZone.cpp) is the same text as the game server's and is
  the \<open>gzone\<close> of Game_Zone.

  What is outside is a record of answers: whether a connection is made, whether SDL starts and
  gives a surface, and how it cuts a rectangle that is to be filled. Received instructions are
  executed by the listening thread of the connection they come on, because the client sets no
  callback on its connections; those queued for the game are executed by the main thread.
\<close>

section \<open>Messages\<close>

datatype client_msg =
  ClLoginRequestSend "byte list" "byte list"
| ConnectClientSend int int
| SetDestinationSend int int dbl dbl dbl
| SetZoneSend int int int

datatype client_inst =
  ClLoginRequestRcvd int "byte list" "byte list" int int
| ConnectCLientReceived int int
| SetZoneRcvd int int int
| SetUserStatusRcvd int int vec vec dbl

text \<open>\<open>strncpy(dst, s.c_str(), n)\<close>: the characters up to the first zero, padded with zeros.\<close>

definition strncpy_bytes :: "nat \<Rightarrow> string \<Rightarrow> byte list" where
  "strncpy_bytes n s =
     (let t = take n (takeWhile (\<lambda>b. b \<noteq> 0) (map char_byte s)) in t @ replicate (n - length t) 0)"

definition ClLoginRequestSend_new :: "string \<Rightarrow> string \<Rightarrow> client_msg" where
  "ClLoginRequestSend_new username password =
     ClLoginRequestSend (strncpy_bytes 31 username @ [0]) (strncpy_bytes 31 password @ [0])"

definition cl_cls :: "string \<Rightarrow> ftype list \<Rightarrow> dclass" where
  "cl_cls n fs = \<lparr>dc_name = n, dc_fields = fs, dc_exec = True\<rparr>"

definition cls_ClLoginRequestRcvd :: dclass where
  "cls_ClLoginRequestRcvd = cl_cls ''LoginRequestRcvd'' [FInt, FChars 16, FChars 5, FInt, FInt]"
definition cls_ConnectCLientReceived :: dclass where
  "cls_ConnectCLientReceived = cl_cls ''ConnectCLientReceived'' [FInt, FInt]"
definition cls_SetUserStatusRcvd :: dclass where
  "cls_SetUserStatusRcvd = cl_cls ''SetUserStatusRcvd'' [FInt, FInt, FDouble, FDouble, FDouble,
     FDouble, FDouble, FDouble, FDouble]"
definition cls_SetZoneRcvd :: dclass where
  "cls_SetZoneRcvd = cl_cls ''SetZoneRcvd'' [FInt, FInt, FInt]"

definition ClientProfile :: profile where
  "ClientProfile = \<lparr>
     pf_creators = [(101, cls_ClLoginRequestRcvd), (201, cls_ConnectCLientReceived),
       (500, cls_SetUserStatusRcvd), (501, cls_SetZoneRcvd)],
     pf_ids = [(''LoginRequestSend'', 100), (''ConnectClientSend'', 200), (''SetZoneSend'', 501),
       (''SetDestinationSend'', 502)]\<rparr>"

section \<open>The game\<close>

record cgame =
  cg_zone :: gzone
  cg_surface :: bool
  cg_instructions :: "(client_inst \<times> nat) list"

definition cg_create :: "int \<Rightarrow> cgame" where
  "cg_create zoneId = \<lparr>cg_zone = gzone_new zoneId, cg_surface = False, cg_instructions = []\<rparr>"

text \<open>\<open>video\<close>: \<open>SDL_GetVideoSurface\<close> gives a surface.\<close>

definition cg_initDrawWindow :: "bool \<Rightarrow> cgame \<Rightarrow> cgame \<times> bool" where
  "cg_initDrawWindow video g = (g\<lparr>cg_surface := video\<rparr>, video)"

definition cg_logic :: "dbl \<Rightarrow> cgame \<Rightarrow> cgame" where
  "cg_logic stepTime g = g\<lparr>cg_zone := (cg_zone g)\<lparr>gz_userData :=
     map (\<lambda>p. (fst p, guser_update stepTime (snd p))) (gz_userData (cg_zone g))\<rparr>\<rparr>"

text \<open>Drawing: what is filled, each rectangle (place and size) with its colour, the window first and
  then a square for each user. A position becomes a \<open>Sint16\<close>, truncated; one that does not fit is
  undefined. \<open>fill\<close> is what \<open>SDL_FillRect\<close> makes of the rectangle it is given: it cuts it to the
  surface and stores the result back through the pointer (SDL_video.h), so the size one user's
  rectangle is left with is the size the next one's starts from.\<close>

type_synonym rect = "int \<times> int \<times> int \<times> int"

definition d_to_int16 :: "dbl \<Rightarrow> int result" where
  "d_to_int16 d = (case d of
       Fin q \<Rightarrow> (let t = (if 0 \<le> q then \<lfloor>q\<rfloor> else \<lceil>q\<rceil>) in
         if - 32768 \<le> t \<and> t \<le> 32767 then Inr t else Inl (UB BadCast))
     | _ \<Rightarrow> Inl (UB BadCast))"

definition cg_place :: "guser \<Rightarrow> (int \<times> int) result" where
  "cg_place u = (case gu_position u of (px, py, pz) \<Rightarrow>
     bindR (d_to_int16 (dsub px (Fin 5))) (\<lambda>x. bindR (d_to_int16 (dsub py (Fin 5))) (\<lambda>y. Inr (x, y))))"

fun cg_draw_users :: "(rect \<Rightarrow> rect) \<Rightarrow> int \<Rightarrow> int \<Rightarrow> (int \<times> guser) list \<Rightarrow> (rect \<times> int) list result" where
  "cg_draw_users fill w h [] = Inr []"
| "cg_draw_users fill w h (u # us) =
     bindR (cg_place (snd u)) (\<lambda>(x, y).
       case fill (x, y, w, h) of (x', y', w', h') \<Rightarrow>
         bindR (cg_draw_users fill w' h' us) (\<lambda>drawn. Inr (((x', y', w', h'), -1) # drawn)))"

definition cg_draw :: "(rect \<Rightarrow> rect) \<Rightarrow> cgame \<Rightarrow> (rect \<times> int) list result" where
  "cg_draw fill g =
     (if \<not> cg_surface g then Inr []
      else bindR (cg_draw_users fill 10 10 (gz_userData (cg_zone g))) (\<lambda>drawn.
        Inr ((fill (0, 0, 600, 600), 0) # drawn)))"

text \<open>A click, with where the mouse is; a digit key; another key; anything else.\<close>

datatype sdl_event = MouseDown int int | DigitKey int | OtherKey | OtherEvent

text \<open>The variables \<open>x\<close> and \<open>y\<close> live as long as the loop over the events.\<close>

fun cg_input_loop :: "int \<Rightarrow> int \<Rightarrow> int \<Rightarrow> sdl_event list \<Rightarrow> client_msg list" where
  "cg_input_loop i token x [] = []"
| "cg_input_loop i token x (MouseDown mx my # evs) =
     SetDestinationSend i token (d_of_int mx) (d_of_int my) (Fin 0) # cg_input_loop i token mx evs"
| "cg_input_loop i token x (DigitKey d # evs) =
     (if d \<noteq> -1 then [SetZoneSend i token d] else []) @ cg_input_loop i token d evs"
| "cg_input_loop i token x (OtherKey # evs) =
     (if x \<noteq> -1 then [SetZoneSend i token x] else []) @ cg_input_loop i token x evs"
| "cg_input_loop i token x (OtherEvent # evs) = cg_input_loop i token x evs"

definition cg_input :: "int \<Rightarrow> int \<Rightarrow> sdl_event list \<Rightarrow> client_msg list" where
  "cg_input i token evs = cg_input_loop i token (-1) evs"

text \<open>A user the zone does not have is made and forgotten.\<close>

definition cg_setUserState :: "int \<Rightarrow> vec \<Rightarrow> vec \<Rightarrow> dbl \<Rightarrow> cgame \<Rightarrow> cgame" where
  "cg_setUserState idUser pos dir speed g =
     (case mp_find (gz_userData (cg_zone g)) idUser of
        None \<Rightarrow> g
      | Some u \<Rightarrow> g\<lparr>cg_zone := (cg_zone g)\<lparr>gz_userData := mp_assign idUser
          (u\<lparr>gu_position := pos, gu_direction := dir, gu_speed := speed\<rparr>) (gz_userData (cg_zone g))\<rparr>\<rparr>)"

definition cg_addInstruction :: "client_inst option \<Rightarrow> nat \<Rightarrow> cgame \<Rightarrow> cgame" where
  "cg_addInstruction ins c g =
     (case ins of None \<Rightarrow> g | Some i \<Rightarrow> g\<lparr>cg_instructions := cg_instructions g @ [(i, c)]\<rparr>)"

section \<open>The client\<close>

datatype cl_out = ToLogin client_msg | ToRouter client_msg | RouterClosed | LoginClosed | SdlQuit

record client =
  cl_game :: "cgame option"
  cl_id :: int
  cl_token :: int
  cl_user :: string
  cl_password :: string
  cl_loginIp :: string
  cl_loginPort :: string
  cl_login :: bool
  cl_router :: bool
  cl_isOnLogin :: bool
  cl_loggedIn :: bool
  cl_badLogOn :: bool
  cl_init :: bool
  cl_sent :: "cl_out list"
  cl_screen :: "(rect \<times> int) list"

definition cl_new :: client where
  "cl_new = \<lparr>cl_game = None, cl_id = -1, cl_token = -1, cl_user = [], cl_password = [],
     cl_loginIp = [], cl_loginPort = [], cl_login = False, cl_router = False,
     cl_isOnLogin = False, cl_loggedIn = False, cl_badLogOn = False, cl_init = False, cl_sent = [], cl_screen = []\<rparr>"

record outside =
  ev_connects :: "string \<Rightarrow> string \<Rightarrow> bool"
  ev_sdlInit :: bool
  ev_videoMode :: bool
  ev_videoSurface :: bool
  ev_fill :: "rect \<Rightarrow> rect"

definition cl_emit :: "cl_out \<Rightarrow> client \<Rightarrow> client" where
  "cl_emit m c = c\<lparr>cl_sent := cl_sent c @ [m]\<rparr>"

definition cl_setId :: "int \<Rightarrow> client \<Rightarrow> client" where
  "cl_setId i c = c\<lparr>cl_id := i\<rparr>"

definition cl_setToken :: "int \<Rightarrow> client \<Rightarrow> client" where
  "cl_setToken t c = c\<lparr>cl_token := t\<rparr>"

definition cl_correctLogin :: "bool \<Rightarrow> client \<Rightarrow> client" where
  "cl_correctLogin right c = c\<lparr>cl_badLogOn := \<not> right\<rparr>"

definition cl_setOnLogin :: "bool \<Rightarrow> client \<Rightarrow> client" where
  "cl_setOnLogin b c = c\<lparr>cl_isOnLogin := b\<rparr>"

definition cl_setLoginAddress :: "outside \<Rightarrow> string \<Rightarrow> string \<Rightarrow> client \<Rightarrow> client" where
  "cl_setLoginAddress env ip port c =
     c\<lparr>cl_loginIp := ip, cl_loginPort := port, cl_login := ev_connects env ip port\<rparr>"

text \<open>Who executes an instruction: the main thread, in its turn of the game and with
  \<open>mGameMutex\<close> locked, or the listening thread of one of the two connections.\<close>

datatype cl_link = LoginLink | RouterLink

datatype cl_thread = MainThread | Listening cl_link

text \<open>The old connection to the router is closed and deleted, and closing it joins its listening
  thread. When that is the thread that is executing, \<open>join\<close> throws \<open>std::system_error\<close>, which
  \<open>close\<close>, declared \<open>throw()\<close>, does not let pass: the program terminates.\<close>

definition cl_routerConnection :: "cl_thread \<Rightarrow> client \<Rightarrow> client result" where
  "cl_routerConnection th c =
     (if cl_router c
      then (if th = Listening RouterLink then Inl (Throw SystemError) else Inr (cl_emit RouterClosed c))
      else Inr (c\<lparr>cl_router := True\<rparr>))"

definition cl_sendAction :: "client_msg \<Rightarrow> client \<Rightarrow> client" where
  "cl_sendAction m c = (if cl_router c then cl_emit (ToRouter m) c else c)"

definition cl_setZone :: "outside \<Rightarrow> cl_thread \<Rightarrow> int \<Rightarrow> client \<Rightarrow> client result" where
  "cl_setZone env th idZone c =
     (case cl_game c of
        None \<Rightarrow> Inr c
      | Some oldGame \<Rightarrow>
          if th = MainThread then Inl (UB Relock)
          else Inr (c\<lparr>cl_game := Some (fst (cg_initDrawWindow (ev_videoSurface env) (cg_create idZone)))\<rparr>))"

section \<open>Instructions\<close>

definition ClLoginRequestRcvd_exec ::
    "outside \<Rightarrow> cl_thread \<Rightarrow> int \<Rightarrow> byte list \<Rightarrow> byte list \<Rightarrow> int \<Rightarrow> int \<Rightarrow> client \<Rightarrow> client result" where
  "ClLoginRequestRcvd_exec env th answerCode routerIp routerPort clientId token c =
     (if answerCode \<noteq> 0 then Inr (cl_setOnLogin False (cl_correctLogin False c))
      else
        (let c1 = cl_setToken token (cl_setId clientId (cl_correctLogin True c)) in
         bindR (read_cstr routerIp) (\<lambda>ip.
         bindR (read_cstr routerPort) (\<lambda>port.
           if \<not> ev_connects env ip port then Inr (cl_setOnLogin False c1)
           else bindR (cl_routerConnection th c1) (\<lambda>c2.
             Inr (cl_emit (ToRouter (ConnectClientSend clientId token)) c2))))))"

definition ConnectCLientReceived_exec :: "outside \<Rightarrow> cl_thread \<Rightarrow> int \<Rightarrow> int \<Rightarrow> client \<Rightarrow> client result" where
  "ConnectCLientReceived_exec env th idClient zone c =
     (if cl_id c = idClient \<and> cl_isOnLogin c
      then bindR (cl_setZone env th zone c) (\<lambda>c1. Inr (cl_setOnLogin False c1))
      else Inr c)"

definition SetUserStatusRcvd_exec :: "int \<Rightarrow> int \<Rightarrow> vec \<Rightarrow> vec \<Rightarrow> dbl \<Rightarrow> client \<Rightarrow> client" where
  "SetUserStatusRcvd_exec userId zone pos dir speed c =
     (case cl_game c of
        None \<Rightarrow> c
      | Some g \<Rightarrow>
          if gz_id (cg_zone g) = zone then c\<lparr>cl_game := Some (cg_setUserState userId pos dir speed g)\<rparr>
          else c)"

fun cl_exec :: "outside \<Rightarrow> cl_thread \<Rightarrow> client_inst \<Rightarrow> client \<Rightarrow> client result" where
  "cl_exec env th (ClLoginRequestRcvd a ip port i t) c = ClLoginRequestRcvd_exec env th a ip port i t c"
| "cl_exec env th (ConnectCLientReceived i z) c = ConnectCLientReceived_exec env th i z c"
| "cl_exec env th (SetZoneRcvd u t z) c = cl_setZone env th z c"
| "cl_exec env th (SetUserStatusRcvd u z p d s) c = Inr (SetUserStatusRcvd_exec u z p d s c)"

text \<open>Without a game an instruction is executed at once.\<close>

definition cl_addInstruction ::
    "outside \<Rightarrow> cl_thread \<Rightarrow> client_inst \<Rightarrow> nat \<Rightarrow> client \<Rightarrow> client result" where
  "cl_addInstruction env th i k c =
     (case cl_game c of
        Some g \<Rightarrow> Inr (c\<lparr>cl_game := Some (cg_addInstruction (Some i) k g)\<rparr>)
      | None \<Rightarrow> cl_exec env th i c)"

section \<open>The game loop\<close>

definition cl_gameStep :: "outside \<Rightarrow> dbl \<Rightarrow> sdl_event list \<Rightarrow> cgame \<Rightarrow> client \<Rightarrow> client result" where
  "cl_gameStep env stepTime evs g c =
     (let g1 = cg_logic stepTime g in
      bindR (cg_draw (ev_fill env) g1) (\<lambda>drawn.
        Inr (fold cl_sendAction (cg_input (cl_id c) (cl_token c) evs)
          (c\<lparr>cl_game := Some g1, cl_screen := drawn\<rparr>))))"

text \<open>The instructions of the queue, executed while the loop holds \<open>mGameMutex\<close>, and removed.\<close>

definition cl_execInstructions :: "outside \<Rightarrow> cgame \<Rightarrow> client \<Rightarrow> client result" where
  "cl_execInstructions env g c =
     bindR (foldR (\<lambda>c ic. cl_exec env MainThread (fst ic) c) (cg_instructions g) c)
       (\<lambda>c1. Inr (c1\<lparr>cl_game := map_option (\<lambda>g. g\<lparr>cg_instructions := []\<rparr>) (cl_game c1)\<rparr>))"

definition cl_step :: "outside \<Rightarrow> dbl \<Rightarrow> sdl_event list \<Rightarrow> client \<Rightarrow> client result" where
  "cl_step env stepTime evs c =
     bindR (ofOption (UB NullDeref) (cl_game c)) (\<lambda>g.
       bindR (cl_gameStep env stepTime evs g c) (cl_execInstructions env g))"

text \<open>Instructions that arrive, each on one of the connections.\<close>

type_synonym arrivals = "(cl_link \<times> client_inst) list"

definition cl_receive :: "outside \<Rightarrow> arrivals \<Rightarrow> client \<Rightarrow> client result" where
  "cl_receive env rcvd c = foldR (\<lambda>c (link, i). cl_exec env (Listening link) i c) rcvd c"

text \<open>The turns of \<open>go\<close>: the seconds each takes, the SDL events it finds and the instructions that
  arrive after it. Nothing clears \<open>mLoggedIn\<close> or \<open>mInit\<close>, so the loop has no end.\<close>

fun cl_go :: "outside \<Rightarrow> dbl \<Rightarrow> (int \<times> sdl_event list \<times> arrivals) list \<Rightarrow> client \<Rightarrow> client result" where
  "cl_go env stepTime [] c = Inr c"
| "cl_go env stepTime ((elapsed, evs, rcvd) # turns) c =
     (if cl_loggedIn c \<and> cl_init c
      then bindR (cl_step env stepTime evs c) (\<lambda>c1.
           bindR (cl_receive env rcvd c1) (\<lambda>c2.
             cl_go env (d_of_int elapsed) turns c2))
      else Inr c)"

section \<open>Logging in\<close>

definition cl_initSdl :: "outside \<Rightarrow> client \<Rightarrow> client \<times> bool" where
  "cl_initSdl env c =
     (case cl_game c of
        None \<Rightarrow> (c, False)
      | Some g \<Rightarrow>
          if \<not> ev_sdlInit env \<or> \<not> ev_videoMode env then (c, False)
          else (let (g1, ok) = cg_initDrawWindow (ev_videoSurface env) g in
                (c\<lparr>cl_init := True, cl_game := Some g1\<rparr>, ok)))"

datatype wait = Answered | TimedOut | Waiting

text \<open>The wait: what arrives before each look at the flag, and the seconds since the request.\<close>

fun cl_wait :: "outside \<Rightarrow> (arrivals \<times> int) list \<Rightarrow> client \<Rightarrow> (client \<times> wait) result" where
  "cl_wait env [] c = Inr (c, Waiting)"
| "cl_wait env ((rcvd, seconds) # looks) c =
     bindR (cl_receive env rcvd c) (\<lambda>c1.
       if \<not> cl_isOnLogin c1 then Inr (c1, Answered)
       else if dlt (Fin 10) (d_of_int seconds) then Inr (cl_setOnLogin False c1, TimedOut)
       else cl_wait env looks c1)"

text \<open>\<open>None\<close> stands for a call that has not returned: it still waits, or it is in the game loop.\<close>

definition cl_loginAs ::
    "outside \<Rightarrow> string \<Rightarrow> string \<Rightarrow> (arrivals \<times> int) list \<Rightarrow>
     (int \<times> sdl_event list \<times> arrivals) list \<Rightarrow> client \<Rightarrow> (client \<times> bool option) result" where
  "cl_loginAs env user password looks turns c =
     (if \<not> cl_login c then Inr (c, Some False)
      else bindR (cl_wait env looks
             (cl_emit (ToLogin (ClLoginRequestSend_new user password)) (cl_setOnLogin True c))) (\<lambda>(c1, w).
        case w of
          Waiting \<Rightarrow> Inr (c1, None)
        | TimedOut \<Rightarrow> Inr (c1, Some False)
        | Answered \<Rightarrow>
            if cl_badLogOn c1 then Inr (c1, Some False)
            else (case cl_initSdl env c1 of (c2, ok) \<Rightarrow>
              if ok then bindR (cl_go env (Fin 0) turns
                     (c2\<lparr>cl_user := user, cl_password := password, cl_loggedIn := True\<rparr>))
                   (\<lambda>c3. Inr (c3, None))
              else Inr (c2, Some False))))"

definition cl_main ::
    "outside \<Rightarrow> string \<Rightarrow> string \<Rightarrow> string \<Rightarrow> string \<Rightarrow> (arrivals \<times> int) list \<Rightarrow>
     (int \<times> sdl_event list \<times> arrivals) list \<Rightarrow> (client \<times> bool option) result" where
  "cl_main env loginIp loginPort username password looks turns =
     cl_loginAs env username password looks turns (cl_setLoginAddress env loginIp loginPort cl_new)"

text \<open>The destructor, and the program around it: \<open>None\<close> is a program that has not ended.\<close>

definition cl_destroy :: "client \<Rightarrow> client" where
  "cl_destroy c =
     (let c1 = (if cl_login c then cl_emit LoginClosed c else c);
          c2 = (if cl_router c1 then cl_emit RouterClosed c1 else c1)
      in if cl_init c2 then cl_emit SdlQuit c2 else c2)"

definition client_main ::
    "outside \<Rightarrow> string list \<Rightarrow> (arrivals \<times> int) list \<Rightarrow>
     (int \<times> sdl_event list \<times> arrivals) list \<Rightarrow> (client \<times> int option) result" where
  "client_main env argv looks turns =
     (if length argv < 5 then Inr (cl_new, Some 1)
      else bindR (cl_main env (argv ! 1) (argv ! 2) (argv ! 3) (argv ! 4) looks turns) (\<lambda>(c, r).
        case r of None \<Rightarrow> Inr (c, None) | Some b \<Rightarrow> Inr (cl_destroy c, Some 0)))"

section \<open>No client gets a game\<close>

text \<open>Before a login has ended the client has no game, and what it receives does not change that.\<close>

definition gameless :: "client \<Rightarrow> bool" where
  "gameless c = (cl_game c = None \<and> \<not> cl_loggedIn c \<and> \<not> cl_init c \<and> cl_screen c = [])"

lemma cl_setters_gameless [simp]:
  "gameless (cl_emit m c) = gameless c" "gameless (cl_setId i c) = gameless c"
  "gameless (cl_setToken i c) = gameless c" "gameless (cl_correctLogin b c) = gameless c"
  "gameless (cl_setOnLogin b c) = gameless c" "gameless (c\<lparr>cl_router := b\<rparr>) = gameless c"
  "gameless (cl_setLoginAddress env ip port c) = gameless c"
  by (simp_all add: gameless_def cl_emit_def cl_setId_def cl_setToken_def cl_correctLogin_def
      cl_setOnLogin_def cl_setLoginAddress_def)

lemma gameless_setZone: "gameless c \<Longrightarrow> cl_setZone env th z c = Inr c"
  by (simp add: gameless_def cl_setZone_def)

text \<open>What makes a waiting client fault: an accepted login whose router address is not terminated,
  or one that arrives on the connection to the router.\<close>

fun cl_fault :: "cl_link \<Rightarrow> client_inst \<Rightarrow> fault \<Rightarrow> bool" where
  "cl_fault link (ClLoginRequestRcvd a ip port i t) e =
     (a = 0 \<and> (e = UB OutOfBounds \<and> (0 \<notin> set ip \<or> 0 \<notin> set port) \<or>
       e = Throw SystemError \<and> link = RouterLink))"
| "cl_fault link _ e = False"

lemma routerConnection_gameless:
  "gameless c \<Longrightarrow> cl_routerConnection (Listening link) c = Inr c' \<Longrightarrow> gameless c'"
  "cl_routerConnection (Listening link) c = Inl e \<Longrightarrow> e = Throw SystemError \<and> link = RouterLink"
  by (auto simp: cl_routerConnection_def split: if_splits)

lemma cl_exec_gameless:
  assumes "gameless c"
  shows "cl_exec env (Listening link) i c = Inr c' \<Longrightarrow> gameless c'"
    and "cl_exec env (Listening link) i c = Inl e \<Longrightarrow> cl_fault link i e"
proof -
  have "case cl_exec env (Listening link) i c of Inl e \<Rightarrow> cl_fault link i e | Inr c' \<Rightarrow> gameless c'"
  proof (cases i)
    case (ClLoginRequestRcvd a ip port u t)
    show ?thesis
    proof (cases "a = 0 \<and> 0 \<in> set ip \<and> 0 \<in> set port")
      case False
      with assms ClLoginRequestRcvd show ?thesis
        by (auto simp: ClLoginRequestRcvd_exec_def Let_def read_cstr_def split: if_splits)
    next
      case True
      let ?c1 = "cl_setToken t (cl_setId u (cl_correctLogin True c))"
      have "gameless ?c1" using assms by simp
      with True ClLoginRequestRcvd routerConnection_gameless [where c = ?c1] show ?thesis
        by (cases "cl_routerConnection (Listening link) ?c1")
           (auto simp: ClLoginRequestRcvd_exec_def Let_def read_cstr_def)
    qed
  next
    case (ConnectCLientReceived u z)
    then show ?thesis
      using assms by (simp add: ConnectCLientReceived_exec_def gameless_setZone)
  next
    case (SetZoneRcvd u t z)
    then show ?thesis using assms by (simp add: gameless_setZone)
  next
    case (SetUserStatusRcvd u z p d s)
    then show ?thesis using assms by (simp add: SetUserStatusRcvd_exec_def gameless_def)
  qed
  then show "cl_exec env (Listening link) i c = Inr c' \<Longrightarrow> gameless c'"
    and "cl_exec env (Listening link) i c = Inl e \<Longrightarrow> cl_fault link i e" by auto
qed

lemma cl_receive_gameless:
  assumes "gameless c"
  shows "case cl_receive env rcvd c of
      Inl e \<Rightarrow> \<exists>(link, i) \<in> set rcvd. cl_fault link i e
    | Inr c' \<Rightarrow> gameless c'"
  using assms
proof (induction rcvd arbitrary: c)
  case Nil
  then show ?case by (simp add: cl_receive_def)
next
  case (Cons li rcvd)
  obtain link i where li: "li = (link, i)" by (cases li)
  show ?case
  proof (cases "cl_exec env (Listening link) i c")
    case (Inl e)
    with cl_exec_gameless(2) [OF Cons.prems Inl] li show ?thesis by (simp add: cl_receive_def)
  next
    case (Inr c1)
    with Cons.IH [OF cl_exec_gameless(1) [OF Cons.prems Inr]] li show ?thesis
      by (auto simp: cl_receive_def split: sum.splits)
  qed
qed

lemma cl_wait_gameless:
  assumes "gameless c"
  shows "case cl_wait env looks c of
      Inl e \<Rightarrow> \<exists>l \<in> set looks. \<exists>(link, i) \<in> set (fst l). cl_fault link i e
    | Inr (c', w) \<Rightarrow> gameless c' \<and> ((\<exists>l \<in> set looks. dlt (Fin 10) (d_of_int (snd l))) \<longrightarrow> w \<noteq> Waiting)"
  using assms
proof (induction looks arbitrary: c)
  case (Cons l looks)
  obtain rcvd secs where l: "l = (rcvd, secs)" by (cases l)
  show ?case
  proof (cases "cl_receive env rcvd c")
    case (Inl e)
    with cl_receive_gameless [OF Cons.prems, where env = env and rcvd = rcvd] l show ?thesis by simp
  next
    case (Inr c1)
    with cl_receive_gameless [OF Cons.prems, where env = env and rcvd = rcvd] have c1: "gameless c1" by simp
    from Inr c1 Cons.IH [OF c1] l show ?thesis by (auto split: sum.splits)
  qed
qed simp

lemma cl_main_gameless:
  "case cl_main env ip port user pwd looks turns of
      Inl e \<Rightarrow> \<exists>l \<in> set looks. \<exists>(link, i) \<in> set (fst l). cl_fault link i e
    | Inr (c, r) \<Rightarrow> gameless c \<and> r \<noteq> Some True
      \<and> ((\<exists>l \<in> set looks. dlt (Fin 10) (d_of_int (snd l))) \<longrightarrow> r = Some False)"
proof -
  let ?c0 = "cl_setLoginAddress env ip port cl_new"
  let ?c1 = "cl_emit (ToLogin (ClLoginRequestSend_new user pwd)) (cl_setOnLogin True ?c0)"
  have "gameless cl_new" by (simp add: gameless_def cl_new_def)
  then have g: "gameless ?c0" "gameless ?c1" by simp_all
  show ?thesis
  proof (cases "cl_login ?c0")
    case False
    then show ?thesis using g(1) by (simp add: cl_main_def cl_loginAs_def)
  next
    case True
    then have main: "cl_main env ip port user pwd looks turns =
        bindR (cl_wait env looks ?c1) (\<lambda>(c1, w). case w of
          Waiting \<Rightarrow> Inr (c1, None)
        | TimedOut \<Rightarrow> Inr (c1, Some False)
        | Answered \<Rightarrow>
            if cl_badLogOn c1 then Inr (c1, Some False)
            else (case cl_initSdl env c1 of (c2, ok) \<Rightarrow>
              if ok then bindR (cl_go env (Fin 0) turns
                     (c2\<lparr>cl_user := user, cl_password := pwd, cl_loggedIn := True\<rparr>))
                   (\<lambda>c3. Inr (c3, None))
              else Inr (c2, Some False)))"
      by (simp add: cl_main_def cl_loginAs_def)
    show ?thesis
    proof (cases "cl_wait env looks ?c1")
      case (Inl e)
      with cl_wait_gameless [OF g(2), where env = env and looks = looks] main show ?thesis by simp
    next
      case (Inr cw)
      obtain c w where cw: "cw = (c, w)" by (cases cw)
      have c: "gameless c" "(\<exists>l \<in> set looks. dlt (Fin 10) (d_of_int (snd l))) \<longrightarrow> w \<noteq> Waiting"
        using cl_wait_gameless [OF g(2), where env = env and looks = looks] Inr cw by simp_all
      have "cl_initSdl env c = (c, False)" using c(1) by (simp add: cl_initSdl_def gameless_def)
      with c Inr cw main show ?thesis by (cases w) simp_all
    qed
  qed
qed

lemma gameless_destroy: "gameless c \<Longrightarrow> gameless (cl_destroy c)"
  by (simp add: cl_destroy_def Let_def)

text \<open>C12. No client ever gets into the game: \<open>setZone\<close> does nothing as long as there is no game, and
  nothing else makes the first one. Whatever a client receives on its two connections while it
  waits for its login, it stays without a game, is never logged in and draws nothing. It still
  waits, or it has ended, with the code 0 (1 when it was started with too few arguments), and it
  has ended once a look at the clock came more than ten seconds after the request. It runs
  without a fault but for accepted logins of two kinds: one whose router address or port is not
  terminated, which is read past its end, and one that arrives on the connection to the router,
  whose listening thread then closes its own connection and joins itself, which terminates the
  program.\<close>

theorem client_login_never_succeeds:
  "case client_main env argv looks turns of
     Inr (c, r) \<Rightarrow> cl_game c = None \<and> \<not> cl_loggedIn c \<and> cl_screen c = []
       \<and> (r = None \<or> r = Some (if length argv < 5 then 1 else 0))
       \<and> ((\<exists>l \<in> set looks. dlt (Fin 10) (d_of_int (snd l))) \<longrightarrow> r \<noteq> None)
   | Inl e \<Rightarrow> \<exists>l \<in> set looks. \<exists>(link, i) \<in> set (fst l). \<exists>ip port u t.
       i = ClLoginRequestRcvd 0 ip port u t
       \<and> (e = UB OutOfBounds \<and> (0 \<notin> set ip \<or> 0 \<notin> set port) \<or> e = Throw SystemError \<and> link = RouterLink)"
proof (cases "length argv < 5")
  case True
  then show ?thesis by (simp add: client_main_def cl_new_def)
next
  case False
  let ?m = "cl_main env (argv ! 1) (argv ! 2) (argv ! 3) (argv ! 4) looks turns"
  have f: "\<exists>ip port u t. i = ClLoginRequestRcvd 0 ip port u t
      \<and> (e = UB OutOfBounds \<and> (0 \<notin> set ip \<or> 0 \<notin> set port) \<or> e = Throw SystemError \<and> link = RouterLink)"
    if "cl_fault link i e" for link i e
    using that by (cases i) auto
  show ?thesis
  proof (cases ?m)
    case (Inl e)
    then obtain l link i where "l \<in> set looks" "(link, i) \<in> set (fst l)" "cl_fault link i e"
      using cl_main_gameless [where env = env and ip = "argv ! 1" and port = "argv ! 2"
          and user = "argv ! 3" and pwd = "argv ! 4" and looks = looks and turns = turns] by auto
    then have "\<exists>l \<in> set looks. \<exists>(link, i) \<in> set (fst l). \<exists>ip port u t.
       i = ClLoginRequestRcvd 0 ip port u t
       \<and> (e = UB OutOfBounds \<and> (0 \<notin> set ip \<or> 0 \<notin> set port) \<or> e = Throw SystemError \<and> link = RouterLink)"
      using f [of link i e] by (intro bexI [of _ l] bexI [of _ "(link, i)"]) simp_all
    with Inl False show ?thesis by (simp add: client_main_def)
  next
    case (Inr cr)
    obtain c r where cr: "cr = (c, r)" by (cases cr)
    with cl_main_gameless [where env = env and ip = "argv ! 1" and port = "argv ! 2"
          and user = "argv ! 3" and pwd = "argv ! 4" and looks = looks and turns = turns] Inr False
      gameless_destroy [of c]
    show ?thesis by (cases r) (simp_all add: client_main_def gameless_def)
  qed
qed

text \<open>A second accepted login that arrives on the connection to the router: the end of the program.\<close>

lemma login_on_router_link_terminates:
  assumes "cl_router c" and "read_cstr ip = Inr a" and "read_cstr port = Inr p" and "ev_connects env a p"
  shows "cl_exec env (Listening RouterLink) (ClLoginRequestRcvd 0 ip port u t) c = Inl (Throw SystemError)"
  using assms
  by (simp add: ClLoginRequestRcvd_exec_def Let_def cl_routerConnection_def cl_setToken_def cl_setId_def
      cl_correctLogin_def)

theorem client_login_never_succeeds_witness:
  "\<exists>c. client_main \<lparr>ev_connects = \<lambda>_ _. True, ev_sdlInit = True, ev_videoMode = True, ev_videoSurface = True,
        ev_fill = id\<rparr>
      [''client'', ''10.0.0.1'', ''3000'', ''ana'', ''pw'']
      [([(LoginLink, ClLoginRequestRcvd 0 [49, 0] [50, 0] 6 6)], 1),
       ([(RouterLink, ConnectCLientReceived 6 2)], 1), ([], 11)] [] = Inr (c, Some 0)
    \<and> cl_game c = None"
proof -
  let ?env = "\<lparr>ev_connects = \<lambda>_ _. True, ev_sdlInit = True, ev_videoMode = True, ev_videoSurface = True,
    ev_fill = id\<rparr>"
  let ?looks = "[([(LoginLink, ClLoginRequestRcvd 0 [49, 0] [50, 0] 6 6)], 1),
    ([(RouterLink, ConnectCLientReceived 6 2)], 1), ([], 11)] :: (arrivals \<times> int) list"
  have "dlt (Fin 10) (d_of_int 11)" by (simp add: d_of_int_exact)
  then show ?thesis
    using client_login_never_succeeds [where env = ?env and looks = ?looks and turns = "[]"
        and argv = "[''client'', ''10.0.0.1'', ''3000'', ''ana'', ''pw'']"]
    by (cases "client_main ?env [''client'', ''10.0.0.1'', ''3000'', ''ana'', ''pw''] ?looks []") auto
qed

text \<open>In one step of the game a key that is no digit asks for a zone when a click came before it:
  the variable that holds the digit still holds the click's column.\<close>

lemma key_after_click_asks_for_zone:
  assumes "mx \<noteq> -1" and "set evs \<subseteq> {OtherEvent}"
  shows "cg_input i token (MouseDown mx my # evs @ [OtherKey]) =
      [SetDestinationSend i token (d_of_int mx) (d_of_int my) (Fin 0), SetZoneSend i token mx]
    \<and> cg_input i token (evs @ [OtherKey]) = []"
proof -
  have skip: "set evs \<subseteq> {OtherEvent} \<Longrightarrow> cg_input_loop i token x (evs @ [OtherKey]) = cg_input_loop i token x [OtherKey]"
    for x by (induction evs) auto
  show ?thesis using assms(1) skip [OF assms(2)] by (simp add: cg_input_def)
qed

lemma key_after_click_asks_for_zone_example:
  "cg_input 3 8 [MouseDown 250 40, OtherEvent, OtherKey] =
     [SetDestinationSend 3 8 (d_of_int 250) (d_of_int 40) (Fin 0), SetZoneSend 3 8 250]"
  using key_after_click_asks_for_zone [of 250 "[OtherEvent]" 3 8 40] by simp

section \<open>Drawing\<close>

text \<open>What SDL documents of \<open>SDL_FillRect\<close> for the window: the result is the part of the rectangle
  inside it.\<close>

definition cuts_to_window :: "(rect \<Rightarrow> rect) \<Rightarrow> bool" where
  "cuts_to_window fill = (\<forall>x y w h. fill (x, y, w, h) =
     (max 0 x, max 0 y, max 0 (min 600 (x + w) - max 0 x), max 0 (min 600 (y + h) - max 0 y)))"

definition whole_at :: "int \<Rightarrow> int \<Rightarrow> guser \<Rightarrow> bool" where
  "whole_at x y u = (fst (gu_position u) = Fin (of_int x) \<and> fst (snd (gu_position u)) = Fin (of_int y)
     \<and> -32763 \<le> x \<and> x \<le> 32772 \<and> -32763 \<le> y \<and> y \<le> 32772)"

lemma d_to_int16_whole:
  assumes "-32763 \<le> k" and "k \<le> 32772"
  shows "d_to_int16 (dsub (Fin (of_int k)) (Fin 5)) = Inr (k - 5)"
proof -
  have "\<bar>k - 5\<bar> < 2 ^ 53" using assms by simp
  then have "rnd (of_int (k - 5)) = Fin (of_int (k - 5))" using d_of_int_exact [of "k - 5"] by (simp add: d_of_int_def)
  then have r: "dsub (Fin (of_int k)) (Fin 5) = Fin (of_int (k - 5))" by (simp add: dsub_def)
  show ?thesis unfolding r d_to_int16_def using assms by (simp del: of_int_diff)
qed

lemma whole_place: "whole_at x y u \<Longrightarrow> cg_place u = Inr (x - 5, y - 5)"
  by (cases "gu_position u") (simp add: whole_at_def cg_place_def d_to_int16_whole)

lemma draw_users_Cons:
  assumes "cg_draw_users fill w h (u # us) = Inr ds"
  obtains x y x1 y1 w1 h1 rest where "cg_place (snd u) = Inr (x, y)" "fill (x, y, w, h) = (x1, y1, w1, h1)"
    "cg_draw_users fill w1 h1 us = Inr rest" "ds = ((x1, y1, w1, h1), -1) # rest"
proof -
  obtain x y where p: "cg_place (snd u) = Inr (x, y)" using assms by (auto simp: bindR_eq_Inr)
  obtain x1 y1 w1 h1 where f: "fill (x, y, w, h) = (x1, y1, w1, h1)" by (metis prod_cases4)
  with p assms have "bindR (cg_draw_users fill w1 h1 us) (\<lambda>drawn. Inr (((x1, y1, w1, h1), -1) # drawn)) = Inr ds"
    by simp
  then show thesis using that [OF p f] by (auto simp: bindR_eq_Inr)
qed

text \<open>An empty rectangle stays empty, wherever the next users are.\<close>

definition is_empty_rect :: "rect \<Rightarrow> bool" where
  "is_empty_rect r = (case r of (x, y, w, h) \<Rightarrow> w \<le> 0 \<or> h \<le> 0)"

lemma cut_size:
  "cuts_to_window fill \<Longrightarrow> fill (x, y, w, h) = (x1, y1, w1, h1) \<Longrightarrow>
   w1 \<le> max 0 w \<and> h1 \<le> max 0 h"
proof -
  have "max 0 (min 600 (x + w) - max 0 x) \<le> max 0 w" for x w :: int by linarith
  then show "cuts_to_window fill \<Longrightarrow> fill (x, y, w, h) = (x1, y1, w1, h1) \<Longrightarrow> ?thesis"
    by (auto simp: cuts_to_window_def)
qed

lemma draw_users_empty:
  assumes "cuts_to_window fill"
  shows "cg_draw_users fill w h us = Inr ds \<Longrightarrow> w \<le> 0 \<or> h \<le> 0 \<Longrightarrow>
    length ds = length us \<and> (\<forall>d \<in> set ds. is_empty_rect (fst d))"
proof (induction us arbitrary: w h ds)
  case (Cons u us)
  obtain x y x1 y1 w1 h1 rest where f: "fill (x, y, w, h) = (x1, y1, w1, h1)"
      "cg_draw_users fill w1 h1 us = Inr rest" "ds = ((x1, y1, w1, h1), -1) # rest"
    using Cons.prems(1) by (rule draw_users_Cons)
  have "w1 \<le> 0 \<or> h1 \<le> 0" using cut_size [OF assms f(1)] Cons.prems(2) by auto
  then show ?case using Cons.IH [OF f(2)] f(3) by (simp add: is_empty_rect_def)
qed simp

text \<open>The size of the rectangle only ever shrinks while the users are drawn: a user out of the
  window makes every user behind it in the order of the ids invisible.\<close>

lemma user_outside_hides_the_rest:
  assumes "cuts_to_window fill" and "whole_at x y u" and "x \<le> -5 \<or> 605 \<le> x \<or> y \<le> -5 \<or> 605 \<le> y"
  shows "cg_draw_users fill w h (front @ (i, u) # behind) = Inr drawn \<Longrightarrow> w \<le> 10 \<Longrightarrow> h \<le> 10 \<Longrightarrow>
    length drawn = length front + 1 + length behind
    \<and> (\<forall>d \<in> set (drop (length front) drawn). is_empty_rect (fst d))"
proof (induction front arbitrary: w h drawn)
  case Nil
  have "cg_draw_users fill w h ((i, u) # behind) = Inr drawn" using Nil.prems(1) by simp
  then obtain x' y' x1 y1 w1 h1 rest where f: "cg_place u = Inr (x', y')"
      "fill (x', y', w, h) = (x1, y1, w1, h1)" "cg_draw_users fill w1 h1 behind = Inr rest"
      "drawn = ((x1, y1, w1, h1), -1) # rest"
    by (rule draw_users_Cons) simp
  have "w1 \<le> 0 \<or> h1 \<le> 0"
    using assms f(1,2) Nil.prems(2,3) by (auto simp: whole_place cuts_to_window_def)
  then show ?case using draw_users_empty [OF assms(1) f(3)] f(4) by (simp add: is_empty_rect_def)
next
  case (Cons v front)
  have "cg_draw_users fill w h (v # front @ (i, u) # behind) = Inr drawn" using Cons.prems(1) by simp
  then obtain x' y' x1 y1 w1 h1 rest where f: "fill (x', y', w, h) = (x1, y1, w1, h1)"
      "cg_draw_users fill w1 h1 (front @ (i, u) # behind) = Inr rest" "drawn = ((x1, y1, w1, h1), -1) # rest"
    by (rule draw_users_Cons)
  have "w1 \<le> 10" "h1 \<le> 10" using cut_size [OF assms(1) f(1)] Cons.prems(2,3) by auto
  then show ?case using Cons.IH [OF f(2)] f(3) by simp
qed

text \<open>Users at whole coordinates well inside the window are drawn where they are: behind the
  background, in the order of their ids, one square each with the position in its middle.\<close>

lemma draw_centres_users:
  assumes "cuts_to_window fill" and "cg_surface g"
    and "list_all2 (\<lambda>p (x, y). whole_at x y (snd p) \<and> 5 \<le> x \<and> x \<le> 595 \<and> 5 \<le> y \<and> y \<le> 595)
      (gz_userData (cg_zone g)) places"
  shows "cg_draw fill g =
    Inr (((0, 0, 600, 600), 0) # map (\<lambda>(x, y). ((x - 5, y - 5, 10, 10), -1)) places)"
proof -
  have "cg_draw_users fill 10 10 us = Inr (map (\<lambda>(x, y). ((x - 5, y - 5, 10, 10), -1)) ps)"
    if "list_all2 (\<lambda>p (x, y). whole_at x y (snd p) \<and> 5 \<le> x \<and> x \<le> 595 \<and> 5 \<le> y \<and> y \<le> 595) us ps" for us ps
    using that by (induction us ps rule: list_all2_induct)
      (use assms(1) in \<open>auto simp: whole_place cuts_to_window_def\<close>)
  from this [OF assms(3)] show ?thesis using assms(1,2) by (simp add: cg_draw_def cuts_to_window_def)
qed

section \<open>The text of a request\<close>

lemma takeWhile_bytes:
  "nul_free s \<Longrightarrow> takeWhile (\<lambda>b. b \<noteq> 0) (map char_byte s) = map char_byte s"
proof -
  assume "nul_free s"
  then have "\<forall>b \<in> set (map char_byte s). b \<noteq> 0" using nul_free_bytes [of s] by (auto simp del: set_map)
  then show ?thesis by (rule takeWhile_eq_all_conv [THEN iffD2])
qed

text \<open>A name is cut to 31 characters and always terminated.\<close>

lemma strncpy_bytes_read:
  assumes "nul_free s"
  shows "length (strncpy_bytes n s @ [0]) = Suc n" and "0 \<in> set (strncpy_bytes n s @ [0])"
    and "read_cstr (strncpy_bytes n s @ [0]) = Inr (take n s)"
proof -
  have b: "strncpy_bytes n s = map char_byte (take n s) @ replicate (n - length (take n s)) 0"
    unfolding strncpy_bytes_def Let_def takeWhile_bytes [OF assms] by (simp add: take_map)
  show "length (strncpy_bytes n s @ [0]) = Suc n" by (simp add: b)
  show "0 \<in> set (strncpy_bytes n s @ [0])" by simp
  have nf: "nul_free (take n s)" using assms by (auto simp: nul_free_def dest: in_set_takeD)
  have "strncpy_bytes n s @ [0] = map char_byte (take n s) @ 0 # replicate (n - length (take n s)) 0"
    unfolding b by (simp add: replicate_append_same)
  also have "\<dots> = cstr_field (Suc n) (replicate n 0) (take n s)"
    by (simp add: cstr_field_def take_Cons' min_def)
  finally have "strncpy_bytes n s @ [0] = cstr_field (Suc n) (replicate n 0) (take n s)" .
  then show "read_cstr (strncpy_bytes n s @ [0]) = Inr (take n s)"
    using read_cstr_field [OF nf, of "Suc n" "replicate n 0" "[]"] by simp
qed

end
