(* ===== verification/Protocol.thy ===== *)
theory Protocol
  imports Control_Main Router_Handlers Game_Server Login_Server Client_Game
begin

text \<open>
  The protocol between the programs: the object each sent message is, the number its sender's
  profile gives it, the class the receiver's profile creates for the number, and what the
  receiver reads into it. The sent classes are those of the programs' own headers; a message is
  typed for a receiver when the receiver knows its number and reads the fields that were
  written, and then it arrives as it was sent.
\<close>

section \<open>The bits of a double\<close>

text \<open>The inverse of \<open>dbl_of_bits\<close>: the mantissa counts units in the last place; a subnormal
  number has no leading one and the exponent field 0.\<close>

fun dbl_bits :: "dbl \<Rightarrow> 64 word" where
  "dbl_bits NaN = word_of_int (2047 * 2 ^ 52 + 2 ^ 51)"
| "dbl_bits PInf = word_of_int (2047 * 2 ^ 52)"
| "dbl_bits NInf = word_of_int (2047 * 2 ^ 52 + 2 ^ 63)"
| "dbl_bits (Fin x) =
     (if x = 0 then 0
      else word_of_int (\<lfloor>\<bar>x\<bar> / ulp x\<rfloor> + (max (expo x) (-1022) + 1022) * 2 ^ 52 + (if x < 0 then 2 ^ 63 else 0)))"

lemma uint64_of_int: "0 \<le> v \<Longrightarrow> v < 2 ^ 64 \<Longrightarrow> uint (word_of_int v :: 64 word) = v"
  by (simp add: uint_word_of_int_eq take_bit_int_eq_self)

lemma word_fields:
  fixes k f :: int and neg :: bool
  assumes "0 \<le> k" and "k < 2 ^ 52" and "0 \<le> f" and "f < 2048"
  defines "w \<equiv> word_of_int (k + f * 2 ^ 52 + (if neg then 2 ^ 63 else 0)) :: 64 word"
  shows "uint (drop_bit 52 w) mod 2048 = f" "uint w mod 2 ^ 52 = k" "bit w 63 = neg"
proof -
  let ?v = "k + f * 2 ^ 52 + (if neg then 2 ^ 63 else 0) :: int"
  have v: "0 \<le> ?v" "?v < 2 ^ 64" using assms(1-4) by simp_all
  then have u: "uint w = ?v" unfolding w_def by (rule uint64_of_int)
  have v2: "?v = k + (f + (if neg then 2048 else 0)) * 2 ^ 52" by simp
  show "uint w mod 2 ^ 52 = k"
    unfolding u v2 mod_mult_self1 using assms(1-4) by simp
  have d: "?v div 2 ^ 52 = f + (if neg then 2048 else 0)"
    unfolding v2 using assms(1-4) by simp
  show "uint (drop_bit 52 w) mod 2048 = f"
    using assms(1-4) d by (simp add: drop_bit_eq_div uint_div u)
  have "?v div 2 ^ 63 = (if neg then 1 else 0)" using assms(1-4) by simp
  then have "bit ?v 63 = neg" unfolding bit_iff_odd by simp
  moreover have "bit (uint w) 63 = bit w 63" unfolding bit_uint_iff by simp
  ultimately show "bit w 63 = neg" unfolding u by simp
qed

lemma mantissa:
  assumes "fin_ok x" and "x \<noteq> 0"
  defines "e \<equiv> max (expo x) (-1022)" and "m \<equiv> \<lfloor>\<bar>x\<bar> / ulp x\<rfloor>"
  shows "\<bar>x\<bar> = of_int m * 2 powi (e - 52)" "0 < m" "m < 2 ^ 53" "e \<le> 1023" "2 ^ 52 \<le> m \<or> e = -1022"
proof -
  have u: "ulp x = 2 powi (e - 52)" by (simp add: ulp_def e_def)
  obtain k where k: "x = of_int k * ulp x" using fin_ok_multiple [OF assms(1)] by blast
  then have "\<bar>x\<bar> = of_int \<bar>k\<bar> * ulp x" using ulp_pos [of x] by (metis abs_mult abs_of_pos of_int_abs)
  moreover from this have "m = \<bar>k\<bar>" unfolding m_def by (metis floor_of_int nonzero_mult_div_cancel_right ulp_nz)
  ultimately have x: "\<bar>x\<bar> = of_int m * ulp x" by simp
  show "\<bar>x\<bar> = of_int m * 2 powi (e - 52)" using x u by simp
  show "0 < m"
  proof (rule ccontr)
    assume "\<not> 0 < m"
    then have "\<bar>x\<bar> \<le> 0" using x ulp_pos [of x] by (simp add: mult_nonpos_nonneg)
    then show False using assms(2) by simp
  qed
  have p53: "2 powi (e + 1) = 2 ^ 53 * ulp x"
    using power_int_add [of "2 :: rat" 53 "e - 52"] by (simp add: u add.commute)
  have p52: "2 powi e = 2 ^ 52 * ulp x"
    using power_int_add [of "2 :: rat" 52 "e - 52"] by (simp add: u)
  have "\<bar>x\<bar> < 2 powi (e + 1)"
    using expo_bounds(2) [OF assms(2)] power_int_increasing [of "expo x + 1" "e + 1" "2 :: rat"]
    by (simp add: e_def)
  then have "of_int m * ulp x < 2 ^ 53 * ulp x" unfolding p53 x .
  then have "(of_int m :: rat) < 2 ^ 53" using ulp_pos [of x] by (simp only: mult_less_cancel_right_pos)
  then have "of_int m < (of_int (2 ^ 53) :: rat)" by simp
  then show "m < 2 ^ 53" by (simp only: of_int_less_iff)
  have "2 powi expo x < (2 :: rat) powi 1024"
    using expo_bounds(1) [OF assms(2)] fin_ok_bound [OF assms(1)] by (simp add: dbl_limit_def)
  then have "\<not> 1024 \<le> expo x" using power_int_increasing [of 1024 "expo x" "2 :: rat"] by auto
  then show "e \<le> 1023" by (simp add: e_def)
  show "2 ^ 52 \<le> m \<or> e = -1022"
  proof (cases "expo x \<le> -1022")
    case False
    then have "e = expo x" by (simp add: e_def)
    then have "2 ^ 52 * ulp x \<le> of_int m * ulp x" using expo_bounds(1) [OF assms(2)] p52 x by simp
    then have "2 ^ 52 \<le> (of_int m :: rat)" using ulp_pos [of x] by (simp only: mult_le_cancel_right_pos)
    then have "of_int (2 ^ 52) \<le> (of_int m :: rat)" by simp
    then have "2 ^ 52 \<le> m" by (simp only: of_int_le_iff)
    then show ?thesis ..
  qed (simp add: e_def)
qed

lemma dbl_of_bits_fields:
  fixes k f :: int and neg :: bool
  assumes "0 \<le> k" and "k < 2 ^ 52" and "0 \<le> f" and "f < 2048"
  shows "dbl_of_bits (word_of_int (k + f * 2 ^ 52 + (if neg then 2 ^ 63 else 0))) =
    (if f = 2047 then (if k \<noteq> 0 then NaN else if neg then NInf else PInf)
     else if f = 0 then Fin ((if neg then -1 else 1) * of_int k * 2 powi (-1074))
     else Fin ((if neg then -1 else 1) * of_int (2 ^ 52 + k) * 2 powi (f - 1075)))"
  unfolding dbl_of_bits_def word_fields [OF assms] Let_def ..

lemma dbl_bits_value: "dbl_ok d \<Longrightarrow> dbl_of_bits (dbl_bits d) = d"
proof (cases d)
  case NaN
  then show ?thesis using dbl_of_bits_fields [of "2 ^ 51" 2047 False] by (simp add: add.commute)
next
  case PInf
  then show ?thesis using dbl_of_bits_fields [of 0 2047 False] by simp
next
  case NInf
  then show ?thesis using dbl_of_bits_fields [of 0 2047 True] by simp
next
  case (Fin x)
  assume ok: "dbl_ok d"
  show ?thesis
  proof (cases "x = 0")
    case True
    then show ?thesis using dbl_of_bits_fields [of 0 0 False] Fin by simp
  next
    case False
    define e where "e = max (expo x) (-1022)"
    define m where "m = \<lfloor>\<bar>x\<bar> / ulp x\<rfloor>"
    have fx: "fin_ok x" using ok Fin by simp
    note m = mantissa [OF fx False, folded e_def m_def]
    have e: "-1022 \<le> e" by (simp add: e_def)
    have sg: "(if x < 0 then -1 else 1) * \<bar>x\<bar> = x" by simp
    have b: "dbl_bits d = word_of_int (m + (e + 1022) * 2 ^ 52 + (if x < 0 then 2 ^ 63 else 0))"
      using Fin False by (simp add: m_def e_def)
    show ?thesis
    proof (cases "2 ^ 52 \<le> m")
      case True
      then have f: "m + (e + 1022) * 2 ^ 52 = (m - 2 ^ 52) + (e + 1023) * 2 ^ 52" by (simp add: algebra_simps)
      have "dbl_of_bits (dbl_bits d) = Fin ((if x < 0 then -1 else 1) * of_int m * 2 powi (e - 52))"
        unfolding b f using True m(3,4) e dbl_of_bits_fields [of "m - 2 ^ 52" "e + 1023" "x < 0"] by simp
      then show ?thesis using m(1) sg Fin by (metis mult.assoc)
    next
      case False
      then have e0: "e = -1022" using m(5) by simp
      have "dbl_of_bits (dbl_bits d) = Fin ((if x < 0 then -1 else 1) * of_int m * 2 powi (e - 52))"
        unfolding b e0 using False m(2) dbl_of_bits_fields [of m 0 "x < 0"] by simp
      then show ?thesis using m(1) sg Fin by (metis mult.assoc)
    qed
  qed
qed

section \<open>The sent classes\<close>

text \<open>As their headers declare them, program by program (control, game, login, client); the router's
  are in Router_Handlers. None has an \<open>exec\<close> of its own.\<close>

definition scls :: "string \<Rightarrow> ftype list \<Rightarrow> dclass" where
  "scls n fs = \<lparr>dc_name = n, dc_fields = fs, dc_exec = False\<rparr>"

definition cls_ServerLoadSend :: dclass where
  "cls_ServerLoadSend = scls ''ServerLoadSend'' []"
definition cls_RemoveZoneSend :: dclass where
  "cls_RemoveZoneSend = scls ''RemoveZoneSend'' [FInt]"
definition cls_GetZoneSend :: dclass where
  "cls_GetZoneSend = scls ''GetZoneSend'' [FInt, FInt]"
definition cls_RouterChangeZoneSend :: dclass where
  "cls_RouterChangeZoneSend = scls ''RouterChangeZoneSend'' [FInt, FInt, FInt]"
definition cls_SetZoneToServerSend :: dclass where
  "cls_SetZoneToServerSend = scls ''SetZoneToServerSend'' [FInt, FInt]"
definition cls_IPServerSend :: dclass where
  "cls_IPServerSend = scls ''IPServerSend'' [FInt, FChars IPLENGTH, FChars PORTLENGTH]"
definition cls_GameNewUserSend :: dclass where
  "cls_GameNewUserSend = scls ''GameNewUserSend'' [FInt, FInt]"
definition cls_GameDeleteUserSend :: dclass where
  "cls_GameDeleteUserSend = scls ''GameDeleteUserSend'' [FInt]"
definition cls_RouterNewUserSend :: dclass where
  "cls_RouterNewUserSend = scls ''RouterNewUserSend'' [FInt, FInt, FInt]"
definition cls_RouterDeleteUserSend :: dclass where
  "cls_RouterDeleteUserSend = scls ''RouterDeleteUserSend'' [FInt]"
definition cls_LoginOnlineSend :: dclass where
  "cls_LoginOnlineSend = scls ''LoginOnlineSend'' []"
definition cls_ServerLoadAnswerSend :: dclass where
  "cls_ServerLoadAnswerSend = scls ''ServerLoadAnswerSend'' [FInt, FInt, FDouble, FInt]"
definition cls_GsGetServerIpSend :: dclass where
  "cls_GsGetServerIpSend = scls ''GetServerIpSend'' [FInt]"
definition cls_EndZoneTransferSend :: dclass where
  "cls_EndZoneTransferSend = scls ''EndZoneTransferSend'' [FInt]"
definition cls_LoginRequestSend :: dclass where
  "cls_LoginRequestSend = scls ''LoginRequestSend'' [FInt, FChars 16, FChars 5, FInt, FInt]"
definition cls_LogoutRequestSend :: dclass where
  "cls_LogoutRequestSend = scls ''LogoutRequestSend'' [FInt]"
definition cls_NewClientSend :: dclass where
  "cls_NewClientSend = scls ''NewClientSend'' [FInt, FInt]"
definition cls_ClientDisconnectSend :: dclass where
  "cls_ClientDisconnectSend = scls ''ClientDisconnectSend'' [FInt, FInt]"
definition cls_ClLoginRequestSend :: dclass where
  "cls_ClLoginRequestSend = scls ''LoginRequestSend'' [FChars 32, FChars 32]"
definition cls_ConnectClientSend :: dclass where
  "cls_ConnectClientSend = scls ''ConnectClientSend'' [FInt, FInt]"
definition cls_SetDestinationSend :: dclass where
  "cls_SetDestinationSend = scls ''SetDestinationSend'' [FInt, FInt, FDouble, FDouble, FDouble]"
definition cls_SetZoneSend :: dclass where
  "cls_SetZoneSend = scls ''SetZoneSend'' [FInt, FInt, FInt]"

lemmas sent_classes = scls_def cls_ServerLoadSend_def cls_RemoveZoneSend_def cls_GetZoneSend_def
  cls_RouterChangeZoneSend_def cls_SetZoneToServerSend_def cls_IPServerSend_def
  cls_GameNewUserSend_def cls_GameDeleteUserSend_def cls_RouterNewUserSend_def
  cls_RouterDeleteUserSend_def cls_LoginOnlineSend_def cls_ServerLoadAnswerSend_def
  cls_GsGetServerIpSend_def cls_EndZoneTransferSend_def cls_LoginRequestSend_def
  cls_LogoutRequestSend_def cls_NewClientSend_def cls_ClientDisconnectSend_def
  cls_ClLoginRequestSend_def cls_ConnectClientSend_def cls_SetDestinationSend_def
  cls_SetZoneSend_def

section \<open>The sent objects\<close>

definition VI :: "int \<Rightarrow> fval" where
  "VI i = VInt (word_of_int i)"

fun gs_wire :: "gs_msg \<Rightarrow> string \<times> fval list" where
  "gs_wire (ServerLoadAnswerSend idServer idZone zoneLoad remainingZones) =
     (''ServerLoadAnswerSend'', [VI idServer, VI idZone, VDouble (dbl_bits zoneLoad), VI remainingZones])"
| "gs_wire (GetServerIpSend serverId) = (''GetServerIpSend'', [VI serverId])"
| "gs_wire (EndZoneTransferSend zoneId) = (''EndZoneTransferSend'', [VI zoneId])"

text \<open>A relayed instruction is one a client sent; its class is that of the client's object.\<close>

fun router_wire :: "(nat \<Rightarrow> string \<times> fval list) \<Rightarrow> router_msg \<Rightarrow> string \<times> fval list" where
  "router_wire relayed (GetServerIpMsg serverId) = (''GetServerIpSend'', [VI serverId])"
| "router_wire relayed AddRouterMsg = (''AddRouterSend'', [])"
| "router_wire relayed (ConnectClientMsg i token) = (''ConnectCLientSend'', [VI i, VI token])"
| "router_wire relayed (Relayed n) = relayed n"

definition raw_int :: "32 word \<Rightarrow> int option \<Rightarrow> fval" where
  "raw_int ri i = (case i of None \<Rightarrow> VInt ri | Some j \<Rightarrow> VI j)"

definition raw_chars :: "byte \<Rightarrow> byte option list \<Rightarrow> fval" where
  "raw_chars rb cs = VChars (map (\<lambda>c. case c of None \<Rightarrow> rb | Some b \<Rightarrow> b) cs)"

fun login_wire :: "32 word \<Rightarrow> byte \<Rightarrow> login_msg \<Rightarrow> string \<times> fval list" where
  "login_wire ri rb (LoginRequestSend answer ip port i token) =
     (''LoginRequestSend'', [VI answer, raw_chars rb ip, raw_chars rb port, raw_int ri i, raw_int ri token])"
| "login_wire ri rb (LogoutRequestSend answer) = (''LogoutRequestSend'', [VI answer])"
| "login_wire ri rb (NewClientSend i token) = (''NewClientSend'', [raw_int ri i, raw_int ri token])"
| "login_wire ri rb (ClientDisconnectSend i token) = (''ClientDisconnectSend'', [VI i, VI token])"

fun client_wire :: "client_msg \<Rightarrow> string \<times> fval list" where
  "client_wire (ClLoginRequestSend username password) = (''LoginRequestSend'', [VChars username, VChars password])"
| "client_wire (ConnectClientSend i token) = (''ConnectClientSend'', [VI i, VI token])"
| "client_wire (SetDestinationSend i token x y z) = (''SetDestinationSend'',
     [VI i, VI token, VDouble (dbl_bits x), VDouble (dbl_bits y), VDouble (dbl_bits z)])"
| "client_wire (SetZoneSend i token zone) = (''SetZoneSend'', [VI i, VI token, VI zone])"

section \<open>From object to object\<close>

definition program_factory :: "profile \<Rightarrow> factory" where
  "program_factory p = fst (tf_setProtocol ''0.1a'' (tf_setProfile (Some p) tf_new))"

definition sent_class :: "string \<times> fval list \<Rightarrow> dclass" where
  "sent_class m = \<lparr>dc_name = fst m, dc_fields = map val_type (snd m), dc_exec = False\<rparr>"

text \<open>What becomes of an object: the sender's factory numbers its class, the receiver's factory,
  switched to the sender's protocol, has the creator for the number, and the creator makes an
  object from the bytes of the packet.\<close>

definition transmit ::
    "nat \<Rightarrow> profile \<Rightarrow> profile \<Rightarrow> (nat \<Rightarrow> byte) \<Rightarrow> byte list \<Rightarrow> string \<times> fval list \<Rightarrow> (dclass \<times> fval list) result" where
  "transmit base ps pr pad behind m =
     (let f = program_factory ps; cs = sent_class m in
      bindR (dg_type f cs) (\<lambda>t.
      bindR (tf_creator (fst (tf_setProtocol (tf_getProtocol f) (program_factory pr))) t) (\<lambda>c.
        creator_create base c (dg_payload base cs pad (snd m) behind))))"

definition received_class :: "profile \<Rightarrow> profile \<Rightarrow> string \<Rightarrow> dclass option" where
  "received_class ps pr n = Option.bind (map_of (pf_ids ps) n) (map_of (pf_creators pr))"

definition typed_for :: "profile \<Rightarrow> profile \<Rightarrow> string \<times> fval list \<Rightarrow> bool" where
  "typed_for ps pr m = (case received_class ps pr (fst m) of None \<Rightarrow> False
     | Some c \<Rightarrow> dc_fields c = map val_type (snd m))"

text \<open>The instruction the receiver makes of it, by the name of the created class.\<close>

definition received ::
    "(string \<Rightarrow> fval list \<Rightarrow> 'i option) \<Rightarrow> nat \<Rightarrow> profile \<Rightarrow> profile \<Rightarrow> (nat \<Rightarrow> byte) \<Rightarrow> byte list
       \<Rightarrow> string \<times> fval list \<Rightarrow> 'i option" where
  "received decode base ps pr pad behind m =
     (case transmit base ps pr pad behind m of Inl e \<Rightarrow> None | Inr (cls, vs) \<Rightarrow> decode (dc_name cls) vs)"

fun gs_inst_of :: "string \<Rightarrow> fval list \<Rightarrow> gs_inst option" where
  "gs_inst_of n [VInt i, VChars ip, VChars port] =
     (if n = ''SetServerIpRvcd'' then Some (SetServerIpRvcd (sint i) ip port) else None)"
| "gs_inst_of n [VInt a, VInt b] =
     (if n = ''SetZoneOrderRcvd'' then Some (SetZoneOrderRcvd (sint a) (sint b))
      else if n = ''GetZoneOrderRcvd'' then Some (GetZoneOrderRcvd (sint a) (sint b))
      else if n = ''SetZoneToServerRcvd'' then Some (GsSetZoneToServerRcvd (sint a) (sint b))
      else if n = ''AddUserRcvd'' then Some (GsAddUserRcvd (sint a) (sint b))
      else if n = ''DelUserRcvd'' then Some (GsDelUserRcvd (sint a) (sint b)) else None)"
| "gs_inst_of n [] =
     (if n = ''ServerLoadOrderRcvd'' then Some ServerLoadOrderRcvd
      else if n = ''AddRouterRcvd'' then Some AddRouterRcvd else None)"
| "gs_inst_of n _ = None"

text \<open>The client's instructions: the class says which field is what.\<close>

fun v_int :: "fval \<Rightarrow> int" where
  "v_int (VInt w) = sint w"
| "v_int _ = 0"

fun v_dbl :: "fval \<Rightarrow> dbl" where
  "v_dbl (VDouble w) = dbl_of_bits w"
| "v_dbl _ = NaN"

fun v_chars :: "fval \<Rightarrow> byte list" where
  "v_chars (VChars bs) = bs"
| "v_chars _ = []"

definition client_inst_of :: "string \<Rightarrow> fval list \<Rightarrow> client_inst option" where
  "client_inst_of n vs =
     (if n = ''LoginRequestRcvd'' then Some (ClLoginRequestRcvd (v_int (vs ! 0)) (v_chars (vs ! 1))
        (v_chars (vs ! 2)) (v_int (vs ! 3)) (v_int (vs ! 4)))
      else if n = ''ConnectCLientReceived'' then Some (ConnectCLientReceived (v_int (vs ! 0)) (v_int (vs ! 1)))
      else if n = ''SetZoneRcvd'' then Some (SetZoneRcvd (v_int (vs ! 0)) (v_int (vs ! 1)) (v_int (vs ! 2)))
      else if n = ''SetUserStatusRcvd'' then Some (SetUserStatusRcvd (v_int (vs ! 0)) (v_int (vs ! 1))
        (v_dbl (vs ! 2), v_dbl (vs ! 3), v_dbl (vs ! 4)) (v_dbl (vs ! 5), v_dbl (vs ! 6), v_dbl (vs ! 7))
        (v_dbl (vs ! 8)))
      else None)"

text \<open>At the login server, with the connection it came on.\<close>

fun login_event_of :: "lconn \<Rightarrow> string \<Rightarrow> fval list \<Rightarrow> login_event option" where
  "login_event_of c n [VChars un, VChars pw] = (if n = ''LoginRequestRcvd'' then Some (OnLogin un pw c) else None)"
| "login_event_of c n [VInt i, VInt t] =
     (if n = ''LogoutRequestRcvd'' then Some (OnLogout (sint i) (sint t) c) else None)"
| "login_event_of c n [] = (if n = ''ControlConnectionRcvd'' then Some (OnControlConnection c) else None)"
| "login_event_of c n _ = None"

text \<open>The numbers are those of 32 bit integers.\<close>

definition int32 :: "int \<Rightarrow> bool" where
  "int32 i = (- (2 ^ 31) \<le> i \<and> i < 2 ^ 31)"

lemma int32_value [simp]: "int32 i \<Longrightarrow> sint (word_of_int i :: 32 word) = i"
  using sint_of_int32 [of i] by (simp add: int32_def)

lemma factory_profile: "tf_profile (program_factory p) = Some p"
  and factory_protocol: "tf_getProtocol (program_factory p) = ''0.1a''"
  by (simp_all add: program_factory_def setProtocol_result tf_setProfile_def tf_new_def NO_PROTOCOL_def
      tf_getProtocol_def)

lemma factory_type:
  "tf_type (program_factory p) n = (case map_of (pf_ids p) n of Some t \<Rightarrow> Inr t
     | None \<Rightarrow> Inl (Throw (VersionException ''Sending type not found'')))"
  unfolding program_factory_def
  by (rule type_after_setProtocol) (simp_all add: tf_setProfile_def NO_PROTOCOL_def)

lemma transmit_eq:
  "transmit base ps pr pad behind m =
     (case map_of (pf_ids ps) (fst m) of None \<Rightarrow> Inl (Throw (VersionException ''Sending type not found''))
      | Some t \<Rightarrow> (case map_of (pf_creators pr) t of
          None \<Rightarrow> Inl (Throw (VersionException ''Creator not found''))
        | Some c \<Rightarrow> creator_create base c (fimage pad (snd m) @ take base behind)))"
proof -
  have "dg_payload base (sent_class m) pad (snd m) behind = fimage pad (snd m) @ take base behind"
    by (rule dg_payload_split) (simp add: sent_class_def)
  moreover have "tf_creator (fst (tf_setProtocol ''0.1a'' (program_factory pr))) t =
      (case map_of (pf_creators pr) t of Some c \<Rightarrow> Inr c
       | None \<Rightarrow> Inl (Throw (VersionException ''Creator not found'')))" for t
    by (rule creator_after_setProtocol) (simp_all add: factory_profile NO_PROTOCOL_def)
  ultimately show ?thesis
    by (simp add: transmit_def factory_type factory_protocol dg_type_def sent_class_def split: option.split)
qed

text \<open>A typed message arrives as it was sent, whatever the padding and the memory behind the object
  hold.\<close>

lemma typed_arrives:
  assumes "typed_for ps pr m"
  shows "\<exists>c. received_class ps pr (fst m) = Some c \<and> transmit base ps pr pad behind m = Inr (c, snd m)"
proof -
  obtain t c where t: "map_of (pf_ids ps) (fst m) = Some t" "map_of (pf_creators pr) t = Some c"
    and f: "map val_type (snd m) = dc_fields c"
    using assms by (auto simp: typed_for_def received_class_def bind_eq_Some_conv split: option.splits)
  show ?thesis using t creator_create_fimage [OF f]
    by (simp add: transmit_eq received_class_def)
qed

lemma typed_received:
  assumes "typed_for ps pr m" and "received_class ps pr (fst m) = Some c"
  shows "received decode base ps pr pad behind m = decode (dc_name c) (snd m)"
  using typed_arrives [OF assms(1), of base pad behind] assms(2) by (auto simp: received_def)

lemma unknown_not_delivered:
  "received_class ps pr (fst m) = None \<Longrightarrow> \<exists>e. transmit base ps pr pad behind m = Inl (Throw (VersionException e))"
  by (auto simp: transmit_eq received_class_def split: option.splits)

section \<open>Who sends what to whom\<close>

datatype net_msg = FromControl control_msg | FromGame gs_msg | FromRouter router_msg
  | FromLogin login_msg | FromClient client_msg

text \<open>\<open>ri\<close> and \<open>rb\<close>: what members that were never set hold.\<close>

fun net_wire :: "32 word \<Rightarrow> byte \<Rightarrow> net_msg \<Rightarrow> string \<times> fval list" where
  "net_wire ri rb (FromControl m) = control_wire ri rb m"
| "net_wire ri rb (FromGame m) = gs_wire m"
| "net_wire ri rb (FromRouter m) = router_wire (\<lambda>_. ('''', [])) m"
| "net_wire ri rb (FromLogin m) = login_wire ri rb m"
| "net_wire ri rb (FromClient m) = client_wire m"

text \<open>The class of the object; a relayed one is unknown here.\<close>

fun net_class :: "net_msg \<Rightarrow> dclass" where
  "net_class (FromControl m) = (case m of ServerLoadSend \<Rightarrow> cls_ServerLoadSend
     | RemoveZoneSend _ \<Rightarrow> cls_RemoveZoneSend | GetZoneSend _ _ \<Rightarrow> cls_GetZoneSend
     | RouterChangeZoneSend _ _ _ \<Rightarrow> cls_RouterChangeZoneSend
     | SetZoneToServerSend _ _ \<Rightarrow> cls_SetZoneToServerSend | IPServerSend _ _ _ \<Rightarrow> cls_IPServerSend
     | GameNewUserSend _ _ \<Rightarrow> cls_GameNewUserSend | RouterNewUserSend _ _ _ \<Rightarrow> cls_RouterNewUserSend
     | RouterDeleteUserSend _ \<Rightarrow> cls_RouterDeleteUserSend | LoginOnlineSend \<Rightarrow> cls_LoginOnlineSend)"
| "net_class (FromGame m) = (case m of ServerLoadAnswerSend _ _ _ _ \<Rightarrow> cls_ServerLoadAnswerSend
     | GetServerIpSend _ \<Rightarrow> cls_GsGetServerIpSend | EndZoneTransferSend _ \<Rightarrow> cls_EndZoneTransferSend)"
| "net_class (FromRouter m) = (case m of GetServerIpMsg _ \<Rightarrow> cls_GetServerIpSend
     | AddRouterMsg \<Rightarrow> cls_AddRouterSend | ConnectClientMsg _ _ \<Rightarrow> cls_ConnectCLientSend
     | Relayed _ \<Rightarrow> scls '''' [])"
| "net_class (FromLogin m) = (case m of LoginRequestSend _ _ _ _ _ \<Rightarrow> cls_LoginRequestSend
     | LogoutRequestSend _ \<Rightarrow> cls_LogoutRequestSend | NewClientSend _ _ \<Rightarrow> cls_NewClientSend
     | ClientDisconnectSend _ _ \<Rightarrow> cls_ClientDisconnectSend)"
| "net_class (FromClient m) = (case m of ClLoginRequestSend _ _ \<Rightarrow> cls_ClLoginRequestSend
     | ConnectClientSend _ _ \<Rightarrow> cls_ConnectClientSend
     | SetDestinationSend _ _ _ _ _ \<Rightarrow> cls_SetDestinationSend | SetZoneSend _ _ _ \<Rightarrow> cls_SetZoneSend)"

text \<open>The profiles of the receivers; an address is asked for by game servers and by the router.\<close>

fun control_receivers :: "control_msg \<Rightarrow> profile list" where
  "control_receivers LoginOnlineSend = [LoginProfile]"
| "control_receivers (RouterChangeZoneSend _ _ _) = [RouterProfile]"
| "control_receivers (RouterNewUserSend _ _ _) = [RouterProfile]"
| "control_receivers (RouterDeleteUserSend _) = [RouterProfile]"
| "control_receivers (IPServerSend _ _ _) = [GameServerProfile, RouterProfile]"
| "control_receivers _ = [GameServerProfile]"

fun net_links :: "net_msg \<Rightarrow> (profile \<times> profile) list" where
  "net_links (FromControl m) = map (Pair ControlProfile) (control_receivers m)"
| "net_links (FromGame (EndZoneTransferSend _)) = [(GameServerProfile, RouterProfile)]"
| "net_links (FromGame _) = [(GameServerProfile, ControlProfile)]"
| "net_links (FromRouter (GetServerIpMsg _)) = [(RouterProfile, ControlProfile)]"
| "net_links (FromRouter AddRouterMsg) = [(RouterProfile, GameServerProfile)]"
| "net_links (FromRouter (ConnectClientMsg _ _)) = [(RouterProfile, ClientProfile)]"
| "net_links (FromRouter (Relayed _)) = []"
| "net_links (FromLogin (NewClientSend _ _)) = [(LoginProfile, ControlProfile)]"
| "net_links (FromLogin (ClientDisconnectSend _ _)) = [(LoginProfile, ControlProfile)]"
| "net_links (FromLogin _) = [(LoginProfile, ClientProfile)]"
| "net_links (FromClient (ClLoginRequestSend _ _)) = [(ClientProfile, LoginProfile)]"
| "net_links (FromClient _) = [(ClientProfile, RouterProfile)]"

text \<open>The character arrays have their declared sizes.\<close>

fun well_sized :: "net_msg \<Rightarrow> bool" where
  "well_sized (FromControl (IPServerSend _ ip port)) = (length ip = 16 \<and> length port = 5)"
| "well_sized (FromLogin (LoginRequestSend _ ip port _ _)) = (length ip = 16 \<and> length port = 5)"
| "well_sized (FromClient (ClLoginRequestSend u p)) = (length u = 32 \<and> length p = 32)"
| "well_sized _ = True"

text \<open>The messages whose number the receiver does not know (or, for the end of a transfer, the
  sender itself), and the two it reads other fields for.\<close>

fun unknown_msg :: "net_msg \<Rightarrow> bool" where
  "unknown_msg (FromGame (EndZoneTransferSend _)) = True"
| "unknown_msg (FromRouter AddRouterMsg) = True"
| "unknown_msg (FromLogin (LogoutRequestSend _)) = True"
| "unknown_msg (FromClient (SetDestinationSend _ _ _ _ _)) = True"
| "unknown_msg (FromClient (SetZoneSend _ _ _)) = True"
| "unknown_msg _ = False"

fun misread_msg :: "net_msg \<Rightarrow> bool" where
  "misread_msg (FromControl (RemoveZoneSend _)) = True"
| "misread_msg (FromLogin (ClientDisconnectSend _ _)) = True"
| "misread_msg _ = False"

lemmas profile_defs = ControlProfile_def GameServerProfile_def RouterProfile_def LoginProfile_def ClientProfile_def

lemmas received_classes = cls_ServerLoadRcvd_def cls_IPServerRcvd_def cls_NewUserRcvd_def
  cls_DisconnectUserRcvd_def ccls_def cls_ServerLoadOrderRcvd_def cls_SetZoneOrderRcvd_def
  cls_GetZoneOrderRcvd_def cls_SetServerIpRvcd_def cls_GsSetZoneToServerRcvd_def cls_GsAddUserRcvd_def
  cls_GsDelUserRcvd_def gcls_def router_classes cls_LoginRequestRcvd_def cls_LogoutRequestRcvd_def
  cls_ControlConnectionRcvd_def lcls_def cls_ClLoginRequestRcvd_def cls_ConnectCLientReceived_def
  cls_SetUserStatusRcvd_def cls_SetZoneRcvd_def cl_cls_def

lemma val_type_raw [simp]:
  "val_type (VI i) = FInt" "val_type (raw_int ri j) = FInt" "val_type (raw_chars rb cs) = FChars (length cs)"
  by (simp_all add: VI_def raw_int_def raw_chars_def split: option.split)

lemmas wire_simps = typed_for_def received_class_def profile_defs received_classes

text \<open>A constructed object has its class's name and fields.\<close>

lemma net_wire_class:
  "well_sized m \<Longrightarrow> fst (net_wire ri rb m) = dc_name (net_class m)
     \<and> map val_type (snd (net_wire ri rb m)) = dc_fields (net_class m)"
proof (cases m)
  case (FromControl c)
  assume "well_sized m"
  then show ?thesis using FromControl
    by (cases c) (simp_all add: sent_classes IPLENGTH_def PORTLENGTH_def)
next
  case (FromGame g)
  then show ?thesis by (cases g) (simp_all add: sent_classes)
next
  case (FromRouter r)
  then show ?thesis by (cases r) (simp_all add: sent_classes router_classes)
next
  case (FromLogin l)
  assume "well_sized m"
  then show ?thesis using FromLogin by (cases l) (simp_all add: sent_classes)
next
  case (FromClient c)
  assume "well_sized m"
  then show ?thesis using FromClient by (cases c) (simp_all add: sent_classes)
qed

lemma control_typing:
  assumes "well_sized (FromControl m)" and "p \<in> set (control_receivers m)"
  shows "typed_for ControlProfile p (control_wire ri rb m) \<longleftrightarrow> \<not> misread_msg (FromControl m)"
    and "received_class ControlProfile p (fst (control_wire ri rb m)) \<noteq> None"
  using assms by (cases m; auto simp: wire_simps)+

lemma net_typing:
  assumes "well_sized m" and "(ps, pr) \<in> set (net_links m)"
  shows "typed_for ps pr (net_wire ri rb m) \<longleftrightarrow> \<not> unknown_msg m \<and> \<not> misread_msg m"
    and "received_class ps pr (fst (net_wire ri rb m)) = None \<longleftrightarrow> unknown_msg m"
proof -
  have "(typed_for ps pr (net_wire ri rb m) \<longleftrightarrow> \<not> unknown_msg m \<and> \<not> misread_msg m) \<and>
    (received_class ps pr (fst (net_wire ri rb m)) = None \<longleftrightarrow> unknown_msg m)"
  proof (cases m)
    case (FromControl c)
    with assms control_typing [of c pr ri rb] show ?thesis by auto
  next
    case (FromGame g)
    with assms show ?thesis by (cases g) (auto simp: wire_simps)
  next
    case (FromRouter r)
    with assms show ?thesis by (cases r) (auto simp: wire_simps)
  next
    case (FromLogin l)
    with assms show ?thesis by (cases l) (auto simp: wire_simps)
  next
    case (FromClient c)
    with assms show ?thesis by (cases c) (auto simp: wire_simps)
  qed
  then show "typed_for ps pr (net_wire ri rb m) \<longleftrightarrow> \<not> unknown_msg m \<and> \<not> misread_msg m"
    and "received_class ps pr (fst (net_wire ri rb m)) = None \<longleftrightarrow> unknown_msg m" by simp_all
qed

lemma known_not_thrown:
  "received_class ps pr (fst m) = Some c \<Longrightarrow> transmit base ps pr pad behind m \<noteq> Inl (Throw e)"
  by (auto simp: transmit_eq received_class_def bind_eq_Some_conv creator_create_def split: if_splits)

lemma fimage_one_int: "fimage pad [VInt w] = int_bytes w @ map pad [4, 5, 6, 7]"
  by (simp add: fimage_def pad_to_def upt_conv_Cons)

lemma fimage_two_ints: "fimage pad [VInt v, VInt w] = int_bytes v @ int_bytes w"
  by (simp add: fimage_def pad_to_def)

lemma take_int_bytes [simp]: "take 4 (int_bytes w @ bs) = int_bytes w" "drop 4 (int_bytes w @ bs) = bs"
  by simp_all

lemma removeZone_misread:
  "transmit base ControlProfile GameServerProfile pad behind (control_wire ri rb (RemoveZoneSend z)) =
     Inr (cls_SetZoneOrderRcvd, [VI z, VInt (bytes_int (map pad [4, 5, 6, 7]))])"
  by (simp add: transmit_eq profile_defs creator_create_def VI_def fimage_one_int cls_SetZoneOrderRcvd_def gcls_def
      fields_size_def pad_to_def)

lemma clientDisconnect_misread:
  "transmit base LoginProfile ControlProfile pad behind (login_wire ri rb (ClientDisconnectSend i t)) =
     Inr (cls_DisconnectUserRcvd, [VI i])"
  by (simp add: transmit_eq profile_defs creator_create_def VI_def fimage_two_ints cls_DisconnectUserRcvd_def
      ccls_def fields_size_def pad_to_def)

section \<open>Some messages as the instructions they become\<close>

lemma newClient_received:
  assumes "int32 i" and "int32 t"
  shows "received control_inst_of base LoginProfile ControlProfile pad behind
      (login_wire ri rb (NewClientSend (Some i) (Some t))) = Some (NewUserRcvd i t)"
proof -
  let ?m = "login_wire ri rb (NewClientSend (Some i) (Some t))"
  have "typed_for LoginProfile ControlProfile ?m" "received_class LoginProfile ControlProfile (fst ?m) = Some cls_NewUserRcvd"
    by (simp_all add: wire_simps)
  from typed_received [OF this, of control_inst_of base pad behind] show ?thesis
    using assms by (simp add: received_classes raw_int_def VI_def)
qed

lemma routerNewUser_received:
  assumes "int32 i" and "int32 t" and "int32 z"
  shows "received router_inst_of base ControlProfile RouterProfile pad behind
      (control_wire ri rb (RouterNewUserSend i t z)) = Some (AddUserRcvd i t z)"
proof -
  let ?m = "control_wire ri rb (RouterNewUserSend i t z)"
  have "typed_for ControlProfile RouterProfile ?m" "received_class ControlProfile RouterProfile (fst ?m) = Some cls_AddUserRcvd"
    by (simp_all add: wire_simps)
  from typed_received [OF this, of router_inst_of base pad behind] show ?thesis
    using assms by (simp add: received_classes raw_int_def VI_def)
qed

lemma gameNewUser_received:
  assumes "int32 i" and "int32 z"
  shows "received gs_inst_of base ControlProfile GameServerProfile pad behind
      (control_wire ri rb (GameNewUserSend i z)) = Some (GsAddUserRcvd i z)"
proof -
  let ?m = "control_wire ri rb (GameNewUserSend i z)"
  have "typed_for ControlProfile GameServerProfile ?m" "received_class ControlProfile GameServerProfile (fst ?m) = Some cls_GsAddUserRcvd"
    by (simp_all add: wire_simps)
  from typed_received [OF this, of gs_inst_of base pad behind] show ?thesis
    using assms by (simp add: received_classes raw_int_def VI_def)
qed

lemma setZoneToServer_received:
  assumes "int32 z" and "int32 sv"
  shows "received gs_inst_of base ControlProfile GameServerProfile pad behind
      (control_wire ri rb (SetZoneToServerSend z sv)) = Some (GsSetZoneToServerRcvd z sv)"
proof -
  let ?m = "control_wire ri rb (SetZoneToServerSend z sv)"
  have "typed_for ControlProfile GameServerProfile ?m" "received_class ControlProfile GameServerProfile (fst ?m) = Some cls_GsSetZoneToServerRcvd"
    by (simp_all add: wire_simps)
  from typed_received [OF this, of gs_inst_of base pad behind] show ?thesis
    using assms by (simp add: received_classes raw_int_def VI_def)
qed

lemma loginRequest_received:
  assumes "nul_free user" and "nul_free pwd"
  shows "received (login_event_of c) base ClientProfile LoginProfile pad behind
      (client_wire (ClLoginRequestSend_new user pwd)) =
      Some (OnLogin (strncpy_bytes 31 user @ [0]) (strncpy_bytes 31 pwd @ [0]) c)"
proof -
  let ?m = "client_wire (ClLoginRequestSend_new user pwd)"
  have "typed_for ClientProfile LoginProfile ?m"
      "received_class ClientProfile LoginProfile (fst ?m) = Some cls_LoginRequestRcvd"
    using strncpy_bytes_read(1) [OF assms(1), of 31] strncpy_bytes_read(1) [OF assms(2), of 31]
    by (simp_all add: wire_simps ClLoginRequestSend_new_def)
  from typed_received [OF this, of "login_event_of c" base pad behind] show ?thesis
    by (simp add: received_classes ClLoginRequestSend_new_def)
qed

lemma loginAnswer_received:
  assumes "int32 a" and "length ip = 16" and "length port = 5"
  shows "received client_inst_of base LoginProfile ClientProfile pad behind
      (login_wire ri rb (LoginRequestSend a ip port i t)) =
      Some (ClLoginRequestRcvd a (map (case_option rb id) ip) (map (case_option rb id) port)
        (case i of None \<Rightarrow> sint ri | Some j \<Rightarrow> sint (word_of_int j :: 32 word))
        (case t of None \<Rightarrow> sint ri | Some j \<Rightarrow> sint (word_of_int j :: 32 word)))"
proof -
  let ?m = "login_wire ri rb (LoginRequestSend a ip port i t)"
  have "typed_for LoginProfile ClientProfile ?m"
      "received_class LoginProfile ClientProfile (fst ?m) = Some cls_ClLoginRequestRcvd"
    using assms by (simp_all add: wire_simps)
  from typed_received [OF this, of client_inst_of base pad behind] show ?thesis
    using assms by (simp add: received_classes client_inst_of_def raw_int_def raw_chars_def VI_def id_def split: option.split)
qed

lemma connectClient_received:
  assumes "int32 i" and "int32 t"
  shows "received router_inst_of base ClientProfile RouterProfile pad behind
      (client_wire (ConnectClientSend i t)) = Some (ConnectUserRcvd i t)"
proof -
  let ?m = "client_wire (ConnectClientSend i t)"
  have "typed_for ClientProfile RouterProfile ?m"
      "received_class ClientProfile RouterProfile (fst ?m) = Some cls_ConnectUserRcvd"
    by (simp_all add: wire_simps)
  from typed_received [OF this, of router_inst_of base pad behind] show ?thesis
    using assms by (simp add: received_classes VI_def)
qed

section \<open>Properties\<close>

text \<open>C2. The protocol is typed but for seven messages. A message that is sent over a link of the
  system has, at the receiver, a class with the fields of the sender's class, and arrives,
  whatever padding and stray memory hold, as an object of that class with exactly the values
  that were written, unless it is one of these: the receiver has no class for its number and
  its connection throws (a client's zone and destination, the answer to a logout, the router's
  greeting to a game server), the sender itself has no number for it (the end of a transfer),
  or the receiver's class has other fields (the removal of a zone, the disconnection of a
  client).\<close>

theorem protocol_is_typed:
  assumes "well_sized m" and "(ps, pr) \<in> set (net_links m)"
  shows "((\<exists>c. received_class ps pr (dc_name (net_class m)) = Some c \<and> dc_fields c = dc_fields (net_class m)
        \<and> transmit base ps pr pad behind (net_wire ri rb m) = Inr (c, snd (net_wire ri rb m)))
      \<longleftrightarrow> \<not> unknown_msg m \<and> \<not> misread_msg m)
    \<and> ((\<exists>e. transmit base ps pr pad behind (net_wire ri rb m) = Inl (Throw (VersionException e))) \<longleftrightarrow> unknown_msg m)"
proof -
  let ?obj = "net_wire ri rb m"
  note typing = net_typing [OF assms(1,2), of ri rb]
  have "(\<exists>e. transmit base ps pr pad behind ?obj = Inl (Throw (VersionException e))) \<longleftrightarrow>
      received_class ps pr (fst ?obj) = None"
    using unknown_not_delivered [of ps pr ?obj base pad behind] known_not_thrown [of ps pr ?obj _ base pad behind]
    by (cases "received_class ps pr (fst ?obj)") auto
  moreover note net_wire_class [OF assms(1), of ri rb]
  ultimately show ?thesis
    using typing typed_arrives [of ps pr ?obj base pad behind] by (auto simp: typed_for_def)
qed

theorem protocol_is_typed_witness:
  "(\<exists>c. transmit 40 ControlProfile GameServerProfile (\<lambda>_. 7) [] (net_wire 0 0 (FromControl (GetZoneSend 2 1)))
      = Inr (c, [VI 2, VI 1]))
    \<and> (\<exists>e. transmit 40 RouterProfile GameServerProfile (\<lambda>_. 7) [] (net_wire 0 0 (FromRouter AddRouterMsg))
      = Inl (Throw (VersionException e)))"
  using protocol_is_typed [of "FromControl (GetZoneSend 2 1)" ControlProfile GameServerProfile 40 "\<lambda>_. 7" "[]" 0 0]
    protocol_is_typed [of "FromRouter AddRouterMsg" RouterProfile GameServerProfile 40 "\<lambda>_. 7" "[]" 0 0]
  by (auto simp: VI_def)

text \<open>C5. What the control server says arrives: every message it has sent in any reachable state, to
  whichever connection, becomes at its receiver an object of a known class with the fields as
  they were sent, except that of an order to remove a zone the game server reads a second
  field out of the padding behind the first.\<close>

theorem control_traffic_arrives:
  assumes "km_reach db t"
    and "CSend c m \<in> set (ct_events (km_control t)) \<or> CAnswer c m \<in> set (ct_events (km_control t))"
    and "p \<in> set (control_receivers m)"
  shows "meant_for (km_control t) c m \<and>
    (\<exists>cls. transmit base (the (tf_profile (km_factory t))) p pad behind (control_wire ri rb m) = Inr (cls,
       case m of RemoveZoneSend z \<Rightarrow> [VI z, VInt (bytes_int (map pad [4, 5, 6, 7]))]
       | _ \<Rightarrow> snd (control_wire ri rb m)))"
proof -
  have f: "the (tf_profile (km_factory t)) = ControlProfile"
    using reach_factory [OF assms(1)] factory_profile [of ControlProfile]
    by (simp add: control_factory_def program_factory_def)
  have m: "meant_for (km_control t) c m"
    using reach_spoken [OF assms(1)] assms(2) by (auto simp: spoken_def)
  then have "well_sized (FromControl m)" by (cases m) (simp_all add: IPLENGTH_def PORTLENGTH_def)
  note typing = control_typing(1) [OF this assms(3), of ri rb]
  show ?thesis
  proof (cases "misread_msg (FromControl m)")
    case True
    then obtain z where "m = RemoveZoneSend z" by (cases m) simp_all
    then show ?thesis using m assms(3) removeZone_misread [of base pad behind ri rb z] by (simp add: f)
  next
    case False
    then obtain cls where "transmit base ControlProfile p pad behind (control_wire ri rb m) =
        Inr (cls, snd (control_wire ri rb m))"
      using typing typed_arrives [of ControlProfile p "control_wire ri rb m" base pad behind] by auto
    then show ?thesis using m False f by (cases m) auto
  qed
qed

theorem control_traffic_arrives_witness:
  "\<exists>t cls. km_reach (\<lambda>_. None) t \<and> CSend 0 (SetZoneToServerSend 0 0) \<in> set (ct_events (km_control t))
    \<and> transmit 40 ControlProfile GameServerProfile (\<lambda>_. 0) [] (control_wire 0 0 (SetZoneToServerSend 0 0)) =
        Inr (cls, [VI 0, VI 0])"
proof -
  obtain t where t: "ct_main_start (Some 2) (DbRows ex_rows) (\<lambda>_. True) (\<lambda>_. Fin 0) (\<lambda>_. True) 4 = Ret (Some t)"
      "CSend 0 (SetZoneToServerSend 0 0) \<in> set (ct_events (km_control t))"
    using ex_main_start by blast
  then have r: "km_reach (\<lambda>_. None) t" by (blast intro: km_started)
  have "tf_profile (km_factory t) = Some ControlProfile"
    using reach_factory [OF r] factory_profile [of ControlProfile]
    by (simp add: control_factory_def program_factory_def)
  then show ?thesis
    using control_traffic_arrives [OF r, of 0 "SetZoneToServerSend 0 0" GameServerProfile 40 "\<lambda>_. 0" "[]" 0 0]
      r t(2) by (auto simp: VI_def)
qed

end
