(* ===== verification/Load_Round.thy ===== *)
theory Load_Round
  imports Protocol
begin

text \<open>
  A round of load requests over several game servers: each answers on the control server's
  connection, the answers cross the wire as the bytes of their objects, and the control server
  executes them in whatever order they come in.
\<close>

section \<open>From a game server to the control server\<close>

text \<open>What a game server sends on connection \<open>c\<close> when it executes a request for its loads.\<close>

definition load_messages :: "gconn \<Rightarrow> gserver \<Rightarrow> gs_msg list" where
  "load_messages c g = (case gs_exec ServerLoadOrderRcvd c g of Inl e \<Rightarrow> []
     | Inr g' \<Rightarrow> concat (map (\<lambda>s. case s of GsAnswer d m \<Rightarrow> (if d = c then [m] else []) | GsSend d m \<Rightarrow> [])
         (drop (length (gs_sent g)) (gs_sent g'))))"

text \<open>A message, read by the control server as a load report.\<close>

definition read_report ::
    "nat \<Rightarrow> (nat \<Rightarrow> byte) \<Rightarrow> byte list \<Rightarrow> gs_msg \<Rightarrow> load_report list" where
  "read_report base pad behind m =
     (case received control_inst_of base GameServerProfile ControlProfile pad behind (gs_wire m) of
        Some (ServerLoadRcvd sv z l r) \<Rightarrow> [(sv, z, l, r)] | _ \<Rightarrow> [])"

definition load_answers ::
    "nat \<Rightarrow> (nat \<Rightarrow> byte) \<Rightarrow> byte list \<Rightarrow> gconn \<Rightarrow> gserver \<Rightarrow> load_report list" where
  "load_answers base pad behind c g = concat (map (read_report base pad behind) (load_messages c g))"

text \<open>The server's numbers fit 32 bits and its loads are doubles.\<close>

definition sane_server :: "gserver \<Rightarrow> bool" where
  "sane_server g = (int32 (gs_id g) \<and> int32 (int (length (gs_zones g)))
     \<and> (\<forall>(z, h, l) \<in> set (gs_zones g). int32 z \<and> dbl_ok (zh_getLoad h)))"

definition load_report_of :: "gserver \<Rightarrow> nat \<Rightarrow> load_report" where
  "load_report_of g k = (gs_id g, fst (gs_zones g ! k), zh_getLoad (fst (snd (gs_zones g ! k))),
     int (length (gs_zones g)) - 1 - int k)"

lemma load_messages_eq:
  "load_messages c g = gs_loads_loop (gs_id g) (gs_zones g) (int (length (gs_zones g)))"
  by (simp add: load_messages_def gs_exec_def cls_ServerLoadOrderRcvd_def gcls_def
      ServerLoadOrderRcvd_exec_def gs_SendZoneLoads_def comp_def concat_map_singleton)

lemma read_report_exact:
  assumes "int32 sv" and "int32 z" and "dbl_ok l" and "int32 r"
  shows "read_report base pad behind (ServerLoadAnswerSend sv z l r) = [(sv, z, l, r)]"
proof -
  let ?m = "gs_wire (ServerLoadAnswerSend sv z l r)"
  have "typed_for GameServerProfile ControlProfile ?m"
    "received_class GameServerProfile ControlProfile (fst ?m) = Some cls_ServerLoadRcvd"
    by (simp_all add: wire_simps)
  from typed_received [OF this, of control_inst_of base pad behind] show ?thesis
    using assms by (simp add: read_report_def cls_ServerLoadRcvd_def ccls_def VI_def dbl_bits_value)
qed

lemma loads_arrive:
  assumes "sane_server g"
  shows "load_answers base pad behind c g = map (load_report_of g) [0..<length (gs_zones g)]"
proof -
  let ?n = "length (gs_zones g)"
  have "read_report base pad behind (ServerLoadAnswerSend (gs_id g) (fst (gs_zones g ! k))
      (zh_getLoad (fst (snd (gs_zones g ! k)))) (int ?n - 1 - int k)) = [load_report_of g k]" if k: "k < ?n" for k
  proof -
    have "gs_zones g ! k \<in> set (gs_zones g)" using k by simp
    then have "int32 (fst (gs_zones g ! k))" "dbl_ok (zh_getLoad (fst (snd (gs_zones g ! k))))"
      using assms by (force simp: sane_server_def)+
    moreover have "int32 (int ?n - 1 - int k)" "int32 (gs_id g)"
      using assms k by (auto simp: sane_server_def int32_def)
    ultimately show ?thesis by (simp add: read_report_exact load_report_of_def)
  qed
  then have e: "map (\<lambda>k. read_report base pad behind (ServerLoadAnswerSend (gs_id g) (fst (gs_zones g ! k))
      (zh_getLoad (fst (snd (gs_zones g ! k)))) (int ?n - 1 - int k))) [0..<?n] = map (\<lambda>k. [load_report_of g k]) [0..<?n]"
    by simp
  show ?thesis
    unfolding load_answers_def load_messages_eq gs_loads_loop_nth map_map comp_def e
    by (simp add: concat_map_singleton)
qed

text \<open>C20. The loads a game server has measured arrive unchanged: its answers to one request, turned
  into bytes with whatever padding and stray memory, are read by the control server as one
  report for each zone, in the order of the zones, with the server's id, the zone, exactly the
  double that was its load, and the number of zones still to come.\<close>

theorem loads_arrive_unchanged:
  assumes "sane_server g"
  shows "load_answers base pad behind c g = map (load_report_of g) [0..<length (gs_zones g)]"
  using assms by (rule loads_arrive)

theorem loads_arrive_unchanged_witness:
  "load_answers 40 (\<lambda>_. 9) [] 3 (gs_new\<lparr>gs_id := 1, gs_zones := [(5, zh_new 5, zh_loop_init), (6, zh_new 6, zh_loop_init)]\<rparr>)
     = [(1, 5, Fin 0, 1), (1, 6, Fin 0, 0)]"
proof -
  let ?g = "gs_new\<lparr>gs_id := 1, gs_zones := [(5, zh_new 5, zh_loop_init), (6, zh_new 6, zh_loop_init)]\<rparr>"
  have l: "zh_getLoad (zh_new z) = Fin 0" for z by (simp add: zh_getLoad_def zh_new_def)
  have "sane_server ?g" by (simp add: sane_server_def int32_def l)
  from loads_arrive_unchanged [OF this] show ?thesis
    by (simp add: load_report_of_def l upt_conv_Cons)
qed

section \<open>All answers of a round\<close>

definition all_live :: "control \<Rightarrow> bool" where
  "all_live s = (\<forall>a \<in> set (ct_servers s). st_look (ct_heap s) a \<noteq> None)"

text \<open>A report faults when it is the last one of a known server and the server's id is no bit.\<close>

definition shift_faults :: "control \<Rightarrow> load_report \<Rightarrow> bool" where
  "shift_faults s m = (case m of (i, z, l, r) \<Rightarrow> r = 0 \<and> known_id s i \<and> \<not> (0 \<le> i \<and> i < 32))"

lemma report_loop_outcome:
  "\<forall>a \<in> set as. st_look (ct_heap s) a \<noteq> None \<Longrightarrow>
   case ServerLoadRcvd_loop i z l r as s of
     Inl e \<Rightarrow> e = UB BadShift \<and> r = 0 \<and> \<not> (0 \<le> i \<and> i < 32) \<and>
       (\<exists>a \<in> set as. \<exists>v. st_look (ct_heap s) a = Some v \<and> cs_id v = i)
   | Inr s' \<Rightarrow> \<not> (r = 0 \<and> \<not> (0 \<le> i \<and> i < 32) \<and>
       (\<exists>a \<in> set as. \<exists>v. st_look (ct_heap s) a = Some v \<and> cs_id v = i))"
proof (induction as arbitrary: s)
  case (Cons a as)
  obtain v where v: "st_look (ct_heap s) a = Some v" using Cons.prems by auto
  have rest: "\<forall>b \<in> set as. st_look (ct_heap (ct_put a (cs_report z l v) s)) b \<noteq> None"
    using Cons.prems v by simp
  show ?case
  proof (cases "cs_id v = i")
    case True
    show ?thesis
    proof (cases "r = 0")
      case r: True
      with True v show ?thesis
        by (cases "0 \<le> i \<and> i < 32") (auto simp: ct_get_live ct_clearBit_def Let_def)
    next
      case r: False
      with True v Cons.IH [OF rest] show ?thesis by (auto simp: ct_get_live Let_def split: sum.splits)
    qed
  next
    case False
    with v Cons.IH [of s] Cons.prems show ?thesis by (auto simp: ct_get_live split: sum.splits)
  qed
qed simp

lemma report_outcome:
  assumes "all_live s"
  shows "case ServerLoadRcvd_exec i z l r s of
      Inl e \<Rightarrow> e = UB BadShift \<and> shift_faults s (i, z, l, r)
    | Inr s' \<Rightarrow> \<not> shift_faults s (i, z, l, r) \<and> same_ids s s' \<and> all_live s'"
proof (cases "ServerLoadRcvd_exec i z l r s")
  case (Inl e)
  with report_loop_outcome [where as = "ct_servers s" and s = s and i = i and z = z and l = l and r = r] assms show ?thesis
    by (auto simp: all_live_def ServerLoadRcvd_exec_def shift_faults_def known_id_def)
next
  case (Inr s')
  have same: "same_ids s s'" using report_exec [OF Inr] by simp
  have "st_look (ct_heap s') a \<noteq> None" if "st_look (ct_heap s) a \<noteq> None" for a
    using same that by (metis same_ids_def option.map_disc_iff)
  then have "all_live s'" using assms same by (simp add: same_ids_def all_live_def)
  with same Inr report_loop_outcome [where as = "ct_servers s" and s = s and i = i and z = z and l = l and r = r] assms show ?thesis
    by (auto simp: all_live_def ServerLoadRcvd_exec_def shift_faults_def known_id_def)
qed

lemma receive_reports_outcome:
  "all_live s \<Longrightarrow> case receive_reports ms s of
      Inl e \<Rightarrow> e = UB BadShift \<and> (\<exists>m \<in> set ms. shift_faults s m)
    | Inr s' \<Rightarrow> (\<forall>m \<in> set ms. \<not> shift_faults s m)"
proof (induction ms arbitrary: s)
  case Nil
  then show ?case by (simp add: receive_reports_def)
next
  case (Cons m ms)
  obtain i z l r where m: "m = (i, z, l, r)" by (cases m) auto
  show ?case
  proof (cases "ServerLoadRcvd_exec i z l r s")
    case (Inl e)
    with report_outcome [OF Cons.prems, where i = i and z = z and l = l and r = r] m show ?thesis by (simp add: receive_reports_def)
  next
    case (Inr s1)
    with report_outcome [OF Cons.prems, where i = i and z = z and l = l and r = r] have s1: "\<not> shift_faults s m" "same_ids s s1" "all_live s1"
      using m by simp_all
    have "shift_faults s1 x = shift_faults s x" for x
      using same_ids_known [OF s1(2)] by (cases x) (simp add: shift_faults_def)
    with Cons.IH [OF s1(3)] s1(1) Inr m show ?thesis
      by (auto simp: receive_reports_def split: sum.splits)
  qed
qed

text \<open>As many ids as servers: when every id below their number is there, there is no other.\<close>

lemma known_ids_exact:
  assumes "all_live s"
  shows "(\<forall>i < length (ct_servers s). known_id s (int i)) \<longleftrightarrow>
    {i. known_id s i} = int ` {..<length (ct_servers s)}"
proof
  let ?f = "\<lambda>a. cs_id (the (st_look (ct_heap s) a))"
  have ids: "{i. known_id s i} = ?f ` set (ct_servers s)"
    using assms by (force simp: known_id_def all_live_def image_iff)
  assume "\<forall>i < length (ct_servers s). known_id s (int i)"
  then have "int ` {..<length (ct_servers s)} \<subseteq> {i. known_id s i}" by auto
  moreover have "card {i. known_id s i} \<le> card (int ` {..<length (ct_servers s)})"
    unfolding ids using card_image_le [of "set (ct_servers s)" ?f] card_length [of "ct_servers s"]
    by (simp add: card_image inj_on_def)
  moreover have "finite {i. known_id s i}" unfolding ids by simp
  ultimately show "{i. known_id s i} = int ` {..<length (ct_servers s)}"
    using card_seteq by metis
next
  assume "{i. known_id s i} = int ` {..<length (ct_servers s)}"
  then show "\<forall>i < length (ct_servers s). known_id s (int i)" by (metis imageI lessThan_iff mem_Collect_eq)
qed

lemma last_report:
  assumes "sane_server g"
  shows "(\<exists>z l. (sv, z, l, 0) \<in> set (load_answers base pad behind c g)) \<longleftrightarrow> sv = gs_id g \<and> gs_zones g \<noteq> []"
proof -
  let ?n = "length (gs_zones g)"
  have "(\<exists>z l. (sv, z, l, 0) \<in> set (load_answers base pad behind c g)) \<longleftrightarrow>
      (\<exists>k < ?n. sv = gs_id g \<and> int ?n - 1 - int k = 0)"
    unfolding loads_arrive [OF assms] set_map set_upt image_iff load_report_of_def by fastforce
  also have "\<dots> \<longleftrightarrow> sv = gs_id g \<and> gs_zones g \<noteq> []"
    by (cases ?n) (auto intro: exI [of _ "?n - 1"])
  finally show ?thesis .
qed

text \<open>C18. A round of load requests, whatever order the answers of the game servers come in, with the
  mask of awaited answers started with one bit for each listed server, whose objects are all
  there, and with numbers at the game servers that fit their C types. When a game server that
  hosts a zone has an id that the control server knows but that is negative or 32 or more, its
  last answer makes the control server shift by it, which is undefined. Otherwise every answer
  is executed without a fault, and the mask is empty after them exactly when the ids of the
  listed servers are 0 up to their number and each of these ids is that of a game server that
  hosts a zone. So a server without a zone, which answers nothing, or one with an id that is
  not below the number of the servers keeps the mask from ever emptying.\<close>

theorem load_round_completes_iff:
  assumes "all_live s" and "\<forall>j. bit (ct_mask s) j \<longleftrightarrow> j < length (ct_servers s)"
    and "\<forall>g \<in> set gs. sane_server g"
    and "set ms = (\<Union>g \<in> set gs. set (load_answers base pad behind c g))"
  shows "case receive_reports ms s of
      Inl e \<Rightarrow> e = UB BadShift \<and>
        (\<exists>g \<in> set gs. gs_zones g \<noteq> [] \<and> known_id s (gs_id g) \<and> (gs_id g < 0 \<or> 32 \<le> gs_id g))
    | Inr s' \<Rightarrow> \<not> (\<exists>g \<in> set gs. gs_zones g \<noteq> [] \<and> known_id s (gs_id g) \<and> (gs_id g < 0 \<or> 32 \<le> gs_id g)) \<and>
        (ct_mask s' = 0 \<longleftrightarrow> {i. known_id s i} = int ` {..<length (ct_servers s)} \<and>
          (\<forall>i < length (ct_servers s). \<exists>g \<in> set gs. gs_id g = int i \<and> gs_zones g \<noteq> []))"
proof -
  have last: "(\<exists>z l. (sv, z, l, 0) \<in> set ms) \<longleftrightarrow> (\<exists>g \<in> set gs. gs_id g = sv \<and> gs_zones g \<noteq> [])" for sv
    using assms(3) last_report by (auto simp: assms(4)) metis+
  have "(\<exists>m \<in> set ms. shift_faults s m) \<longleftrightarrow>
      (\<exists>sv. (\<exists>z l. (sv, z, l, 0) \<in> set ms) \<and> known_id s sv \<and> \<not> (0 \<le> sv \<and> sv < 32))"
    by (force simp: shift_faults_def)
  then have bad: "(\<exists>m \<in> set ms. shift_faults s m) \<longleftrightarrow>
      (\<exists>g \<in> set gs. gs_zones g \<noteq> [] \<and> known_id s (gs_id g) \<and> (gs_id g < 0 \<or> 32 \<le> gs_id g))"
    unfolding last by (auto simp: not_le not_less)
  show ?thesis
  proof (cases "receive_reports ms s")
    case (Inl e)
    with receive_reports_outcome [OF assms(1), where ms = ms] bad show ?thesis by simp
  next
    case (Inr s')
    have "ct_mask s' = 0 \<longleftrightarrow> {i. known_id s i} = int ` {..<length (ct_servers s)} \<and>
        (\<forall>i < length (ct_servers s). \<exists>g \<in> set gs. gs_id g = int i \<and> gs_zones g \<noteq> [])"
      unfolding reports_empty_mask [OF Inr assms(2)] known_ids_exact [OF assms(1), symmetric] last by blast
    with receive_reports_outcome [OF assms(1), where ms = ms] bad Inr show ?thesis by simp
  qed
qed

theorem load_round_completes_iff_witness:
  "\<exists>s'. receive_reports [(1, 6, Fin 0, 0), (0, 5, Fin 0, 0)] (ex_started\<lparr>ct_mask := 3\<rparr>) = Inr s' \<and> ct_mask s' = 0"
proof -
  let ?s = "ex_started\<lparr>ct_mask := 3\<rparr>"
  let ?a = "gs_new\<lparr>gs_id := 0, gs_zones := [(5, zh_new 5, zh_loop_init)]\<rparr>"
    and ?b = "gs_new\<lparr>gs_id := 1, gs_zones := [(6, zh_new 6, zh_loop_init)]\<rparr>"
  let ?ms = "[(1, 6, Fin 0, 0), (0, 5, Fin 0, 0)] :: load_report list"
  have l: "zh_getLoad (zh_new z) = Fin 0" for z by (simp add: zh_getLoad_def zh_new_def)
  have sane: "sane_server ?a" "sane_server ?b" by (simp_all add: sane_server_def int32_def l)
  then have gs: "\<forall>g \<in> set [?a, ?b]. sane_server g" by simp
  have live: "all_live ?s" and n: "length (ct_servers ?s) = 2"
    and "known_id ?s 0" "known_id ?s 1"
    using ex_started_value by (simp_all add: all_live_def known_id_def cserver_new_def)
  then have known: "{i. known_id ?s i} = int ` {..<length (ct_servers ?s)}"
    unfolding known_ids_exact [OF live, symmetric] by (simp add: less_2_cases_iff)
  have bits: "\<forall>j. bit (ct_mask ?s) j \<longleftrightarrow> j < length (ct_servers ?s)" using bits_of_3 n by simp
  have "set ?ms = (\<Union>g \<in> set [?a, ?b]. set (load_answers 40 (\<lambda>_. 0) [] 0 g))"
    unfolding list.set UN_insert UN_empty loads_arrive [OF sane(1)] loads_arrive [OF sane(2)]
    by (simp add: load_report_of_def l insert_commute)
  note round = load_round_completes_iff [OF live bits gs this]
  have "\<exists>g \<in> set [?a, ?b]. gs_id g = int i \<and> gs_zones g \<noteq> []" if "i < length (ct_servers ?s)" for i
    using that n by (cases "i = 0") (simp_all add: less_2_cases_iff)
  with round known show ?thesis by (cases "receive_reports ?ms ?s") auto
qed

end
