(* ===== verification/Connection_Manager.thy ===== *)
theory Connection_Manager
  imports Tcp_Secure Tcp_Plain
begin

text \<open>
  \<open>ConnectionManager\<close> (conexion/source/ConnectionManager.cpp): the accept loops that turn
  incoming sockets into connections, and the sweep that closes and forgets the connections
  whose link is down. One pass of an accept loop is a step; what the operating system and
  OpenSSL answer in it is its argument. \<open>raw\<close> is the fresh connection object's memory.
\<close>

datatype conn = Plain tcp | Secure tcps

fun conn_isLinkOnline :: "conn \<Rightarrow> bool" where
  "conn_isLinkOnline (Plain c) = tcp_isLinkOnline c"
| "conn_isLinkOnline (Secure c) = tcps_isLinkOnline c"

fun conn_close :: "conn \<Rightarrow> conn io" where
  "conn_close (Plain c) = Ret (Plain (tcp_close_public c))"
| "conn_close (Secure c) = bindIO (tcps_close_public c) (\<lambda>c'. Ret (Secure c'))"

record cmanager =
  cm_callback :: "nat option"
  cm_close :: "nat option"
  cm_listening :: bool
  cm_thread :: bool
  cm_conns :: "conn option list"
  cm_swept :: "conn list"

definition cm_new :: cmanager where
  "cm_new = \<lparr>cm_callback = None, cm_close = None, cm_listening = False, cm_thread = False,
     cm_conns = [], cm_swept = []\<rparr>"

definition cm_setListenOnline :: "bool \<Rightarrow> cmanager \<Rightarrow> cmanager" where
  "cm_setListenOnline b s = s\<lparr>cm_listening := b\<rparr>"

definition cm_isListening :: "cmanager \<Rightarrow> bool" where
  "cm_isListening s = cm_listening s"

text \<open>The listening thread is joined when there is one: what follows is the state when the join
  returns, which \<open>lg_destroy\<close> (Programs) does not take for granted.\<close>

definition cm_closeManager :: "cmanager \<Rightarrow> cmanager" where
  "cm_closeManager s = (cm_setListenOnline False s)\<lparr>cm_thread := False\<rparr>"

definition cm_destroy :: "cmanager \<Rightarrow> cmanager" where
  "cm_destroy s = cm_closeManager (s\<lparr>cm_callback := None, cm_close := None\<rparr>)"

definition cm_setCallbackFunction :: "nat option \<Rightarrow> cmanager \<Rightarrow> cmanager" where
  "cm_setCallbackFunction cb s = s\<lparr>cm_callback := cb\<rparr>"

definition cm_setMyClose :: "nat option \<Rightarrow> cmanager \<Rightarrow> cmanager" where
  "cm_setMyClose f s = s\<lparr>cm_close := f\<rparr>"

text \<open>\<open>True\<close>: a listening thread was started.\<close>

definition cm_listen :: "cmanager \<Rightarrow> cmanager \<times> bool" where
  "cm_listen s = (if \<not> cm_thread s then (s\<lparr>cm_thread := True\<rparr>, True) else (s, False))"

definition cm_listenSecure :: "cmanager \<Rightarrow> cmanager \<times> bool" where
  "cm_listenSecure s = (if \<not> cm_thread s then (s\<lparr>cm_thread := True\<rparr>, True) else (s, False))"

section \<open>Sweeping\<close>

text \<open>
  The sweep erases through its iterator and steps it back before the loop's increment;
  stepping back from the first element is undefined. \<open>kept\<close> is the part in front of the
  iterator.
\<close>

fun cm_sweep :: "conn option list \<Rightarrow> conn option list \<Rightarrow> conn list \<Rightarrow>
    (conn option list \<times> conn list) io" where
  "cm_sweep kept [] swept = Ret (kept, swept)"
| "cm_sweep kept (None # rest) swept =
     (if kept = [] then Fails (UB BadIterator) else cm_sweep kept rest swept)"
| "cm_sweep kept (Some c # rest) swept =
     (if \<not> conn_isLinkOnline c then
        bindIO (conn_close c)
          (\<lambda>c'. if kept = [] then Fails (UB BadIterator) else cm_sweep kept rest (swept @ [c']))
      else cm_sweep (kept @ [Some c]) rest swept)"

definition cm_checkConexionsOffline :: "cmanager \<Rightarrow> cmanager io" where
  "cm_checkConexionsOffline s =
     bindIO (cm_sweep [] (cm_conns s) (cm_swept s))
       (\<lambda>(cs, sw). Ret (s\<lparr>cm_conns := cs, cm_swept := sw\<rparr>))"

section \<open>The accept loops\<close>

text \<open>
  The port is copied without its terminator into a 64 byte buffer, which \<open>BIO_new_accept\<close>
  then reads as a C string; \<open>junk\<close> is what the buffer held.
\<close>

definition cm_accept_name :: "byte list \<Rightarrow> string \<Rightarrow> string result" where
  "cm_accept_name junk port =
     (if 64 < length port then Inl (UB OutOfBounds)
      else read_cstr (map char_byte port @ take (64 - length port) junk))"

definition cm_adopt_plain :: "tcp \<Rightarrow> cmanager \<Rightarrow> tcp" where
  "cm_adopt_plain c s =
     (let c1 = (if cm_callback s \<noteq> None then c\<lparr>tp_callback := cm_callback s\<rparr> else c);
          c2 = (if cm_close s \<noteq> None then c1\<lparr>tp_closed := cm_close s\<rparr> else c1)
      in tcp_receive c2)"

definition cm_listenThread_pass :: "bool \<Rightarrow> string \<Rightarrow> tcp \<Rightarrow> cmanager \<Rightarrow> cmanager io" where
  "cm_listenThread_pass popped port raw s =
     bindIO (cm_checkConexionsOffline s)
       (\<lambda>s1. if popped
         then Ret (s1\<lparr>cm_conns := cm_conns s1 @
                [Some (Plain (cm_adopt_plain (tcp_new_accepted True port raw) s1))]\<rparr>)
         else Ret s1)"

fun cm_listen_loop :: "string \<Rightarrow> (bool \<times> tcp) list \<Rightarrow> cmanager \<Rightarrow> cmanager io" where
  "cm_listen_loop port [] s = (if cm_isListening s then Pending else Ret s)"
| "cm_listen_loop port ((popped, raw) # ps) s =
     (if cm_isListening s
      then bindIO (cm_listenThread_pass popped port raw s) (cm_listen_loop port ps)
      else Ret s)"

text \<open>A failing \<open>BIO_new_accept\<close> or \<open>BIO_do_accept\<close> is only reported; the loop starts all the
  same, and then pops nothing.\<close>

definition cm_listenThread ::
    "byte list \<Rightarrow> string \<Rightarrow> (bool \<times> tcp) list \<Rightarrow> cmanager \<Rightarrow> cmanager io" where
  "cm_listenThread junk port ps s =
     bindIO (lift_result (cm_accept_name junk port))
       (\<lambda>name. cm_listen_loop port ps (cm_setListenOnline True s))"

text \<open>Does the thread reach its accept loop?\<close>

definition cm_secure_setup :: "tls_setup \<Rightarrow> int \<Rightarrow> int \<Rightarrow> bool" where
  "cm_secure_setup e sock r_bind =
     (if \<not> su_cert e then False
      else if \<not> su_key e then False
      else if \<not> su_ca e then False
      else if \<not> su_dhfile e then False
      else if su_dh e < 0 then False
      else if sock < 0 then False
      else if r_bind < 0 then False
      else True)"

record accept_env =
  ae_accept :: int
  ae_ssl :: int
  ae_cert :: peer_cert
  ae_raw :: tcps

definition cm_adopt_secure :: "tcps \<Rightarrow> cmanager \<Rightarrow> tcps" where
  "cm_adopt_secure c s =
     (let c1 = (if cm_callback s \<noteq> None then conn_setCallbackFunction (cm_callback s) c else c);
          c2 = (if cm_close s \<noteq> None then conn_setCloseFunction (cm_close s) c1 else c1)
      in tcps_receive c2)"

definition cm_secure_pass :: "bool \<Rightarrow> string \<Rightarrow> accept_env \<Rightarrow> cmanager \<Rightarrow> cmanager io" where
  "cm_secure_pass bidirectional port e s =
     bindIO (cm_checkConexionsOffline s)
       (\<lambda>s1. if ae_accept e < 0 then Ret s1
         else if ae_ssl e \<le> 0 then Ret s1
         else let c = tcps_new_accepted port (ae_raw e) in
           bindIO (if bidirectional
                   then lift_result (tcps_checkCertificate (ae_cert e) ''127.0.0.1'')
                   else Ret True)
             (\<lambda>secureOk.
               bindIO (if secureOk then Ret (cm_adopt_secure c s1) else tcps_close_public c)
                 (\<lambda>c'. Ret (s1\<lparr>cm_conns := cm_conns s1 @ [Some (Secure c')]\<rparr>))))"

fun cm_secure_loop :: "bool \<Rightarrow> string \<Rightarrow> accept_env list \<Rightarrow> cmanager \<Rightarrow> cmanager io" where
  "cm_secure_loop bidirectional port [] s = (if cm_isListening s then Pending else Ret s)"
| "cm_secure_loop bidirectional port (e # es) s =
     (if cm_isListening s
      then bindIO (cm_secure_pass bidirectional port e s) (cm_secure_loop bidirectional port es)
      else Ret s)"

definition cm_listenThreadSecure ::
    "tls_setup \<Rightarrow> int \<Rightarrow> int \<Rightarrow> bool \<Rightarrow> string \<Rightarrow> accept_env list \<Rightarrow> cmanager \<Rightarrow> cmanager io" where
  "cm_listenThreadSecure e sock r_bind bidirectional port es s =
     (if cm_secure_setup e sock r_bind
      then cm_secure_loop bidirectional port es (cm_setListenOnline True s)
      else Ret s)"

section \<open>Lemmas\<close>

definition online_conn :: "conn option \<Rightarrow> bool" where
  "online_conn c = (case c of None \<Rightarrow> False | Some x \<Rightarrow> conn_isLinkOnline x)"

lemma online_conn_simps [simp]:
  "\<not> online_conn None"
  "online_conn (Some c) = conn_isLinkOnline c"
  by (simp_all add: online_conn_def)

lemma conn_close_offline: "\<not> conn_isLinkOnline c \<Longrightarrow> \<exists>c'. conn_close c = Ret c'"
  by (cases c) (auto simp: tcps_close_public_def close_defs)

text \<open>The connections of a list whose link is down, each closed, in order.\<close>

definition closed_ones :: "conn option list \<Rightarrow> conn list \<Rightarrow> bool" where
  "closed_ones cs sw = list_all2 (\<lambda>c c'. \<exists>x. c = Some x \<and> conn_close x = Ret c')
     (filter (\<lambda>c. c \<noteq> None \<and> \<not> online_conn c) cs) sw"

lemma cm_sweep_filter:
  "kept \<noteq> [] \<Longrightarrow> \<exists>sw. cm_sweep kept cs swept = Ret (kept @ filter online_conn cs, swept @ sw) \<and>
     closed_ones cs sw"
proof (induction kept cs swept rule: cm_sweep.induct)
  case (1 kept swept)
  then show ?case by (simp add: closed_ones_def)
next
  case (2 kept rest swept)
  then show ?case by (simp add: closed_ones_def)
next
  case (3 kept c rest swept)
  show ?case
  proof (cases "conn_isLinkOnline c")
    case True
    with 3 show ?thesis by (simp add: closed_ones_def)
  next
    case False
    then obtain c' where c': "conn_close c = Ret c'" using conn_close_offline by blast
    from "3.IH"(1) [OF False _ "3.prems"] "3.prems"
    obtain sw where "cm_sweep kept rest (swept @ [c']) =
        Ret (kept @ filter online_conn rest, swept @ c' # sw)"
      and "closed_ones rest sw"
      by fastforce
    with c' False "3.prems" show ?thesis
      by (intro exI [of _ "c' # sw"]) (simp add: closed_ones_def)
  qed
qed

lemma adopt_secure_fields:
  "ts_listen (cm_adopt_secure c s)"
  "ts_online (cm_adopt_secure c s) = ts_online c"
  "ts_callback (cm_adopt_secure c s) =
     (if cm_callback s \<noteq> None then cm_callback s else ts_callback c)"
  by (cases "cm_callback s"; cases "cm_close s"; cases "ts_listen c";
      simp add: cm_adopt_secure_def tcps_receive_def conn_setCallbackFunction_def
        conn_setCloseFunction_def Let_def)+

lemma tcps_new_accepted_fields:
  "ts_online (tcps_new_accepted port raw)"
  "\<not> ts_listen (tcps_new_accepted port raw)"
  "ts_callback (tcps_new_accepted port raw) = None"
  by (simp_all add: tcps_new_accepted_def tcps_setLinkOnline_def conn_base_def)

section \<open>Properties\<close>

text \<open>C31. The sweep of the connection list: when the first connection is down, or is a null pointer,
  the loop steps its iterator back from the first element, which is undefined behaviour. When
  it is up, or the list is empty, the sweep keeps exactly the connections whose link is up, in
  order, forgets the null pointers, and closes exactly the connections whose link is down, each
  once and in order.\<close>

theorem checkConexionsOffline_sweeps:
  "if cm_conns s \<noteq> [] \<and> \<not> online_conn (hd (cm_conns s))
   then cm_checkConexionsOffline s = Fails (UB BadIterator)
   else \<exists>sw. cm_checkConexionsOffline s =
       Ret (s\<lparr>cm_conns := filter online_conn (cm_conns s), cm_swept := cm_swept s @ sw\<rparr>) \<and>
     list_all2 (\<lambda>c c'. \<exists>x. c = Some x \<and> conn_close x = Ret c')
       (filter (\<lambda>c. c \<noteq> None \<and> \<not> online_conn c) (cm_conns s)) sw"
proof (cases "cm_conns s")
  case Nil
  then show ?thesis by (cases s) (simp add: cm_checkConexionsOffline_def)
next
  case (Cons c cs)
  show ?thesis
  proof (cases "online_conn c")
    case True
    then obtain x where x: "c = Some x" "conn_isLinkOnline x"
      by (auto simp: online_conn_def split: option.splits)
    from cm_sweep_filter [of "[c]" cs "cm_swept s"]
    obtain sw where "cm_sweep [c] cs (cm_swept s) = Ret (c # filter online_conn cs, cm_swept s @ sw)"
      and "closed_ones cs sw"
      by auto
    with x Cons True show ?thesis by (auto simp: cm_checkConexionsOffline_def closed_ones_def)
  next
    case False
    with Cons conn_close_offline show ?thesis
      by (cases c) (fastforce simp: cm_checkConexionsOffline_def)+
  qed
qed

theorem checkConexionsOffline_sweeps_witness:
  "cm_checkConexionsOffline (cm_new\<lparr>cm_conns := [None]\<rparr>) = Fails (UB BadIterator) \<and>
   (\<exists>c. cm_checkConexionsOffline
      (cm_new\<lparr>cm_conns := [Some (Secure (ex_conn [] [])), None, Some (Secure ((ex_conn [] [])\<lparr>ts_online := False\<rparr>))]\<rparr>) =
      Ret (cm_new\<lparr>cm_conns := [Some (Secure (ex_conn [] []))], cm_swept := [c]\<rparr>))"
proof
  show "cm_checkConexionsOffline (cm_new\<lparr>cm_conns := [None]\<rparr>) = Fails (UB BadIterator)"
    using checkConexionsOffline_sweeps [of "cm_new\<lparr>cm_conns := [None]\<rparr>"] by simp
  let ?s = "cm_new\<lparr>cm_conns := [Some (Secure (ex_conn [] [])), None, Some (Secure ((ex_conn [] [])\<lparr>ts_online := False\<rparr>))]\<rparr>"
  have on: "tcps_isLinkOnline (ex_conn [] [])" "\<not> tcps_isLinkOnline ((ex_conn [] [])\<lparr>ts_online := False\<rparr>)"
    by (simp_all add: tcps_isLinkOnline_def ex_conn_def)
  then obtain sw where sw: "cm_checkConexionsOffline ?s =
      Ret (?s\<lparr>cm_conns := [Some (Secure (ex_conn [] []))], cm_swept := cm_swept ?s @ sw\<rparr>)"
    "list_all2 (\<lambda>c c'. \<exists>x. c = Some x \<and> conn_close x = Ret c') [Some (Secure ((ex_conn [] [])\<lparr>ts_online := False\<rparr>))] sw"
    using checkConexionsOffline_sweeps [of ?s] by auto
  then obtain c where "sw = [c]" by (auto simp: list_all2_Cons1)
  with sw(1) show "\<exists>c. cm_checkConexionsOffline ?s =
      Ret (cm_new\<lparr>cm_conns := [Some (Secure (ex_conn [] []))], cm_swept := [c]\<rparr>)"
    by (simp add: cm_new_def)
qed

text \<open>Who is let in: on a port opened with the bidirectional flag, an accepted TLS
  connection gets a listening thread (and the manager's callback) exactly when the peer's
  certificate verifies with the common name 127.0.0.1; every other one is closed before it
  joins the list.\<close>

lemma secure_pass_admits_certified:
  assumes "cm_checkConexionsOffline s = Ret s1" and "0 \<le> ae_accept e" and "0 < ae_ssl e"
    and "cm_secure_pass True port e s = Ret s'"
  shows "\<exists>c. cm_conns s' = cm_conns s1 @ [Some (Secure c)] \<and>
    (ts_listen c \<longleftrightarrow> pc_verify (ae_cert e) = 0 \<and>
      (\<exists>cn. pc_cn (ae_cert e) = Some cn \<and> map to_lower cn = ''127.0.0.1'')) \<and>
    (ts_listen c \<longrightarrow> ts_online c \<and> ts_callback c = cm_callback s1) \<and>
    (\<not> ts_listen c \<longrightarrow> \<not> ts_online c)"
proof -
  have low: "map to_lower ''127.0.0.1'' = ''127.0.0.1''" by code_simp
  let ?ok = "pc_verify (ae_cert e) = 0 \<and> (\<exists>cn. pc_cn (ae_cert e) = Some cn \<and> map to_lower cn = ''127.0.0.1'')"
  let ?c = "tcps_new_accepted port (ae_raw e)"
  have cert: "tcps_checkCertificate (ae_cert e) ''127.0.0.1'' = Inr ?ok"
    using assms low
    by (cases "pc_cn (ae_cert e)")
       (auto simp: tcps_checkCertificate_def Let_def strcasecmp_differs_def cm_secure_pass_def)
  show ?thesis
  proof (cases ?ok)
    case True
    then have "cm_conns s' = cm_conns s1 @ [Some (Secure (cm_adopt_secure ?c s1))]"
      using assms cert by (simp add: cm_secure_pass_def Let_def) (erule subst, simp)
    moreover have "ts_listen (cm_adopt_secure ?c s1)" "ts_online (cm_adopt_secure ?c s1)"
      "ts_callback (cm_adopt_secure ?c s1) = cm_callback s1"
      by (simp_all add: adopt_secure_fields tcps_new_accepted_fields)
    ultimately show ?thesis using True by (intro exI [of _ "cm_adopt_secure ?c s1"]) simp
  next
    case False
    then obtain c where c: "tcps_close_public ?c = Ret c"
      and s': "cm_conns s' = cm_conns s1 @ [Some (Secure c)]"
      using assms cert by (auto simp: cm_secure_pass_def bindIO_eq_Ret Let_def split: if_splits)
    from c have "\<not> ts_online c" using close_result by (simp add: tcps_close_public_def)
    moreover have "\<not> ts_listen c"
      using close_not_listening c tcps_new_accepted_fields(2) by (simp add: tcps_close_public_def)
    ultimately show ?thesis using s' False by (intro exI [of _ c]) simp
  qed
qed

end
