(* ===== verification/Programs.thy ===== *)
theory Programs
  imports Protocol Connection_Manager
begin

text \<open>
  The server programs (servrouter/src/main.cpp, servjuego/src/main.cpp, servlogin/src/main.cpp
  with \<open>Login::initializeManager\<close> and \<open>Login::~Login\<close>): arguments, the factory, the two
  connection managers with their listeners, and what happens when a listening thread cannot
  be made. The control server's \<open>main\<close> is Control_Main's, the client's is Client_Game's.

  \<open>spawn n\<close>: the \<open>n\<close>-th thread the program makes can be made. Otherwise \<open>std::thread\<close> throws a
  \<open>std::system_error\<close>, which \<open>listenSecure\<close> does not list in its exception specification
  (\<open>throw(ConnectionException)\<close>): the program is terminated inside the call, and the \<open>catch\<close>
  blocks behind it, which would delete the managers, are never entered (\<open>listenSecure\<close> itself
  throws nothing). The listening threads themselves are Connection_Manager's.
\<close>

section \<open>Programs\<close>

datatype 'a run = Exits int | Aborts | Runs 'a

text \<open>A listening thread: its manager and its two arguments.\<close>

record port =
  po_manager :: cmanager
  po_number :: string
  po_bidirectional :: bool

record 'a server_program =
  sp_factory :: factory
  sp_server :: 'a
  sp_control :: port
  sp_other :: port

text \<open>The listeners of the router and of the game server, and the login server's close listener.\<close>

definition CONTROL_LISTENER :: nat where "CONTROL_LISTENER = 0"
definition CLIENT_LISTENER :: nat where "CLIENT_LISTENER = 2"
definition GS_CONTROL_LISTENER :: nat where "GS_CONTROL_LISTENER = 0"
definition GS_ROUTER_LISTENER :: nat where "GS_ROUTER_LISTENER = 1"
definition CLIENT_CLOSED_CONNECTION :: nat where "CLIENT_CLOSED_CONNECTION = 0"

text \<open>\<open>listenSecure\<close> with the outcome of making the thread; a manager that listens already only
  complains, and its new thread would be the old one.\<close>

definition open_port :: "bool \<Rightarrow> string \<Rightarrow> bool \<Rightarrow> cmanager \<Rightarrow> port option" where
  "open_port can number bidirectional m =
     (case cm_listenSecure m of (m', makes) \<Rightarrow>
        if makes \<and> can
        then Some \<lparr>po_manager = m', po_number = number, po_bidirectional = bidirectional\<rparr>
        else None)"

definition router_main :: "string list \<Rightarrow> (nat \<Rightarrow> bool) \<Rightarrow> router server_program run" where
  "router_main argv spawn =
     (if length argv < 3 then Exits 1
      else let controlPort = argv ! 1; clientPort = argv ! 2;
               f = program_factory RouterProfile; r = router_new;
               controlCM = cm_setCallbackFunction (Some CONTROL_LISTENER) cm_new;
               clientCM = cm_setCallbackFunction (Some CLIENT_LISTENER) cm_new in
        case open_port (spawn 0) controlPort True controlCM of None \<Rightarrow> Aborts
        | Some control \<Rightarrow>
        case open_port (spawn 1) clientPort False clientCM of None \<Rightarrow> Aborts
        | Some clients \<Rightarrow>
          Runs \<lparr>sp_factory = f, sp_server = r, sp_control = control, sp_other = clients\<rparr>)"

definition game_main :: "string list \<Rightarrow> (nat \<Rightarrow> bool) \<Rightarrow> gserver server_program run" where
  "game_main argv spawn =
     (if length argv < 3 then Exits 1
      else let controlPort = argv ! 1; routerPort = argv ! 2;
               f = program_factory GameServerProfile; gs = gs_new;
               controlCM = cm_setCallbackFunction (Some GS_CONTROL_LISTENER) cm_new;
               routerCM = cm_setCallbackFunction (Some GS_ROUTER_LISTENER) cm_new in
        case open_port (spawn 0) controlPort True controlCM of None \<Rightarrow> Aborts
        | Some control \<Rightarrow>
        case open_port (spawn 1) routerPort True routerCM of None \<Rightarrow> Aborts
        | Some routers \<Rightarrow>
          Runs \<lparr>sp_factory = f, sp_server = gs, sp_control = control, sp_other = routers\<rparr>)"

definition lg_initializeManager :: "string \<Rightarrow> string \<Rightarrow> (nat \<Rightarrow> bool) \<Rightarrow> (port \<times> port) option" where
  "lg_initializeManager controlPort clientPort spawn =
     (let managerControl = cm_new; managerClient = cm_new in
      case open_port (spawn 0) controlPort True managerControl of None \<Rightarrow> None
      | Some control \<Rightarrow>
      let managerClient = cm_setMyClose (Some CLIENT_CLOSED_CONNECTION) managerClient in
      case open_port (spawn 1) clientPort False managerClient of None \<Rightarrow> None
      | Some clients \<Rightarrow> Some (control, clients))"

definition login_main :: "string list \<Rightarrow> (nat \<Rightarrow> bool) \<Rightarrow> login server_program run" where
  "login_main argv spawn =
     (if length argv < 3 then Exits 1
      else let f = program_factory LoginProfile; login = lg_initializeLogin in
        case lg_initializeManager (argv ! 1) (argv ! 2) spawn of None \<Rightarrow> Aborts
        | Some (control, clients) \<Rightarrow>
          Runs \<lparr>sp_factory = f, sp_server = login, sp_control = control, sp_other = clients\<rparr>)"

text \<open>The login server's destructor, which no program calls: the clients' manager goes first.
  \<open>ends\<close>: a listening thread that is told to stop ends; it may sit in \<open>accept\<close> for ever, and
  then deleting its manager does not return (\<open>Pending\<close>).\<close>

definition lg_destroy :: "bool \<Rightarrow> cmanager \<times> cmanager \<Rightarrow> (cmanager \<times> cmanager) io" where
  "lg_destroy ends ms = (case ms of (managerControl, managerClient) \<Rightarrow>
     if cm_thread managerClient \<and> \<not> ends then Pending
     else let managerClient = cm_destroy managerClient in
       if cm_thread managerControl \<and> \<not> ends then Pending
       else Ret (cm_destroy managerControl, managerClient))"

section \<open>A port in service\<close>

text \<open>What a port's listening thread makes of its manager, pass by pass.\<close>

inductive serves :: "port \<Rightarrow> cmanager \<Rightarrow> bool" for po where
  serves_start: "serves po (cm_setListenOnline True (po_manager po))"
| serves_pass: "serves po s \<Longrightarrow> cm_isListening s \<Longrightarrow>
     cm_secure_pass (po_bidirectional po) (po_number po) e s = Ret s' \<Longrightarrow> serves po s'"

text \<open>The ports of the running servers: the callback each one gives its connections, and whether it
  is for the servers (and asks for a certificate) or for players.\<close>

inductive server_port :: "port \<Rightarrow> nat option \<Rightarrow> bool \<Rightarrow> bool" where
  router_control: "router_main argv spawn = Runs p \<Longrightarrow> server_port (sp_control p) (Some CONTROL_LISTENER) True"
| router_clients: "router_main argv spawn = Runs p \<Longrightarrow> server_port (sp_other p) (Some CLIENT_LISTENER) False"
| game_control: "game_main argv spawn = Runs p \<Longrightarrow> server_port (sp_control p) (Some GS_CONTROL_LISTENER) True"
| game_routers: "game_main argv spawn = Runs p \<Longrightarrow> server_port (sp_other p) (Some GS_ROUTER_LISTENER) True"
| login_control: "login_main argv spawn = Runs p \<Longrightarrow> server_port (sp_control p) None True"
| login_clients: "login_main argv spawn = Runs p \<Longrightarrow> server_port (sp_other p) None False"

lemmas program_defs = router_main_def game_main_def login_main_def lg_initializeManager_def
  open_port_def cm_listenSecure_def cm_setCallbackFunction_def cm_setMyClose_def cm_new_def Let_def

lemma server_port_opened:
  "server_port po callback certified \<Longrightarrow>
   cm_callback (po_manager po) = callback \<and> po_bidirectional po = certified"
  by (induction rule: server_port.induct) (auto simp: program_defs split: if_splits)

lemma sweep_callback: "cm_checkConexionsOffline s = Ret s' \<Longrightarrow> cm_callback s' = cm_callback s"
  by (auto simp: cm_checkConexionsOffline_def bindIO_eq_Ret)

lemma pass_callback: "cm_secure_pass b port e s = Ret s' \<Longrightarrow> cm_callback s' = cm_callback s"
  by (auto simp: cm_secure_pass_def bindIO_eq_Ret Let_def sweep_callback split: if_splits)

lemma serves_callback: "serves po s \<Longrightarrow> cm_callback s = cm_callback (po_manager po)"
  by (induction rule: serves.induct) (simp_all add: cm_setListenOnline_def pass_callback)

lemma open_pass_admits_all:
  assumes "cm_checkConexionsOffline s = Ret s1" and "0 \<le> ae_accept e" and "0 < ae_ssl e"
    and "cm_secure_pass False port e s = Ret s'"
  shows "\<exists>c. cm_conns s' = cm_conns s1 @ [Some (Secure c)] \<and> ts_listen c \<and> ts_online c \<and>
    ts_callback c = cm_callback s1"
proof -
  let ?c = "cm_adopt_secure (tcps_new_accepted port (ae_raw e)) s1"
  have "cm_conns s' = cm_conns s1 @ [Some (Secure ?c)]"
    using assms by (simp add: cm_secure_pass_def Let_def) (erule subst, simp)
  then show ?thesis
    by (intro exI [of _ ?c]) (simp add: adopt_secure_fields tcps_new_accepted_fields)
qed

section \<open>Who gets in\<close>


definition ex_accept :: accept_env where
  "ex_accept = \<lparr>ae_accept = 4, ae_ssl = 1, ae_cert = \<lparr>pc_verify = 0, pc_cn = Some ''127.0.0.1''\<rparr>,
     ae_raw = ex_conn [] []\<rparr>"


end
