(* ===== verification/Login_Replies.thy ===== *)
theory Login_Replies
  imports Programs
begin

text \<open>
  The login server's handlers over their connections: what a request makes the server say is
  written, byte by byte, to the TLS connections of the control server and of the client while the
  handler holds \<open>loginMutex\<close> (servlogin/src/LoginRequest.cpp, LogoutRequest.cpp). A write that
  fails closes the connection in the same thread, and closing one that has the close listener of
  the clients' port calls \<open>ClientClosedConnection::callOnClose\<close>, which locks \<open>loginMutex\<close> again:
  locking a \<open>std::mutex\<close> twice is undefined (\<open>Relock\<close>), in practice it never returns.

  The handlers make all their lookups before they say anything, so executing them first and
  sending afterwards is the same.
\<close>

section \<open>Sending what was said\<close>

text \<open>The memory around a sent object: the size of its \<open>Datagram\<close> part, padding, what lies behind it
  and behind the protocol's text, and what uninitialised members hold.\<close>

record send_env =
  se_base :: nat
  se_pad :: "nat \<Rightarrow> byte"
  se_behind :: "byte list"
  se_proto :: "byte list"
  se_int :: "32 word"
  se_byte :: byte

type_synonym lg_conns = "lconn \<Rightarrow> tcps option"

definition lg_message :: "send_env \<Rightarrow> login_msg \<Rightarrow> message" where
  "lg_message e m =
     (let w = login_wire (se_int e) (se_byte e) m in
      \<lparr>ms_class = sent_class w, ms_bytes = dg_payload (se_base e) (sent_class w) (se_pad e) (snd w) (se_behind e)\<rparr>)"

definition lg_sendAnswer :: "send_env \<Rightarrow> lconn \<times> login_msg \<Rightarrow> lg_conns \<Rightarrow> lg_conns io" where
  "lg_sendAnswer e cm w =
     (case w (fst cm) of None \<Rightarrow> Fails (UB UseAfterFree)
      | Some k \<Rightarrow>
          bindIO (tcps_sendAnswer (se_proto e) (program_factory LoginProfile) (lg_message e (snd cm)) k) (\<lambda>k'.
            if ts_closed k = Some CLIENT_CLOSED_CONNECTION
                \<and> CallOnClose \<in> set (drop (length (ts_events k)) (ts_events k'))
            then Fails (UB Relock) else Ret (w(fst cm \<mapsto> k'))))"

fun lg_send_all :: "send_env \<Rightarrow> (lconn \<times> login_msg) list \<Rightarrow> lg_conns \<Rightarrow> lg_conns io" where
  "lg_send_all e [] w = Ret w"
| "lg_send_all e (cm # cms) w = bindIO (lg_sendAnswer e cm w) (lg_send_all e cms)"

text \<open>A handler \<open>h\<close>, executed by a connection's thread.\<close>

definition lg_thread :: "send_env \<Rightarrow> (login \<Rightarrow> login result) \<Rightarrow> login \<times> lg_conns \<Rightarrow> (login \<times> lg_conns) io" where
  "lg_thread e h sw = (case sw of (s, w) \<Rightarrow>
     bindIO (lift_result (h s)) (\<lambda>s'.
     bindIO (lg_send_all e (drop (length (lg_sent s)) (lg_sent s')) w) (\<lambda>w'. Ret (s', w'))))"

definition lg_request ::
    "send_env \<Rightarrow> (string \<Rightarrow> nat option) \<Rightarrow> (byte list \<Rightarrow> byte list) \<Rightarrow> (nat \<Rightarrow> byte) \<Rightarrow> login_event \<Rightarrow>
     login \<times> lg_conns \<Rightarrow> (login \<times> lg_conns) io" where
  "lg_request e db sha1 junk ev = lg_thread e (lg_handle db sha1 junk ev)"

section \<open>One answer\<close>

text \<open>The packet of a message that has the size of its class.\<close>

definition lg_packet :: "send_env \<Rightarrow> login_msg \<Rightarrow> byte list" where
  "lg_packet e m = tcps_packet (se_proto e) ''0.1a''
     (the (map_of (pf_ids LoginProfile) (dc_name (ms_class (lg_message e m))))) (ms_bytes (lg_message e m))"

lemma lg_message_size:
  assumes "well_sized (FromLogin m)"
  shows "length (ms_bytes (lg_message e m)) \<le> 40 + se_base e"
proof -
  have "map val_type (snd (login_wire (se_int e) (se_byte e) m)) = dc_fields (net_class (FromLogin m))"
    using net_wire_class [OF assms, of "se_int e" "se_byte e"] by simp
  moreover have "fields_size (dc_fields (net_class (FromLogin m))) \<le> 40"
    by (cases m) (simp_all add: sent_classes fields_size_def pad_to_def)
  ultimately show ?thesis
    by (simp add: lg_message_def Let_def dg_payload_split sent_class_def length_fimage)
qed

lemma lg_sends:
  assumes "well_sized (FromLogin m)" and "se_base e < 2 ^ 30"
  shows "tcps_sendAnswer (se_proto e) (program_factory LoginProfile) (lg_message e m) k =
    tcps_write_loop True (lg_packet e m) k"
proof -
  have "map_of (pf_ids LoginProfile) (dc_name (ms_class (lg_message e m))) \<noteq> None"
    by (cases m) (simp_all add: lg_message_def sent_class_def LoginProfile_def Let_def)
  then obtain t where t: "map_of (pf_ids LoginProfile) (dc_name (ms_class (lg_message e m))) = Some t" by blast
  moreover have "\<not> INT_MAX < 16 + length (ms_bytes (lg_message e m))"
    using lg_message_size [OF assms(1), of e] assms(2) by (simp add: INT_MAX_def)
  ultimately show ?thesis
    by (simp add: tcps_sendAnswer_def tcps_send_body_def factory_protocol factory_type dg_type_def lg_packet_def)
qed

lemma packet_not_empty: "lg_packet e m \<noteq> []"
proof -
  have "length (int_bytes w) = 4" for w by simp
  then have "int_bytes w \<noteq> []" for w by (metis length_0_conv zero_neq_numeral)
  then show ?thesis by (simp add: lg_packet_def tcps_packet_def)
qed

lemma shutdown_loop_total:
  "\<exists>r \<in> set rs. r \<noteq> 0 \<Longrightarrow> \<exists>s'. tcps_shutdown_loop s rs = Ret s'"
  by (induction s rs rule: tcps_shutdown_loop.induct) auto

text \<open>A write that fails closes the connection, in whose thread the listener is called.\<close>

lemma write_fails_closes:
  "ts_ssl k \<Longrightarrow> ts_online k \<Longrightarrow> ts_closed k \<noteq> None \<Longrightarrow> ts_writes k = replicate j WOne @ x # ws \<Longrightarrow> x \<noteq> WOne \<Longrightarrow>
   j < length bs \<Longrightarrow> \<exists>r \<in> set (ts_shuts k). r \<noteq> 0 \<Longrightarrow>
   \<exists>k'. tcps_write_loop True bs k = Ret k' \<and> ts_events k' = ts_events k @ [CallOnClose]"
proof (induction bs arbitrary: j k)
  case (Cons b bs)
  show ?case
  proof (cases j)
    case 0
    let ?k = "k\<lparr>ts_writes := ws, ts_online := False\<rparr>"
    obtain k2 where k2: "tcps_shutdown_loop ?k (ts_shuts k) = Ret k2"
      using shutdown_loop_total [OF Cons.prems(7)] by blast
    have "tcps_close True (k\<lparr>ts_writes := ws\<rparr>) = Ret k2"
      using k2 Cons.prems(1,2) by (simp add: close_defs)
    moreover have "ts_events k2 = ts_events k @ [CallOnClose]"
      using shutdown_loop_closes [OF k2] Cons.prems(3) by simp
    ultimately show ?thesis using Cons.prems 0 by (cases x) auto
  next
    case (Suc j')
    let ?k = "k\<lparr>ts_writes := replicate j' WOne @ x # ws, ts_sent := ts_sent k @ [b]\<rparr>"
    have "\<exists>k'. tcps_write_loop True bs ?k = Ret k' \<and> ts_events k' = ts_events ?k @ [CallOnClose]"
      using Cons.prems Suc by (intro Cons.IH [of ?k j']) simp_all
    then show ?thesis using Cons.prems Suc by simp
  qed
qed simp

lemma answer_outcomes:
  assumes "well_sized (FromLogin m)" and "se_base e < 2 ^ 30" and "w c = Some k"
  shows "\<not> ts_ssl k \<Longrightarrow> lg_sendAnswer e (c, m) w = Fails (UB NullDeref)"
    and "ts_ssl k \<Longrightarrow> ts_writes k = replicate (length (lg_packet e m)) WOne @ ws \<Longrightarrow>
      lg_sendAnswer e (c, m) w = Ret (w(c \<mapsto> k\<lparr>ts_writes := ws, ts_sent := ts_sent k @ lg_packet e m\<rparr>))"
    and "ts_ssl k \<Longrightarrow> ts_online k \<Longrightarrow> ts_closed k = Some CLIENT_CLOSED_CONNECTION \<Longrightarrow>
      ts_writes k = replicate j WOne @ x # ws \<Longrightarrow> x \<noteq> WOne \<Longrightarrow> j < length (lg_packet e m) \<Longrightarrow>
      \<exists>r \<in> set (ts_shuts k). r \<noteq> 0 \<Longrightarrow> lg_sendAnswer e (c, m) w = Fails (UB Relock)"
proof -
  note sends = lg_sends [OF assms(1,2), of k]
  show "lg_sendAnswer e (c, m) w = Fails (UB NullDeref)" if "\<not> ts_ssl k"
    using that sends assms(3) packet_not_empty [of e m]
    by (cases "lg_packet e m") (simp_all add: lg_sendAnswer_def)
  show "lg_sendAnswer e (c, m) w = Ret (w(c \<mapsto> k\<lparr>ts_writes := ws, ts_sent := ts_sent k @ lg_packet e m\<rparr>))"
    if "ts_ssl k" "ts_writes k = replicate (length (lg_packet e m)) WOne @ ws"
    using write_loop_all [OF that] sends assms(3) by (simp add: lg_sendAnswer_def)
  show "lg_sendAnswer e (c, m) w = Fails (UB Relock)"
    if "ts_ssl k" "ts_online k" "ts_closed k = Some CLIENT_CLOSED_CONNECTION"
      "ts_writes k = replicate j WOne @ x # ws" "x \<noteq> WOne" "j < length (lg_packet e m)"
      "\<exists>r \<in> set (ts_shuts k). r \<noteq> 0"
    using write_fails_closes [OF that(1,2) _ that(4-7)] that(3) sends assms(3)
    by (auto simp: lg_sendAnswer_def)
qed

lemma lg_send_all_append:
  "lg_send_all e (xs @ ys) w = bindIO (lg_send_all e xs w) (lg_send_all e ys)"
  by (induction xs arbitrary: w) (auto simp: bindIO_def split: io.splits)

section \<open>A login request\<close>

text \<open>What the handler says: something to the control server if there is one, and then, to the
  client, the answer.\<close>

definition said_to_control :: "login \<Rightarrow> (lconn \<times> login_msg) list \<Rightarrow> bool" where
  "said_to_control s ms = ((\<forall>cm \<in> set ms. lg_control s = Some (fst cm) \<and> well_sized (FromLogin (snd cm))))"

lemma tellControl_said:
  "well_sized (FromLogin m) \<Longrightarrow> \<exists>ms. lg_sent (lg_tellControl m s) = lg_sent s @ ms \<and> said_to_control s ms
     \<and> (lg_control s \<noteq> None \<longrightarrow> ms \<noteq> [])"
  by (cases "lg_control s") (auto simp: lg_tellControl_def lg_emit_def said_to_control_def)

lemma tellControl_control [simp]: "lg_control (lg_tellControl m s) = lg_control s"
  by (simp add: lg_tellControl_def lg_emit_def split: option.split)

lemma dropOld_said:
  assumes "lg_dropOld u i s = Inr s'"
  shows "lg_control s' = lg_control s \<and> (\<exists>ms. lg_sent s' = lg_sent s @ ms \<and> said_to_control s ms)"
proof -
  obtain t a1 a2 a3 a4 a5 where s': "s' = lg_tellControl (ClientDisconnectSend i t)
      (s\<lparr>lg_userToId := a1, lg_idToUser := a2, lg_connectionToId := a3, lg_idToConnection := a4,
         lg_userToken := a5, lg_usersConnected := lg_usersConnected s - 1\<rparr>)"
    using assms unfolding lg_dropOld_def bindR_eq_Inr by blast
  show ?thesis unfolding s'
    using tellControl_said [of "ClientDisconnectSend i t" "s\<lparr>lg_userToId := a1, lg_idToUser := a2,
        lg_connectionToId := a3, lg_idToConnection := a4, lg_userToken := a5,
        lg_usersConnected := lg_usersConnected s - 1\<rparr>"]
    by (auto simp: said_to_control_def)
qed

lemma accept_said:
  assumes "lg_accept u c s = Inr s'"
  shows "lg_control s' = lg_control s \<and> (\<exists>ms. lg_sent s' = lg_sent s @ ms \<and> said_to_control s ms)"
proof (cases "mp_find (lg_userToId s) u")
  case None
  then show ?thesis using assms by (auto simp: lg_accept_def lg_register_def Let_def said_to_control_def)
next
  case (Some old)
  let ?s = "s\<lparr>lg_userToken := mp_insert (sint (lg_nextFreeToken s)) (sint (lg_nextFreeToken s)) (lg_userToken s)\<rparr>"
  obtain s2 where s2: "lg_dropOld u old ?s = Inr s2" "s' = lg_register u (sint (lg_nextFreeToken s)) c s2"
    using assms Some by (auto simp: lg_accept_def Let_def bindR_eq_Inr)
  show ?thesis using dropOld_said [OF s2(1)] s2(2) by (auto simp: lg_register_def said_to_control_def)
qed

lemma answers_sized:
  "well_sized (FromLogin (LoginRequestSend_new 1 (replicate LG_IP_LENGTH None) (replicate LG_PORT_LENGTH None) None None))"
  "well_sized (FromLogin (LoginRequestSend_new 0 (strcpy_new LG_IP_LENGTH ROUTER_IP)
     (strcpy_new LG_PORT_LENGTH ROUTER_PORT) i t))"
  by (simp_all add: LoginRequestSend_new_def strcpy_new_def LG_IP_LENGTH_def LG_PORT_LENGTH_def
      ROUTER_IP_def ROUTER_PORT_def numeral_eq_Suc)

lemma login_says:
  assumes "LoginRequestRcvd_exec db sha1 junk un pw c s = Inr s'"
  obtains toControl answer where "lg_sent s' = lg_sent s @ toControl @ [(c, answer)]"
    "well_sized (FromLogin answer)" "said_to_control s toControl" "lg_control s \<noteq> None \<longrightarrow> toControl \<noteq> []"
proof -
  obtain user pwd valid where h: "read_cstr un = Inr user" "read_cstr pw = Inr pwd"
      "lg_validate db sha1 junk user pwd = Inr valid"
    using assms by (auto simp: LoginRequestRcvd_exec_def bindR_eq_Inr)
  show thesis
  proof (cases valid)
    case True
    let ?i = "sint (lg_nextFreeToken s)"
    let ?new = "NewClientSend (Some ?i) (Some ?i)"
    obtain s1 where s1: "lg_accept user c s = Inr s1" "s' = lg_emit c (LoginRequestSend_new 0
        (strcpy_new LG_IP_LENGTH ROUTER_IP) (strcpy_new LG_PORT_LENGTH ROUTER_PORT) (Some ?i) (Some ?i))
        (lg_tellControl ?new s1)"
      using assms h True by (auto simp: LoginRequestRcvd_exec_def Let_def bindR_eq_Inr)
    obtain ms where ms: "lg_control s1 = lg_control s" "lg_sent s1 = lg_sent s @ ms" "said_to_control s ms"
      using accept_said [OF s1(1)] by blast
    obtain ns where ns: "lg_sent (lg_tellControl ?new s1) = lg_sent s1 @ ns" "said_to_control s1 ns"
        "lg_control s1 \<noteq> None \<longrightarrow> ns \<noteq> []"
      using tellControl_said [of ?new s1] by auto
    show thesis
      by (rule that [of "ms @ ns"]) (use s1(2) ms ns answers_sized(2) in \<open>auto simp: lg_emit_def said_to_control_def\<close>)
  next
    case False
    obtain ns where ns: "lg_sent (lg_tellControl (NewClientSend None None) s) = lg_sent s @ ns"
        "said_to_control s ns" "lg_control s \<noteq> None \<longrightarrow> ns \<noteq> []"
      using tellControl_said [of "NewClientSend None None" s] by auto
    show thesis
      by (rule that [of ns])
        (use assms h False ns answers_sized(1) in \<open>auto simp: LoginRequestRcvd_exec_def lg_emit_def\<close>)
  qed
qed

lemma logout_says:
  assumes "LogoutRequestRcvd_exec i t c s = Inr s'"
  obtains toControl answer where "lg_sent s' = lg_sent s @ toControl @ [(c, answer)]"
    "well_sized (FromLogin answer)" "said_to_control s toControl"
    "lg_control s \<noteq> None \<and> mp_find (lg_userToken s) i = Some t \<longrightarrow> toControl \<noteq> []"
proof (cases "mp_find (lg_userToken s) i = Some t")
  case False
  then have "lg_sent s' = lg_sent s @ [] @ [(c, LogoutRequestSend (if mp_find (lg_userToken s) i = None then 1 else 2))]"
    using assms by (auto simp: LogoutRequestRcvd_exec_def lg_emit_def split: option.splits)
  then show thesis by (rule that) (simp_all add: said_to_control_def False)
next
  case True
  obtain s1 where s1: "lg_logout i c s = Inr s1"
      "s' = lg_emit c (LogoutRequestSend 0) (lg_tellControl (ClientDisconnectSend i t) s1)"
    using assms True by (auto simp: LogoutRequestRcvd_exec_def bindR_eq_Inr)
  have same: "lg_sent s1 = lg_sent s" "lg_control s1 = lg_control s"
    using s1(1) unfolding lg_logout_def bindR_eq_Inr by auto
  obtain ns where ns: "lg_sent (lg_tellControl (ClientDisconnectSend i t) s1) = lg_sent s1 @ ns"
      "said_to_control s1 ns" "lg_control s1 \<noteq> None \<longrightarrow> ns \<noteq> []"
    using tellControl_said [of "ClientDisconnectSend i t" s1] by auto
  show thesis
    by (rule that [of ns]) (use s1(2) same ns in \<open>auto simp: lg_emit_def said_to_control_def\<close>)
qed

text \<open>A client's request, and whether the control server is told of it: of every login, and of the
  logouts that are granted.\<close>

fun request_of :: "login_event \<Rightarrow> lconn \<Rightarrow> bool" where
  "request_of (OnLogin un pw d) c = (d = c)"
| "request_of (OnLogout i t d) c = (d = c)"
| "request_of _ c = False"

fun told_to_control :: "login_event \<Rightarrow> login \<Rightarrow> bool" where
  "told_to_control (OnLogin un pw d) s = True"
| "told_to_control (OnLogout i t d) s = (mp_find (lg_userToken s) i = Some t)"
| "told_to_control _ s = False"

lemma request_says:
  assumes "lg_handle db sha1 junk ev s = Inr s'" and "request_of ev c"
  obtains toControl answer where "lg_sent s' = lg_sent s @ toControl @ [(c, answer)]"
    "well_sized (FromLogin answer)" "said_to_control s toControl"
    "lg_control s \<noteq> None \<and> told_to_control ev s \<longrightarrow> toControl \<noteq> []"
proof (cases ev)
  case (OnLogin un pw d)
  with assms have "LoginRequestRcvd_exec db sha1 junk un pw c s = Inr s'" by simp
  from login_says [OF this] that OnLogin show thesis by auto
next
  case (OnLogout i t d)
  with assms have "LogoutRequestRcvd_exec i t c s = Inr s'" by simp
  from logout_says [OF this] that OnLogout show thesis by auto
qed (use assms(2) in simp_all)

text \<open>C26. A request needs both its peers. Whatever login or logout a client asks for, once its handler has
  run, what is left is to tell the control server, if there is one and it is to know, and to
  answer the client. When the
  connection of the control server has been closed, which nothing makes the server forget, the
  write goes through a null pointer. When what is for the control server went out and the
  client's connection takes the whole answer, the handler returns and nothing else changes.
  When any byte of the answer cannot be written, closing the connection calls the close
  listener inside the handler, which locks \<open>loginMutex\<close> a second time.\<close>

theorem login_reply_needs_its_peers:
  assumes "lg_handle db sha1 junk ev s = Inr s'" and "request_of ev c" and "se_base e < 2 ^ 30"
  shows "\<exists>toControl answer. lg_sent s' = lg_sent s @ toControl @ [(c, answer)]
    \<and> (\<forall>g k. told_to_control ev s \<longrightarrow> lg_control s = Some g \<longrightarrow> w g = Some k \<longrightarrow> \<not> ts_ssl k \<longrightarrow>
        lg_request e db sha1 junk ev (s, w) = Fails (UB NullDeref))
    \<and> (\<forall>w1 k ws. lg_send_all e toControl w = Ret w1 \<longrightarrow> w1 c = Some k \<longrightarrow> ts_ssl k \<longrightarrow>
        ts_writes k = replicate (length (lg_packet e answer)) WOne @ ws \<longrightarrow>
        lg_request e db sha1 junk ev (s, w) =
          Ret (s', w1(c \<mapsto> k\<lparr>ts_writes := ws, ts_sent := ts_sent k @ lg_packet e answer\<rparr>)))
    \<and> (\<forall>w1 k j x ws. lg_send_all e toControl w = Ret w1 \<longrightarrow> w1 c = Some k \<longrightarrow> ts_ssl k \<longrightarrow> ts_online k \<longrightarrow>
        ts_closed k = Some CLIENT_CLOSED_CONNECTION \<longrightarrow> (\<exists>r \<in> set (ts_shuts k). r \<noteq> 0) \<longrightarrow>
        ts_writes k = replicate j WOne @ x # ws \<longrightarrow> x \<noteq> WOne \<longrightarrow> j < length (lg_packet e answer) \<longrightarrow>
        lg_request e db sha1 junk ev (s, w) = Fails (UB Relock))"
proof -
  obtain toControl answer where said: "lg_sent s' = lg_sent s @ toControl @ [(c, answer)]"
      "well_sized (FromLogin answer)" "said_to_control s toControl" "lg_control s \<noteq> None \<and> told_to_control ev s \<longrightarrow> toControl \<noteq> []"
    using request_says [OF assms(1,2)] by blast
  have run: "lg_request e db sha1 junk ev (s, w) =
      bindIO (lg_send_all e toControl w) (\<lambda>w1. bindIO (lg_sendAnswer e (c, answer) w1) (\<lambda>w'. Ret (s', w')))"
    using assms(1) said(1)
    by (cases "lg_send_all e toControl w"; cases "lg_sendAnswer e (c, answer) w")
      (auto simp: lg_request_def lg_thread_def lg_send_all_append bindIO_def split: io.splits)
  note outcomes = answer_outcomes [OF said(2) assms(3)]
  have lost: "lg_request e db sha1 junk ev (s, w) = Fails (UB NullDeref)"
    if g: "told_to_control ev s" "lg_control s = Some g" "w g = Some k" "\<not> ts_ssl k" for g k
  proof -
    obtain m ms where ms: "toControl = (g, m) # ms" "well_sized (FromLogin m)"
      using said(3,4) g(1,2) by (cases toControl) (auto simp: said_to_control_def)
    from answer_outcomes(1) [OF ms(2) assms(3), of w g k] g(3,4) show ?thesis by (simp add: run ms(1))
  qed
  show ?thesis
    by (rule exI [of _ toControl], rule exI [of _ answer])
      (use said(1) lost outcomes in \<open>simp add: run\<close>)
qed

definition ex_send_env :: send_env where
  "ex_send_env = \<lparr>se_base = 40, se_pad = (\<lambda>_. 0), se_behind = [], se_proto = [], se_int = 0, se_byte = 0\<rparr>"

definition ex_client_conn :: tcps where
  "ex_client_conn = (ex_conn [] [WProblem])\<lparr>ts_closed := Some CLIENT_CLOSED_CONNECTION\<rparr>"

definition ex_login :: login_event where
  "ex_login = OnLogin (ex_text ''ana'') (ex_text ''pw'') 4"

theorem login_reply_needs_its_peers_witness:
  "lg_request ex_send_env (\<lambda>_. Some 0) id (\<lambda>_. 0) ex_login
     (lg_initializeLogin, [4 \<mapsto> ex_client_conn]) = Fails (UB Relock)"
proof -
  have "lg_handle (\<lambda>_. Some 0) id (\<lambda>_. 0) ex_login lg_initializeLogin =
      Inr (lg_initializeLogin\<lparr>lg_sent := [(4, LoginRequestSend_new 1 (replicate LG_IP_LENGTH None)
        (replicate LG_PORT_LENGTH None) None None)]\<rparr>)" (is "_ = Inr ?s")
    by (simp add: ex_login_def LoginRequestRcvd_exec_def ex_text_read nul_free_def lg_validate_def lg_convertPwdToSha1_def
        SHA_DIGEST_LENGTH_def ofOption_def lg_tellControl_def lg_emit_def lg_initializeLogin_def)
  note run = this
  have ev: "request_of ex_login 4" by (simp add: ex_login_def)
  have base: "se_base ex_send_env < 2 ^ 30" by (simp add: ex_send_env_def)
  obtain toControl answer where out: "lg_sent ?s = lg_sent lg_initializeLogin @ toControl @ [(4, answer)]"
      "\<forall>w1 k j x ws. lg_send_all ex_send_env toControl [4 \<mapsto> ex_client_conn] = Ret w1 \<longrightarrow> w1 4 = Some k \<longrightarrow>
        ts_ssl k \<longrightarrow> ts_online k \<longrightarrow> ts_closed k = Some CLIENT_CLOSED_CONNECTION \<longrightarrow>
        (\<exists>r \<in> set (ts_shuts k). r \<noteq> 0) \<longrightarrow> ts_writes k = replicate j WOne @ x # ws \<longrightarrow> x \<noteq> WOne \<longrightarrow>
        j < length (lg_packet ex_send_env answer) \<longrightarrow>
        lg_request ex_send_env (\<lambda>_. Some 0) id (\<lambda>_. 0) ex_login
          (lg_initializeLogin, [4 \<mapsto> ex_client_conn]) = Fails (UB Relock)"
    using login_reply_needs_its_peers [OF run ev base, of "[4 \<mapsto> ex_client_conn]"] by blast
  have "toControl = []" using out(1) by (simp add: lg_initializeLogin_def Cons_eq_append_conv)
  then have sent: "lg_send_all ex_send_env toControl [4 \<mapsto> ex_client_conn] = Ret [4 \<mapsto> ex_client_conn]" by simp
  have k: "ts_ssl ex_client_conn" "ts_online ex_client_conn"
      "ts_closed ex_client_conn = Some CLIENT_CLOSED_CONNECTION" "\<exists>r \<in> set (ts_shuts ex_client_conn). r \<noteq> 0"
      "ts_writes ex_client_conn = replicate 0 WOne @ WProblem # []"
    by (simp_all add: ex_client_conn_def ex_conn_def)
  have "0 < length (lg_packet ex_send_env answer)" using packet_not_empty by simp
  then show ?thesis
    by (intro out(2) [rule_format, OF sent _ k]) simp_all
qed

end
