(* ===== verification/Spec2Isabelle.thy ===== *)
theory Spec2Isabelle
  imports Tcp_Plain Shared_Factory Router_Locks Load_Round Login_Replies
begin

text \<open>
  A verification development for the servers, the client and the connection library of the PXC
  game: a client logs in at a login server, is routed by a router to the game server that
  hosts its zone, and a control server spreads the zones over the game servers. Every part is
  an executable translation of its sources under src/, in the order the code has it: a class is
  a record, its methods are functions on it, an instruction is a constructor with its
  \<open>exec\<close>, what goes wrong is a value (\<open>Inl (UB ...)\<close> for undefined behaviour, \<open>Inl (Throw ...)\<close>
  for an exception).

  \<^bold>\<open>Shared ground.\<close> Pxc_Prelude: failures, the error monad, loops that stop at the first failure,
  and the locale \<open>event_refinement\<close> (a handler of events that simulates a specification, lifted
  to runs). Std_Map: \<open>std::map\<close> as an ordered association list behind the locale \<open>std_map\<close>.
  Cpp_Heap: objects behind pointers, behind the locale \<open>object_store\<close>. Wire: little-endian bytes,
  C strings in fixed buffers, field layout with padding. Binary64: \<open>double\<close> with rounding.

  \<^bold>\<open>Connections (conexion/).\<close> Transferable: Datagram.h, Transferable.h, TransferableFactory.cpp,
  TransferableProfile.cpp. Connection: Connection.h and what both connections share. Tcp_Secure:
  TCPConnectionSecurity.cpp, with the locale \<open>byte_source\<close> for framing. Tcp_Plain:
  TCPConnection.cpp. Shared_Factory: the same reception and sending access by access, since all
  connections of a process share one unguarded factory, and what their interleavings can and
  cannot do. Each access is one atomic step there, an idealisation of C++, where two of them that
  meet are undefined (\<open>accesses_conflict\<close> says which can meet). Connection_Manager: ConnectionManager.cpp. OpenSSL is an environment: the
  lists of its answers are state, and an operation that needs one more answer than the list has
  is \<open>Pending\<close>. The lemmas show that what one side sends the other receives, in order; what is
  lost or misread when an instruction is unknown or a packet arrives in pieces; who is let in.

  \<^bold>\<open>Router (servrouter/).\<close> Router_Objects: User.cpp, Zone.cpp, Server.cpp. Router: Router.cpp.
  What a call does to a connection goes through
  \<open>rt_do\<close>, which fails when the connection has been deleted. Router_Safety: the representation
  invariant \<open>rt_wf\<close> (live pointers, and no connection deleted or shared), kept by every operation but
  \<open>delUser\<close> when no connection is registered twice, and what the operations that move zones and
  users do. Router_Locks: the operations of many threads
  interleaved under the three mutexes: no deadlock among the mutexes (a send that fails
  closes the connection and joins its thread too), which writes they do not guard, and the deadlock with the thread of a connection that is closed. Router_Handlers: InstControl.cpp,
  InstServer.cpp, InstClient.h, RouterProfile.cpp, the three listeners, and the states reachable
  by received instructions.

  \<^bold>\<open>Control server (servcontrol/).\<close> Control_Model: Control.h, Server.h, ZoneLoad.h, statistics and
  balancing of Control.cpp. Control_Balance: a balancing pass as a list of rounds, which rounds those are, and
  the least loaded zone of each, specified without the code's scan. Control_Setup:
  address tables, connections, first assignment, the steps of \<open>main\<close>. Control_Assign: who gets
  which zone. Control_Handlers: ServerLoad.cpp, IPServer.cpp, NewUser.cpp, DisconnectUser.cpp,
  ControlProfile.cpp. Control_Main: \<open>main\<close> as the step relation \<open>km_main\<close>, its two alarm handlers
  and the other threads as \<open>km_other\<close>; what every reachable state has said to whom, and when
  the loop sleeps, wakes and balances.

  \<^bold>\<open>Game server (servjuego/).\<close> Game_Zone: Zone.cpp, PXCZone.cpp, PXCGame.cpp and ZoneHandler.cpp:
  users, the measuring loop of a zone's thread, and the interleaving of that thread with \<open>stop\<close>
  as the step relations \<open>zt_thread\<close> and \<open>zt_stopper\<close>. Game_Server: GameServer.cpp, InstControl.cpp,
  InstRouter.cpp, GameServerProfile.cpp, and runs of events on its two ports and its threads.

  \<^bold>\<open>Login server (servlogin/).\<close> Login_Server: Login.cpp, LoginRequest.cpp, LogoutRequest.cpp,
  ControlConnection.cpp, ClientClosedConnection.cpp, LoginProfile.cpp. The five maps are refined
  from one table of sessions. The database and SHA-1 are arguments.

  \<^bold>\<open>Client (cliente/).\<close> Client_Game: Client.cpp, InstLogin.cpp, InstRouter.cpp, InstServer.cpp,
  ClientProfile.cpp, the game's PXCGame.cpp with its drawing, and main.cpp; the zone is
  Game_Zone's, the same text. What executes an instruction (the main thread, or the listening thread of
  one of the two connections) is an argument, because it decides whether a mutex is held
  and whether closing the router connection joins the thread with itself.

  \<^bold>\<open>Between the programs.\<close> Protocol: what each program sends as bytes, the number its profile
  gives it, and what the receiver's profile makes of it (\<open>received\<close>): which messages are typed,
  so that they arrive as they were sent, and which are unknown or misread. Load_Round: a round
  of load requests over several game servers, which ends with the mask empty, with bits that no
  answer clears, or with a shift that is out of range. Programs: the \<open>main\<close> functions of the router, game
  and login servers, their ports and who is let in at them. Login_Replies: the login server's
  handlers over their TLS connections, with the close listener that runs inside them. This
  theory: a new user's way from the login server to the router and the game server, a client's
  way from its login request to the router, and the control server's first assignment at the
  game servers.

  \<^bold>\<open>Bounds and fuel.\<close> \<open>tcps_receiveThread\<close> runs for a given number of turns and is \<open>Pending\<close> when
  they are used up; the read and write loops follow the list of the environment's answers; the
  thread of a zone follows the list of the seconds its turns take, the client's wait and game
  loop the lists of what they see. The control server's loop has no bound: it is a step relation,
  and its properties are invariants of the reachable states or say which steps are possible.
  Integers are \<open>int\<close> where the code neither overflows nor wraps
  and words where it does (the mask, the token counter, lengths and numbers on the wire).

  \<^bold>\<open>Not modelled.\<close> The headers of SDL, MySQL and its connectors, and OpenSSL (third party); test
  programs and dummies (testConnection, testConnection2, cliente/testsVarios,
  servlogin/dummyClient, tmp); debug output. Races are modelled where the code shares an object
  without a mutex (the instruction factory in Shared_Factory, the run flag of a zone's thread, the
  control server's alarms) and where it may deadlock (Router_Locks). Elsewhere every handler runs
  as a whole, which the servers' mutexes mostly provide.
\<close>

section \<open>A new user on its way\<close>



section \<open>From the login to the router\<close>

text \<open>What the login server answers to a valid request, and what the client does with it.\<close>

definition session_answer :: "int \<Rightarrow> login_msg" where
  "session_answer i = LoginRequestSend_new 0 (strcpy_new LG_IP_LENGTH ROUTER_IP)
     (strcpy_new LG_PORT_LENGTH ROUTER_PORT) (Some i) (Some i)"

lemma session_answer_texts:
  "session_answer i = LoginRequestSend 0 (map Some (map char_byte ''127.0.0.1'' @ [0]) @ replicate 6 None)
     (map Some (map char_byte ''3456'' @ [0])) (Some i) (Some i)"
  unfolding session_answer_def LoginRequestSend_new_def by code_simp

lemma session_answer_received:
  "\<exists>ip port. received client_inst_of base LoginProfile ClientProfile pad behind
      (login_wire ri rb (session_answer (sint (i :: 32 word)))) = Some (ClLoginRequestRcvd 0 ip port (sint i) (sint i))
    \<and> read_cstr ip = Inr ROUTER_IP \<and> read_cstr port = Inr ROUTER_PORT"
proof -
  have t: "nul_free ''127.0.0.1''" "nul_free ''3456''" by (simp_all add: nul_free_def)
  have ip: "read_cstr (map char_byte ''127.0.0.1'' @ 0 # replicate 6 rb) = Inr ROUTER_IP"
    using read_cstr_field [OF t(1), of 16 "replicate 6 rb" "[]"] by (simp add: ROUTER_IP_def cstr_field_def)
  have port: "read_cstr (map char_byte ''3456'' @ [0]) = Inr ROUTER_PORT"
    using read_cstr_field [OF t(2), of 5 "[]" "[]"] by (simp add: ROUTER_PORT_def cstr_field_def)
  have "int32 0" by (simp add: int32_def)
  from loginAnswer_received [OF this, of "map Some (map char_byte ''127.0.0.1'' @ [0]) @ replicate 6 None"
      "map Some (map char_byte ''3456'' @ [0])" base pad behind ri rb "Some (sint i)" "Some (sint i)"]
  show ?thesis using ip port unfolding session_answer_texts
    by (auto simp: map_replicate o_def)
qed

lemma valid_login_answers:
  assumes "LoginRequestRcvd_exec db sha1 junk un pw c s = Inr s'"
    and "read_cstr un = Inr user" and "read_cstr pw = Inr pwd" and "lg_validate db sha1 junk user pwd = Inr True"
  shows "last (lg_sent s') = (c, session_answer (sint (lg_nextFreeToken s)))"
  using assms by (auto simp: LoginRequestRcvd_exec_def session_answer_def lg_emit_def Let_def bindR_eq_Inr)

text \<open>C25. A login leads to a router that does not listen. A client's request arrives at the login
  server; when the name and password, cut to 31 characters, are valid, the server's answer
  arrives with an id and a token that are the same number, its next free one; the client, still
  waiting, connects to the router and asks it to be attached; that request arrives too, and the
  router's client port neither executes nor relays it, in any state the router can reach.\<close>

theorem login_leads_to_deaf_router:
  assumes "nul_free user" and "nul_free pwd" and "lg_wf s"
    and "ClLoginRequestSend_new user pwd = ClLoginRequestSend un pw"
    and "lg_fair db sha1 junk (OnLogin un pw c) (lg_abs s)"
    and "lg_validate db sha1 junk (take 31 user) (take 31 pwd) = Inr True"
    and "ev_connects env ROUTER_IP ROUTER_PORT" and "router_reach r"
  shows "\<exists>e s' answer inst cl'. let i = sint (lg_nextFreeToken s) in
    received (login_event_of c) base ClientProfile LoginProfile pad behind (client_wire (ClLoginRequestSend un pw)) = Some e
    \<and> lg_handle db sha1 junk e s = Inr s' \<and> last (lg_sent s') = (c, answer)
    \<and> received client_inst_of base LoginProfile ClientProfile pad behind (login_wire ri rb answer) = Some inst
    \<and> cl_exec env (Listening LoginLink) inst cl = Inr cl' \<and> cl_id cl' = i \<and> cl_token cl' = i
    \<and> cl_isOnLogin cl' = cl_isOnLogin cl \<and> last (cl_sent cl') = ToRouter (ConnectClientSend i i)
    \<and> received router_inst_of base ClientProfile RouterProfile pad behind (client_wire (ConnectClientSend i i))
        = Some (ConnectUserRcvd i i)
    \<and> (\<forall>obj k. ClientListener_callback (Some (ConnectUserRcvd i i, obj)) k r = Inr r)"
proof -
  let ?i = "sint (lg_nextFreeToken s)"
  have m: "un = strncpy_bytes 31 user @ [0]" "pw = strncpy_bytes 31 pwd @ [0]"
    using assms(4) by (simp_all add: ClLoginRequestSend_new_def)
  have request: "received (login_event_of c) base ClientProfile LoginProfile pad behind
      (client_wire (ClLoginRequestSend un pw)) = Some (OnLogin un pw c)"
    using loginRequest_received [OF assms(1,2)] assms(4) m by simp
  obtain s' where s': "lg_handle db sha1 junk (OnLogin un pw c) s = Inr s'"
    using lg.simulates [OF assms(3,5)] by blast
  have texts: "read_cstr un = Inr (take 31 user)" "read_cstr pw = Inr (take 31 pwd)"
    using strncpy_bytes_read(3) [OF assms(1)] strncpy_bytes_read(3) [OF assms(2)] m by simp_all
  have answer: "last (lg_sent s') = (c, session_answer ?i)"
    using valid_login_answers [OF _ texts assms(6)] s' by simp
  obtain ip port where inst: "received client_inst_of base LoginProfile ClientProfile pad behind
      (login_wire ri rb (session_answer ?i)) = Some (ClLoginRequestRcvd 0 ip port ?i ?i)"
      "read_cstr ip = Inr ROUTER_IP" "read_cstr port = Inr ROUTER_PORT"
    using session_answer_received by blast
  obtain cl' where cl': "cl_exec env (Listening LoginLink) (ClLoginRequestRcvd 0 ip port ?i ?i) cl = Inr cl'"
      "cl_id cl' = ?i" "cl_token cl' = ?i" "cl_isOnLogin cl' = cl_isOnLogin cl"
      "last (cl_sent cl') = ToRouter (ConnectClientSend ?i ?i)"
    using inst(2,3) assms(7)
    by (cases "cl_router cl") (simp_all add: ClLoginRequestRcvd_exec_def cl_emit_def cl_routerConnection_def cl_setId_def cl_setToken_def
        cl_correctLogin_def Let_def)
  have "int32 ?i" using sint_ge [of "lg_nextFreeToken s"] sint_less [of "lg_nextFreeToken s"]
    by (simp add: int32_def)
  note asks = connectClient_received [OF this this, of base pad behind]
  show ?thesis unfolding Let_def
    using request s' answer inst(1) cl' asks client_port_inert [OF assms(8)] by blast
qed

theorem login_leads_to_deaf_router_witness:
  "\<exists>e s' inst cl'. received (login_event_of 4) 40 ClientProfile LoginProfile (\<lambda>_. 0) []
      (client_wire (ClLoginRequestSend_new ''ana'' ''secret'')) = Some e
    \<and> lg_handle (\<lambda>_. Some 2) id (\<lambda>_. 0) e lg_initializeLogin = Inr s'
    \<and> cl_exec \<lparr>ev_connects = \<lambda>_ _. True, ev_sdlInit = True, ev_videoMode = True, ev_videoSurface = True,
        ev_fill = id\<rparr> (Listening LoginLink) inst cl_new = Inr cl'
    \<and> last (cl_sent cl') = ToRouter (ConnectClientSend 0 0)"
proof -
  let ?env = "\<lparr>ev_connects = \<lambda>_ _. True, ev_sdlInit = True, ev_videoMode = True, ev_videoSurface = True,
    ev_fill = id\<rparr> :: outside"
  have t: "nul_free ''ana''" "nul_free ''secret''" by (simp_all add: nul_free_def)
  define un pw where "un = strncpy_bytes 31 ''ana'' @ [0]" and "pw = strncpy_bytes 31 ''secret'' @ [0]"
  have m: "ClLoginRequestSend_new ''ana'' ''secret'' = ClLoginRequestSend un pw"
    by (simp add: ClLoginRequestSend_new_def un_def pw_def)
  have empty: "lg_abs lg_initializeLogin = (0, Map.empty)"
    by (simp add: lg_abs_def lg_initializeLogin_def sessions_of_def fun_eq_iff)
  have fair: "lg_fair (\<lambda>_. Some 2) id (\<lambda>_. 0) (OnLogin un pw 4) (lg_abs lg_initializeLogin)"
    using strncpy_bytes_read(1,2) [OF t(1), of 31] strncpy_bytes_read(1,2) [OF t(2), of 31]
    by (simp add: empty un_def pw_def)
  have valid: "lg_validate (\<lambda>_. Some 2) id (\<lambda>_. 0) (take 31 ''ana'') (take 31 ''secret'') = Inr True"
    by (simp add: lg_validate_def lg_convertPwdToSha1_def SHA_DIGEST_LENGTH_def ofOption_def)
  have env: "ev_connects ?env ROUTER_IP ROUTER_PORT" by simp
  have free: "sint (lg_nextFreeToken lg_initializeLogin) = 0" by (simp add: lg_initializeLogin_def)
  from login_leads_to_deaf_router [OF t lg_wf_init m fair valid env reach_init, of 40 "\<lambda>_. 0" "[]" 0 0 cl_new]
  show ?thesis unfolding free Let_def m by blast
qed

section \<open>The first assignment at the game servers\<close>

text \<open>What a game server receives of what the control server sends: the orders sent on the
  connection to it.\<close>

definition orders_to ::
    "nat \<Rightarrow> (nat \<Rightarrow> byte) \<Rightarrow> byte list \<Rightarrow> gcid \<Rightarrow> control_event list \<Rightarrow> gs_event list" where
  "orders_to base pad behind g evs = concat (map (\<lambda>e. case e of
       CSend c m \<Rightarrow> if c = g then (case received gs_inst_of base ControlProfile GameServerProfile pad behind
           (control_wire 0 0 m) of None \<Rightarrow> [] | Some i \<Rightarrow> [OnControl i 0]) else []
     | _ \<Rightarrow> []) evs)"

lemma orders_to_iff:
  assumes "\<forall>e \<in> set evs. \<exists>c z sv. e = CSend c (SetZoneToServerSend z sv) \<and> (c = g \<longrightarrow> int32 z \<and> int32 sv)"
  shows "(z, sv) \<in> set (gs_orders (orders_to base pad behind g evs)) \<longleftrightarrow>
    CSend g (SetZoneToServerSend z sv) \<in> set evs"
  using assms
proof (induction evs)
  case (Cons e evs)
  then obtain c y tv where e: "e = CSend c (SetZoneToServerSend y tv)" "c = g \<longrightarrow> int32 y \<and> int32 tv" by auto
  have "orders_to base pad behind g (e # evs) =
      (if c = g then [OnControl (GsSetZoneToServerRcvd y tv) 0] else []) @ orders_to base pad behind g evs"
    using e setZoneToServer_received [of y tv base pad behind 0 0] by (simp add: orders_to_def)
  then show ?case using Cons e(1) by auto
qed (simp add: orders_to_def)

lemma zone_owner_less: "0 < n \<Longrightarrow> zone_owner n z < n"
  by (simp add: zone_owner_def)

text \<open>C4. The first assignment reaches the game servers: when every listed server is up, has its own
  connection and an id, each game server that executes what arrives of the orders sent to it
  hosts exactly the zones the control server's table gives it.\<close>

theorem first_assignment_is_hosted:
  assumes "ct_numberServers s = int (length (ct_servers s))" and "ct_servers s \<noteq> []"
    and "distinct (ct_servers s)" and "length (ct_zoneServer s) = 4" and up: "live_up online s"
    and "ct_events s = []"
    and conns: "\<And>a b v w. a \<in> set (ct_servers s) \<Longrightarrow> b \<in> set (ct_servers s) \<Longrightarrow>
      st_look (ct_heap s) a = Some v \<Longrightarrow> st_look (ct_heap s) b = Some w \<Longrightarrow> cs_c v = cs_c w \<Longrightarrow> a = b"
    and a: "a \<in> set (ct_servers s)" "st_look (ct_heap s) a = Some v" "cs_c v = Some g" "cs_id v \<noteq> -1" "int32 (cs_id v)"
  shows "\<exists>s' gs. ct_zoneAssignment online (4 + k) s = Ret s'
    \<and> gs_run (orders_to base pad behind g (ct_events s')) gs_new = Inr gs
    \<and> (\<forall>z. gs_hasZone z gs \<longleftrightarrow> 0 \<le> z \<and> z < 4 \<and> ct_zoneServer s' ! nat z = Some a)"
proof -
  obtain s' where s': "ct_zoneAssignment online (4 + k) s = Ret s'" "assigned s s'"
    using assignment_deals [OF assms(1-5)] by blast
  let ?own = "\<lambda>z. ct_servers s ! zone_owner (length (ct_servers s)) z"
  let ?obj = "\<lambda>z. the (st_look (ct_heap s) (?own z))"
  have own: "?own z \<in> set (ct_servers s)" for z
    using zone_owner_less [of "length (ct_servers s)" z] assms(2) by simp
  have table: "ct_zoneServer s' ! z = Some (?own z)" if "z < 4" for z
    using s'(2) that by (simp add: assigned_def)
  have sent: "ct_events s' = map (\<lambda>z. order_zone (?obj z) z) [0..<4]"
    using s'(2) assms(6) by (simp add: assigned_def)
  have mine: "order_zone (?obj y) y = CSend g (SetZoneToServerSend z sv)
      \<longleftrightarrow> ?own y = a \<and> z = int y \<and> sv = cs_id v" for y z sv
  proof -
    obtain w where w: "st_look (ct_heap s) (?own y) = Some w" "cs_isUp online w"
      using up own [of y] unfolding live_up_def by blast
    then obtain d where d: "cs_c w = Some d" by (auto simp: cs_isUp_def split: option.splits)
    show ?thesis
    proof
      assume l: "order_zone (?obj y) y = CSend g (SetZoneToServerSend z sv)"
      then have "cs_c w = cs_c v" using w d a(3) by (simp add: order_zone_def)
      then have "?own y = a" using conns [OF own a(1) w(1) a(2)] by blast
      then show "?own y = a \<and> z = int y \<and> sv = cs_id v" using l w a(2) by (simp add: order_zone_def)
    next
      assume "?own y = a \<and> z = int y \<and> sv = cs_id v"
      then show "order_zone (?obj y) y = CSend g (SetZoneToServerSend z sv)"
        using a(2,3) by (simp add: order_zone_def)
    qed
  qed
  let ?o = "gs_orders (orders_to base pad behind g (ct_events s'))"
  have orders: "(z, sv) \<in> set ?o \<longleftrightarrow> (\<exists>y < 4. ?own y = a \<and> z = int y) \<and> sv = cs_id v" for z sv
  proof -
    have "\<exists>c z sv. order_zone (?obj y) y = CSend c (SetZoneToServerSend z sv) \<and> (c = g \<longrightarrow> int32 z \<and> int32 sv)"
      if y: "y < 4" for y
    proof -
      obtain c z sv where o: "order_zone (?obj y) y = CSend c (SetZoneToServerSend z sv)"
        by (simp add: order_zone_def)
      moreover have "int32 z \<and> int32 sv" if "c = g"
        using mine [of y z sv] o that a(5) y by (simp add: int32_def)
      ultimately show ?thesis by blast
    qed
    then have all: "\<forall>e \<in> set (ct_events s'). \<exists>c z sv. e = CSend c (SetZoneToServerSend z sv)
        \<and> (c = g \<longrightarrow> int32 z \<and> int32 sv)"
      unfolding sent by simp
    have "(z, sv) \<in> set ?o \<longleftrightarrow> CSend g (SetZoneToServerSend z sv) \<in> set (ct_events s')"
      by (rule orders_to_iff [OF all])
    also have "\<dots> \<longleftrightarrow> (\<exists>y < 4. order_zone (?obj y) y = CSend g (SetZoneToServerSend z sv))"
      unfolding sent set_map set_upt image_iff by (auto simp: eq_commute)
    finally show ?thesis unfolding mine by blast
  qed
  then have "\<forall>p \<in> set ?o. snd p = cs_id v" by auto
  with a(4) obtain gs where gs: "gs_run (orders_to base pad behind g (ct_events s')) gs_new = Inr gs"
      "gs_id gs = (case ?o of [] \<Rightarrow> -1 | p # _ \<Rightarrow> snd p)" "\<forall>z. gs_hasZone z gs = ((z, gs_id gs) \<in> set ?o)"
    using gs_hosts_orders [of "orders_to base pad behind g (ct_events s')"] by auto
  have "gs_id gs = cs_id v" if "?o \<noteq> []"
    using that gs(2) \<open>\<forall>p \<in> set ?o. snd p = cs_id v\<close> by (cases ?o) auto
  then have "gs_hasZone z gs \<longleftrightarrow> (\<exists>y < 4. ?own y = a \<and> z = int y)" for z
    using gs(3) orders [of z] by (metis empty_iff empty_set)
  moreover have "(\<exists>y < 4. ?own y = a \<and> z = int y) \<longleftrightarrow> 0 \<le> z \<and> z < 4 \<and> ct_zoneServer s' ! nat z = Some a" for z
  proof
    assume "\<exists>y < 4. ?own y = a \<and> z = int y"
    then show "0 \<le> z \<and> z < 4 \<and> ct_zoneServer s' ! nat z = Some a" using table by auto
  next
    assume z: "0 \<le> z \<and> z < 4 \<and> ct_zoneServer s' ! nat z = Some a"
    then show "\<exists>y < 4. ?own y = a \<and> z = int y" using table [of "nat z"] by (intro exI [of _ "nat z"]) auto
  qed
  ultimately show ?thesis using s'(1) gs(1) by blast
qed

theorem first_assignment_is_hosted_witness:
  "\<exists>s' gs. ct_zoneAssignment (\<lambda>_. True) 4 ex_started = Ret s'
    \<and> gs_run (orders_to 40 (\<lambda>_. 0) [] 1 (ct_events s')) gs_new = Inr gs
    \<and> (\<forall>z. gs_hasZone z gs \<longleftrightarrow> 0 \<le> z \<and> z < 4 \<and> ct_zoneServer s' ! nat z = Some 1)"
proof -
  have up: "live_up (\<lambda>_. True) ex_started"
    using ex_started_value by (auto simp: live_up_def cserver_new_def cs_isUp_def)
  have "ct_numberServers ex_started = int (length (ct_servers ex_started))" "ct_servers ex_started \<noteq> []"
    "distinct (ct_servers ex_started)" "length (ct_zoneServer ex_started) = 4"
    using ex_started_value by simp_all
  note base = this up ex_started_value(6)
  have conns: "a = b" if "a \<in> set (ct_servers ex_started)" "b \<in> set (ct_servers ex_started)"
    "st_look (ct_heap ex_started) a = Some v" "st_look (ct_heap ex_started) b = Some w" "cs_c v = cs_c w"
    for a b v w
    using that ex_started_value by (auto simp: cserver_new_def)
  have "1 \<in> set (ct_servers ex_started)" using ex_started_value by simp
  moreover note ex_started_value(5)
  moreover have "cs_c (cserver_new 1 (Some ''10.0.0.2'') (Some ''3000'') (Some 1) (Fin 0)) = Some 1"
    "cs_id (cserver_new 1 (Some ''10.0.0.2'') (Some ''3000'') (Some 1) (Fin 0)) \<noteq> -1"
    "int32 (cs_id (cserver_new 1 (Some ''10.0.0.2'') (Some ''3000'') (Some 1) (Fin 0)))"
    by (simp_all add: cserver_new_def int32_def)
  ultimately show ?thesis
    using first_assignment_is_hosted [OF base conns, where k = 0] by simp
qed

end
